(* ===== verification/Raft_Prelude.thy ===== *)
theory Raft_Prelude
  imports "HOL-Library.Word" "HOL-Library.Finite_Map" "HOL-Library.Multiset"
    "HOL-Library.Monad_Syntax"
begin

text \<open>
  Shared vocabulary of the development: the machine types of the Go code, the
  effects (a computation that may panic, a result that may be an error), Go's
  slices, maps and sets, and the list, word and finite-set lemmas the component
  theories use.

  A computation of type \<open>'a go\<close> is a Go computation that may panic: \<^term>\<open>None\<close>
  is the panic, \<^term>\<open>Some x\<close> a normal return. A pair \<open>(value, error)\<close> of the
  source is a sum, \<open>Inl\<close> the error.
\<close>

section \<open>Machine types\<close>

type_synonym u64 = "64 word"
type_synonym 'a go = "'a option"

abbreviation MaxUint64 :: u64 where "MaxUint64 \<equiv> - 1"

text \<open>\<open>PeerID\<close> and \<open>Epoch\<close> of \<open>raftpb/raft.go\<close>; an epoch is only compared.\<close>

type_synonym PeerID = u64
type_synonym Epoch = int

named_theorems wf_intros \<open>introduction rules for the well-formedness invariants\<close>
named_theorems go_simps \<open>inversion of computations that may panic\<close>
named_theorems go_cases \<open>inversion of the branches of such computations\<close>

subsection \<open>Words as bounded numbers\<close>

lemma u64_less: "unat (n::u64) < 2 ^ 64"
  using unsigned_less [of n] by simp

lemma unat_MaxUint64: "unat MaxUint64 = 2 ^ 64 - 1"
  by (simp add: unsigned_minus_1_eq_mask mask_eq_exp_minus_1)

lemma unat_add_u64: "unat (m + n) = unat m + unat n" if "unat m + unat n < 2 ^ 64" for m n :: u64
  using that by (simp add: unat_word_ariths)

lemma unat_succ_u64: "(m::u64) < n \<Longrightarrow> unat (m + 1) = unat m + 1"
  using u64_less [of n] by (simp add: word_less_nat_alt unat_word_ariths)

lemma word_less_succ: "(m::u64) < n \<Longrightarrow> m < m + 1"
  by (simp add: word_less_nat_alt unat_succ_u64)

lemma word_succ_le: "(m::u64) < n \<Longrightarrow> m + 1 \<le> n"
  by (simp add: word_le_nat_alt unat_succ_u64 Suc_leI word_less_nat_alt)

lemma unat_of_nat_u64: "n < 2 ^ 64 \<Longrightarrow> unat (of_nat n :: u64) = n"
  by (simp add: unsigned_of_nat take_bit_nat_eq_self)

lemma unat_sub_u64: "n \<le> m \<Longrightarrow> unat (m - n) = unat m - unat n" for m n :: u64
  by (simp add: unat_sub)

lemma unat_pred_u64: "(y::u64) < x \<Longrightarrow> unat (x - 1) = unat x - 1"
  using unat_sub [of 1 x] by (simp add: word_le_nat_alt word_less_nat_alt)

lemma word_pred_less: "(y::u64) < x \<Longrightarrow> x - 1 < x"
  by (simp add: word_less_nat_alt unat_pred_u64)

lemma word_pred_ge: "(y::u64) < x \<Longrightarrow> y \<le> x - 1"
  by (simp add: word_le_nat_alt word_less_nat_alt unat_pred_u64)

lemma unat_1_u64 [simp]: "unat (1::u64) = 1"
  by simp

section \<open>Panics\<close>

text \<open>\<open>assertTrue\<close> of \<open>util.go\<close>, and the \<open>if !cond then panic\<close> pattern of the code.\<close>

definition assertTrue :: "bool \<Rightarrow> unit go" where
  "assertTrue b = (if b then Some () else None)"

lemma assertTrue_simps [simp]:
  "assertTrue True = Some ()"
  "assertTrue False = None"
  "assertTrue b = Some u \<longleftrightarrow> b"
  "assertTrue b = None \<longleftrightarrow> \<not> b"
  by (auto simp: assertTrue_def)

lemma bind_Some_iff [go_simps]:
  "(m \<bind> f) = Some y \<longleftrightarrow> (\<exists>x. m = Some x \<and> f x = Some y)"
  by (cases m) auto

lemma bind_assert_iff [go_simps]:
  "(assertTrue b \<bind> f) = Some y \<longleftrightarrow> b \<and> f () = Some y"
  by (cases b) auto

lemma case_option_Some_iff [go_cases]:
  "(case x of None \<Rightarrow> a | Some y \<Rightarrow> f y) = Some z \<longleftrightarrow>
     x = None \<and> a = Some z \<or> (\<exists>y. x = Some y \<and> f y = Some z)"
  by (cases x) auto

lemma case_sum_Some_iff [go_cases]:
  "(case x of Inl e \<Rightarrow> g e | Inr y \<Rightarrow> f y) = Some z \<longleftrightarrow>
     (\<exists>e. x = Inl e \<and> g e = Some z) \<or> (\<exists>y. x = Inr y \<and> f y = Some z)"
  by (cases x) auto

lemma case_prod_Some_iff [go_cases]:
  "(case p of (a, b) \<Rightarrow> f a b) = Some z \<longleftrightarrow> (\<exists>a b. p = (a, b) \<and> f a b = Some z)"
  by (cases p) auto

lemma if_Some_iff [go_cases]:
  "(if b then x else y) = Some z \<longleftrightarrow> b \<and> x = Some z \<or> \<not> b \<and> y = Some z"
  by simp

lemmas [go_cases] = bind_Some_iff bind_assert_iff

text \<open>Iterating an operation over a list, stopping at the first panic.\<close>

fun foldM :: "('a \<Rightarrow> 's \<Rightarrow> 's go) \<Rightarrow> 'a list \<Rightarrow> 's \<Rightarrow> 's go" where
  "foldM f [] s = Some s"
| "foldM f (x # xs) s = f x s \<bind> foldM f xs"

lemma foldM_append: "foldM f (xs @ ys) s = foldM f xs s \<bind> foldM f ys"
  by (induction xs arbitrary: s) (auto split: bind_splits)

lemma foldM_invariant:
  assumes "foldM f xs s = Some s'" and "P s"
    and "\<And>x s t. x \<in> set xs \<Longrightarrow> P s \<Longrightarrow> f x s = Some t \<Longrightarrow> P t"
  shows "P s'"
  using assms
proof (induction xs arbitrary: s)
  case Nil
  then show ?case by simp
next
  case (Cons x xs)
  then obtain t where "f x s = Some t" and "foldM f xs t = Some s'"
    by (auto simp: go_simps)
  with Cons show ?case by (metis list.set_intros(1,2))
qed

section \<open>Slices\<close>

text \<open>
  \<open>xs[i]\<close>, \<open>xs[i] = x\<close> and \<open>xs[lo:hi]\<close> of Go, which panic out of range. An offset
  of type \<open>int\<close> is a natural number here. Offsets into the log are computed on
  \<open>uint64\<close>, so a negative difference is a huge index and panics as well.
\<close>

definition at_go :: "'a list \<Rightarrow> nat \<Rightarrow> 'a go" where
  "at_go xs i = (if i < length xs then Some (xs ! i) else None)"

definition put_go :: "'a list \<Rightarrow> nat \<Rightarrow> 'a \<Rightarrow> 'a list go" where
  "put_go xs i x = (if i < length xs then Some (xs[i := x]) else None)"

definition slice_at :: "'a list \<Rightarrow> u64 \<Rightarrow> 'a go" where
  "slice_at xs i = (if unat i < length xs then Some (xs ! unat i) else None)"

definition slice_from :: "'a list \<Rightarrow> u64 \<Rightarrow> 'a list go" where
  "slice_from xs lo = (if unat lo \<le> length xs then Some (drop (unat lo) xs) else None)"

definition slice_to :: "'a list \<Rightarrow> u64 \<Rightarrow> 'a list go" where
  "slice_to xs hi = (if unat hi \<le> length xs then Some (take (unat hi) xs) else None)"

definition slice_range :: "'a list \<Rightarrow> u64 \<Rightarrow> u64 \<Rightarrow> 'a list go" where
  "slice_range xs lo hi =
     (if unat lo \<le> unat hi \<and> unat hi \<le> length xs
      then Some (take (unat hi - unat lo) (drop (unat lo) xs)) else None)"

definition len64 :: "'a list \<Rightarrow> u64" where
  "len64 xs = of_nat (length xs)"

lemma len64_simps [simp]:
  "len64 [] = 0"
  "len64 (x # xs) = len64 xs + 1"
  "len64 (xs @ ys) = len64 xs + len64 ys"
  by (simp_all add: len64_def)

lemma unat_len64: "length xs < 2 ^ 64 \<Longrightarrow> unat (len64 xs) = length xs"
  by (simp add: len64_def unsigned_of_nat take_bit_nat_eq_self)

section \<open>Sets of peers\<close>

text \<open>
  A Go \<open>map[PeerID]struct{}\<close>: \<^term>\<open>None\<close> is the nil map, which reads as the empty
  set and panics when written. Iteration visits the keys in an unspecified order;
  the code that iterates either sorts first or computes something that does not
  depend on the order, and the model iterates in ascending order.
\<close>

type_synonym idset = "PeerID fset option"

definition keys :: "idset \<Rightarrow> PeerID fset" where
  "keys m = (case m of None \<Rightarrow> {||} | Some s \<Rightarrow> s)"

lemma keys_simps [simp]:
  "keys None = {||}"
  "keys (Some s) = s"
  by (simp_all add: keys_def)

definition has_key :: "idset \<Rightarrow> PeerID \<Rightarrow> bool" where
  "has_key m i \<longleftrightarrow> i |\<in>| keys m"

definition map_len :: "idset \<Rightarrow> nat" where
  "map_len m = fcard (keys m)"

definition ranged :: "idset \<Rightarrow> PeerID list" where
  "ranged m = sorted_list_of_fset (keys m)"

lemma has_key_simps [simp]:
  "has_key None i = False"
  "has_key (Some s) i \<longleftrightarrow> i |\<in>| s"
  by (simp_all add: has_key_def)

lemma has_key_iff: "has_key m i \<longleftrightarrow> i \<in> fset (keys m)"
  by (simp add: has_key_def)

lemma set_ranged [simp]: "set (ranged m) = fset (keys m)"
  by (simp add: ranged_def)

lemma distinct_ranged [simp]: "distinct (ranged m)"
  by (simp add: ranged_def sorted_list_of_fset.rep_eq)

lemma sorted_ranged [simp]: "sorted (ranged m)"
  by (simp add: ranged_def sorted_list_of_fset.rep_eq)

lemma length_ranged: "length (ranged m) = map_len m"
  by (simp add: ranged_def map_len_def sorted_list_of_fset.rep_eq fcard.rep_eq)

lemma map_len_card: "map_len m = card (fset (keys m))"
  by (simp add: map_len_def fcard.rep_eq)

lemma map_len_eq_0 [simp]: "map_len m = 0 \<longleftrightarrow> keys m = {||}"
  by (simp add: map_len_def)

text \<open>
  Sorted enumeration of a concrete finite set, by insertion: the rewrite rules that
  let closed terms evaluate in the simplifier.
\<close>

lemma sorted_list_of_fset_empty [simp]: "sorted_list_of_fset {||} = []"
  by (simp add: sorted_list_of_fset.rep_eq)

lemma sorted_list_of_fset_finsert:
  "sorted_list_of_fset (finsert x A) =
     (if x |\<in>| A then sorted_list_of_fset A else insort x (sorted_list_of_fset A))"
  by (cases "x |\<in>| A") (auto simp: sorted_list_of_fset.rep_eq finsert_absorb)

lemmas fset_eval = sorted_list_of_fset_finsert fcard_finsert_if fcard_fempty ranged_def map_len_def

lemma distinct_sorted_list_of_fset [simp]: "distinct (sorted_list_of_fset A)"
  by (simp add: sorted_list_of_fset.rep_eq)

lemma sorted_sorted_list_of_fset [simp]: "sorted (sorted_list_of_fset A)"
  by (simp add: sorted_list_of_fset.rep_eq)

lemma length_sorted_list_of_fset [simp]: "length (sorted_list_of_fset A) = fcard A"
  by (simp add: sorted_list_of_fset.rep_eq fcard.rep_eq)

section \<open>Order statistics of a sorted list\<close>

lemma sorted_nth_ge_iff:
  fixes xs :: "'a::linorder list"
  assumes "sorted xs" and "k < length xs"
  shows "a \<le> xs ! k \<longleftrightarrow> length xs - k \<le> length (filter (\<lambda>x. a \<le> x) xs)"
  using assms
proof (induction xs arbitrary: k)
  case Nil
  then show ?case by simp
next
  case (Cons x xs)
  show ?case
  proof (cases "a \<le> x")
    case True
    with Cons.prems have all: "\<forall>y \<in> set (x # xs). a \<le> y" by auto
    then have "filter (\<lambda>y. a \<le> y) (x # xs) = x # xs" by (simp add: filter_id_conv)
    moreover have "a \<le> (x # xs) ! k" using all Cons.prems(2) by (metis nth_mem)
    ultimately show ?thesis by simp
  next
    case False
    show ?thesis
    proof (cases k)
      case 0
      have "length (filter (\<lambda>y. a \<le> y) xs) < Suc (length xs)"
        by (simp add: less_Suc_eq_le)
      with 0 False show ?thesis by simp
    next
      case (Suc j)
      with Cons.prems False Cons.IH [of j] show ?thesis by simp
    qed
  qed
qed

lemma sort_nth_ge_iff:
  fixes xs :: "'a::linorder list"
  assumes "k < length xs"
  shows "a \<le> sort xs ! k \<longleftrightarrow> length xs - k \<le> length (filter (\<lambda>x. a \<le> x) xs)"
proof -
  have "length (filter (\<lambda>x. a \<le> x) (sort xs)) = length (filter (\<lambda>x. a \<le> x) xs)"
    by (metis mset_filter mset_sort size_mset)
  then show ?thesis
    using sorted_nth_ge_iff [of "sort xs" k a] assms by simp
qed

lemma length_filter_card:
  "distinct xs \<Longrightarrow> length (filter P xs) = card {x \<in> set xs. P x}"
  by (metis distinct_filter distinct_card set_filter)

text \<open>Two majorities of a finite set meet.\<close>

lemma majorities_meet:
  assumes "finite C" and "A \<subseteq> C" and "B \<subseteq> C"
    and "card C < 2 * card A" and "card C < 2 * card B"
  shows "\<exists>x. x \<in> A \<and> x \<in> B"
proof (rule ccontr)
  assume "\<nexists>x. x \<in> A \<and> x \<in> B"
  then have "A \<inter> B = {}" by auto
  with assms have "card (A \<union> B) = card A + card B"
    by (meson card_Un_disjoint finite_subset)
  moreover have "card (A \<union> B) \<le> card C"
    using assms by (simp add: card_mono)
  ultimately show False using assms by linarith
qed

end
