(* ===== verification/Raftpb.thy ===== *)
theory Raftpb
  imports Raft_Prelude
begin

text \<open>
  The messages of \<open>src/pkg/raft/raftpb\<close>: the protocol buffer types of
  \<open>raft.proto\<close> as records and datatypes, and the operations of \<open>confchange.go\<close>
  and \<open>confstate.go\<close> on them. A record's fields carry a short prefix (\<open>e_\<close> for
  \<open>Entry\<close>, \<open>m_\<close> for \<open>Message\<close>, \<open>hs_\<close> for \<open>HardState\<close>, and so on).

  The Go code that \<open>protoc\<close> generates from \<open>raft.proto\<close> (\<open>Size\<close>, \<open>Marshal\<close>,
  \<open>Unmarshal\<close>) is not part of the repository: the record \<open>codec\<close> collects it as
  a parameter of the definitions that use it.
\<close>

type_synonym bytes = string

section \<open>Log entries and snapshots\<close>

datatype EntryType = EntryNormal | EntryConfChange | EntryConfChangeV2

record Entry =
  e_Term :: u64
  e_Index :: u64
  e_Type :: EntryType
  e_Data :: bytes

record ConfState =
  cs_Voters :: "PeerID list"
  cs_Learners :: "PeerID list"
  cs_VotersOutgoing :: "PeerID list"
  cs_LearnersNext :: "PeerID list"
  cs_AutoLeave :: bool

record SnapshotMetadata =
  sm_ConfState :: ConfState
  sm_Index :: u64
  sm_Term :: u64

record Snapshot =
  s_Data :: bytes
  s_Metadata :: SnapshotMetadata

record HardState =
  hs_Term :: u64
  hs_Vote :: PeerID
  hs_Commit :: u64
  hs_Lead :: PeerID
  hs_LeadEpoch :: Epoch

text \<open>The zero values of these types.\<close>

definition Entry_zero :: Entry where
  "Entry_zero = \<lparr>e_Term = 0, e_Index = 0, e_Type = EntryNormal, e_Data = []\<rparr>"

definition ConfState_zero :: ConfState where
  "ConfState_zero = \<lparr>cs_Voters = [], cs_Learners = [], cs_VotersOutgoing = [],
     cs_LearnersNext = [], cs_AutoLeave = False\<rparr>"

definition Snapshot_zero :: Snapshot where
  "Snapshot_zero = \<lparr>s_Data = [],
     s_Metadata = \<lparr>sm_ConfState = ConfState_zero, sm_Index = 0, sm_Term = 0\<rparr>\<rparr>"

definition HardState_zero :: HardState where
  "HardState_zero = \<lparr>hs_Term = 0, hs_Vote = 0, hs_Commit = 0, hs_Lead = 0, hs_LeadEpoch = 0\<rparr>"

section \<open>Messages\<close>

datatype MessageType =
    MsgHup | MsgBeat | MsgProp | MsgApp | MsgAppResp | MsgVote | MsgVoteResp | MsgSnap
  | MsgHeartbeat | MsgHeartbeatResp | MsgUnreachable | MsgSnapStatus | MsgCheckQuorum
  | MsgTransferLeader | MsgTimeoutNow | MsgPreVote | MsgPreVoteResp | MsgStorageAppend
  | MsgStorageAppendResp | MsgStorageApply | MsgStorageApplyResp | MsgForgetLeader
  | MsgFortifyLeader | MsgFortifyLeaderResp

text \<open>
  The field \<open>responses\<close> of the source's message nests messages. It is populated only
  in the messages to the local storage threads, and the messages in it have none of
  their own, so the record is extended with it where those messages are built.
\<close>

record Message =
  m_Type :: MessageType
  m_To :: PeerID
  m_From :: PeerID
  m_Term :: u64
  m_LogTerm :: u64
  m_Index :: u64
  m_Entries :: "Entry list"
  m_Commit :: u64
  m_Lead :: PeerID
  m_LeadEpoch :: Epoch
  m_Vote :: PeerID
  m_Snapshot :: "Snapshot option"
  m_Reject :: bool
  m_RejectHint :: u64
  m_Context :: bytes
  m_Match :: u64

definition Message_zero :: Message where
  "Message_zero = \<lparr>m_Type = MsgHup, m_To = 0, m_From = 0, m_Term = 0, m_LogTerm = 0,
     m_Index = 0, m_Entries = [], m_Commit = 0, m_Lead = 0, m_LeadEpoch = 0, m_Vote = 0,
     m_Snapshot = None, m_Reject = False, m_RejectHint = 0, m_Context = [], m_Match = 0\<rparr>"

record StorageMessage = Message +
  m_Responses :: "Message list"

section \<open>Configuration changes\<close>

text \<open>A decoded enum may hold a number the code does not know.\<close>

datatype ConfChangeType =
    ConfChangeAddNode | ConfChangeRemoveNode | ConfChangeUpdateNode | ConfChangeAddLearnerNode
  | ConfChangeType_unknown int

datatype ConfChangeTransition =
    ConfChangeTransitionAuto | ConfChangeTransitionJointImplicit
  | ConfChangeTransitionJointExplicit | ConfChangeTransition_unknown int

record ConfChangeSingle =
  ccs_Type :: ConfChangeType
  ccs_NodeID :: PeerID

record ConfChange =
  cc_Type :: ConfChangeType
  cc_NodeID :: PeerID
  cc_Context :: bytes
  cc_ID :: u64

record ConfChangeV2 =
  cc2_Transition :: ConfChangeTransition
  cc2_Changes :: "ConfChangeSingle list"
  cc2_Context :: bytes

text \<open>The interface \<open>ConfChangeI\<close>: a legacy or a V2 configuration change.\<close>

datatype ConfChangeI = CCV1 ConfChange | CCV2 ConfChangeV2

definition ConfChange_AsV2 :: "ConfChange \<Rightarrow> ConfChangeV2" where
  "ConfChange_AsV2 c =
     \<lparr>cc2_Transition = ConfChangeTransitionAuto,
      cc2_Changes = [\<lparr>ccs_Type = cc_Type c, ccs_NodeID = cc_NodeID c\<rparr>],
      cc2_Context = cc_Context c\<rparr>"

fun ConfChangeI_AsV2 :: "ConfChangeI \<Rightarrow> ConfChangeV2" where
  "ConfChangeI_AsV2 (CCV1 c) = ConfChange_AsV2 c"
| "ConfChangeI_AsV2 (CCV2 c) = c"

fun ConfChangeI_AsV1 :: "ConfChangeI \<Rightarrow> ConfChange option" where
  "ConfChangeI_AsV1 (CCV1 c) = Some c"
| "ConfChangeI_AsV1 (CCV2 c) = None"

text \<open>\<open>EnterJoint\<close>: \<open>(autoLeave, ok)\<close>; an unknown transition panics.\<close>

definition ConfChangeV2_EnterJoint :: "ConfChangeV2 \<Rightarrow> (bool \<times> bool) go" where
  "ConfChangeV2_EnterJoint c =
     (if cc2_Transition c \<noteq> ConfChangeTransitionAuto \<or> length (cc2_Changes c) > 1 then
        (case cc2_Transition c of
           ConfChangeTransitionAuto \<Rightarrow> Some (True, True)
         | ConfChangeTransitionJointImplicit \<Rightarrow> Some (True, True)
         | ConfChangeTransitionJointExplicit \<Rightarrow> Some (False, True)
         | ConfChangeTransition_unknown _ \<Rightarrow> None)
      else Some (False, False))"

definition ConfChangeV2_LeaveJoint :: "ConfChangeV2 \<Rightarrow> bool" where
  "ConfChangeV2_LeaveJoint c \<longleftrightarrow>
     c\<lparr>cc2_Context := []\<rparr> =
       \<lparr>cc2_Transition = ConfChangeTransitionAuto, cc2_Changes = [], cc2_Context = []\<rparr>"

lemma ConfChangeV2_LeaveJoint_iff:
  "ConfChangeV2_LeaveJoint c \<longleftrightarrow>
     cc2_Transition c = ConfChangeTransitionAuto \<and> cc2_Changes c = []"
  by (cases c) (simp add: ConfChangeV2_LeaveJoint_def)

text \<open>A change that leaves the joint configuration does not enter one.\<close>

lemma LeaveJoint_not_EnterJoint:
  "ConfChangeV2_LeaveJoint c \<Longrightarrow> ConfChangeV2_EnterJoint c = Some (False, False)"
  by (simp add: ConfChangeV2_LeaveJoint_iff ConfChangeV2_EnterJoint_def)

section \<open>Equivalence of configuration states\<close>

definition ConfState_sorted :: "ConfState \<Rightarrow> ConfState" where
  "ConfState_sorted cs = cs\<lparr>cs_Voters := sort (cs_Voters cs), cs_Learners := sort (cs_Learners cs),
     cs_VotersOutgoing := sort (cs_VotersOutgoing cs), cs_LearnersNext := sort (cs_LearnersNext cs)\<rparr>"

text \<open>True when \<open>Equivalent\<close> returns no error.\<close>

definition ConfState_Equivalent :: "ConfState \<Rightarrow> ConfState \<Rightarrow> bool" where
  "ConfState_Equivalent cs1 cs2 \<longleftrightarrow> ConfState_sorted cs1 = ConfState_sorted cs2"

lemma sort_eq_iff_mset: "sort xs = sort (ys :: 'a::linorder list) \<longleftrightarrow> mset xs = mset ys"
  by (metis mset_sort properties_for_sort sorted_sort)

lemma ConfState_Equivalent_iff:
  "ConfState_Equivalent cs1 cs2 \<longleftrightarrow>
     mset (cs_Voters cs1) = mset (cs_Voters cs2) \<and>
     mset (cs_Learners cs1) = mset (cs_Learners cs2) \<and>
     mset (cs_VotersOutgoing cs1) = mset (cs_VotersOutgoing cs2) \<and>
     mset (cs_LearnersNext cs1) = mset (cs_LearnersNext cs2) \<and>
     cs_AutoLeave cs1 = cs_AutoLeave cs2"
  by (cases cs1; cases cs2)
    (simp add: ConfState_Equivalent_def ConfState_sorted_def sort_eq_iff_mset)

section \<open>Generated code\<close>

text \<open>
  The generated methods the raft code calls: \<open>Entry.Size\<close> (the length of the encoding,
  a Go \<open>int\<close>, hence below \<open>2 ^ 63\<close>), and \<open>Marshal\<close> and \<open>Unmarshal\<close> of the two kinds
  of configuration change, \<^term>\<open>None\<close> when they return an error.
\<close>

record codec =
  Entry_Size :: "Entry \<Rightarrow> nat"
  ConfChange_Marshal :: "ConfChange \<Rightarrow> bytes option"
  ConfChange_Unmarshal :: "bytes \<Rightarrow> ConfChange option"
  ConfChangeV2_Marshal :: "ConfChangeV2 \<Rightarrow> bytes option"
  ConfChangeV2_Unmarshal :: "bytes \<Rightarrow> ConfChangeV2 option"

text \<open>\<open>MarshalConfChange\<close>: \<^term>\<open>None\<close> as the change is the nil interface.\<close>

definition MarshalConfChange :: "codec \<Rightarrow> ConfChangeI option \<Rightarrow> (EntryType \<times> bytes) option" where
  "MarshalConfChange cd c =
     (case c of
        None \<Rightarrow> Some (EntryConfChangeV2, [])
      | Some cc \<Rightarrow>
          (case ConfChangeI_AsV1 cc of
             Some ccv1 \<Rightarrow> map_option (Pair EntryConfChange) (ConfChange_Marshal cd ccv1)
           | None \<Rightarrow> map_option (Pair EntryConfChangeV2)
               (ConfChangeV2_Marshal cd (ConfChangeI_AsV2 cc))))"

end
