(* ===== verification/Log_Types.thy ===== *)
theory Log_Types
  imports Raftpb
begin

text \<open>
  The log vocabulary of \<open>types.go\<close> (entry ids, log marks, log slices, snapshots
  with the term of their leader) and the size limits of \<open>util.go\<close>. A log slice is
  also the abstract view of a log that the storage, unstable and raft log theories
  refine to: \<open>log_term\<close> and \<open>log_range\<close> read it as a function of the index.
\<close>

section \<open>Entry ids, marks, slices and snapshots\<close>

record entryID =
  id_term :: u64
  id_index :: u64

definition pbEntryID :: "Entry \<Rightarrow> entryID" where
  "pbEntryID entry = \<lparr>id_term = e_Term entry, id_index = e_Index entry\<rparr>"

record LogMark =
  lm_Term :: u64
  lm_Index :: u64

definition LogMark_After :: "LogMark \<Rightarrow> LogMark \<Rightarrow> bool" where
  "LogMark_After l other \<longleftrightarrow>
     lm_Term other < lm_Term l \<or> lm_Term l = lm_Term other \<and> lm_Index other < lm_Index l"

record logSlice =
  ls_term :: u64
  ls_prev :: entryID
  ls_entries :: "Entry list"

definition logSlice_lastIndex :: "logSlice \<Rightarrow> u64" where
  "logSlice_lastIndex s = id_index (ls_prev s) + len64 (ls_entries s)"

definition logSlice_lastEntryID :: "logSlice \<Rightarrow> entryID" where
  "logSlice_lastEntryID s =
     (if ls_entries s \<noteq> [] then pbEntryID (last (ls_entries s)) else ls_prev s)"

definition logSlice_mark :: "logSlice \<Rightarrow> LogMark" where
  "logSlice_mark s = \<lparr>lm_Term = ls_term s, lm_Index = logSlice_lastIndex s\<rparr>"

definition logSlice_termAt :: "logSlice \<Rightarrow> u64 \<Rightarrow> u64 go" where
  "logSlice_termAt s index =
     (if index = id_index (ls_prev s) then Some (id_term (ls_prev s))
      else do {
        e \<leftarrow> slice_at (ls_entries s) (index - id_index (ls_prev s) - 1);
        Some (e_Term e)
      })"

definition logSlice_forward :: "logSlice \<Rightarrow> u64 \<Rightarrow> logSlice go" where
  "logSlice_forward s index = do {
     t \<leftarrow> logSlice_termAt s index;
     es \<leftarrow> slice_from (ls_entries s) (index - id_index (ls_prev s));
     Some \<lparr>ls_term = ls_term s, ls_prev = \<lparr>id_term = t, id_index = index\<rparr>, ls_entries = es\<rparr>
   }"

text \<open>
  The loop of \<open>valid\<close>: \<^term>\<open>None\<close> when two neighbours are inconsistent, otherwise
  the id of the last entry. \<open>valid\<close> is the test that the method returns no error.
\<close>

fun logSlice_valid_loop :: "entryID \<Rightarrow> Entry list \<Rightarrow> entryID option" where
  "logSlice_valid_loop prev [] = Some prev"
| "logSlice_valid_loop prev (e # es) =
     (if id_term (pbEntryID e) < id_term prev \<or> id_index (pbEntryID e) \<noteq> id_index prev + 1 then None
      else logSlice_valid_loop (pbEntryID e) es)"

definition logSlice_valid :: "logSlice \<Rightarrow> bool" where
  "logSlice_valid s =
     (case logSlice_valid_loop (ls_prev s) (ls_entries s) of
        None \<Rightarrow> False
      | Some prev \<Rightarrow> \<not> ls_term s < id_term prev)"

record snapshot =
  sn_term :: u64
  sn_snap :: Snapshot

definition snapshot_lastIndex :: "snapshot \<Rightarrow> u64" where
  "snapshot_lastIndex s = sm_Index (s_Metadata (sn_snap s))"

definition snapshot_lastEntryID :: "snapshot \<Rightarrow> entryID" where
  "snapshot_lastEntryID s =
     \<lparr>id_term = sm_Term (s_Metadata (sn_snap s)), id_index = sm_Index (s_Metadata (sn_snap s))\<rparr>"

definition snapshot_mark :: "snapshot \<Rightarrow> LogMark" where
  "snapshot_mark s = \<lparr>lm_Term = sn_term s, lm_Index = sm_Index (s_Metadata (sn_snap s))\<rparr>"

definition snapshot_valid :: "snapshot \<Rightarrow> bool" where
  "snapshot_valid s \<longleftrightarrow> \<not> sn_term s < sm_Term (s_Metadata (sn_snap s))"

section \<open>Sizes\<close>

text \<open>
  \<open>entryEncodingSize\<close> and \<open>entryPayloadSize\<close> are \<open>uint64\<close>. The running total of
  \<open>limitSize\<close> is an \<open>int\<close>, converted for the comparison.
\<close>

definition noLimit :: u64 where
  "noLimit = MaxUint64"

definition entsSize :: "codec \<Rightarrow> Entry list \<Rightarrow> u64" where
  "entsSize cd ents = fold (\<lambda>ent sz. sz + of_nat (Entry_Size cd ent)) ents 0"

fun limitSize_loop :: "codec \<Rightarrow> Entry list \<Rightarrow> u64 \<Rightarrow> nat \<Rightarrow> Entry list" where
  "limitSize_loop cd [] maxSize sz = []"
| "limitSize_loop cd (e # es) maxSize sz =
     (let sz = sz + Entry_Size cd e in
      if maxSize < of_nat sz then [] else e # limitSize_loop cd es maxSize sz)"

definition limitSize :: "codec \<Rightarrow> Entry list \<Rightarrow> u64 \<Rightarrow> Entry list" where
  "limitSize cd ents maxSize =
     (case ents of
        [] \<Rightarrow> ents
      | e # es \<Rightarrow> e # limitSize_loop cd es maxSize (Entry_Size cd e))"

definition payloadSize :: "Entry \<Rightarrow> u64" where
  "payloadSize e = of_nat (length (e_Data e))"

definition payloadsSize :: "Entry list \<Rightarrow> u64" where
  "payloadsSize ents = fold (\<lambda>e s. s + payloadSize e) ents 0"

definition extend :: "Entry list \<Rightarrow> Entry list \<Rightarrow> Entry list" where
  "extend dst vals = dst @ vals"


section \<open>Contiguous entries\<close>

text \<open>The id of the last of some entries after \<open>b\<close>, and consecutive entries after \<open>b\<close>.\<close>

definition last_id :: "entryID \<Rightarrow> Entry list \<Rightarrow> entryID" where
  "last_id b es = (if es = [] then b else pbEntryID (last es))"

fun contig :: "entryID \<Rightarrow> Entry list \<Rightarrow> bool" where
  "contig b [] \<longleftrightarrow> True"
| "contig b (e # es) \<longleftrightarrow>
     id_term b \<le> e_Term e \<and> e_Index e = id_index b + 1 \<and> contig (pbEntryID e) es"

lemma pbEntryID_sel [simp]:
  "id_term (pbEntryID e) = e_Term e"
  "id_index (pbEntryID e) = e_Index e"
  by (simp_all add: pbEntryID_def)

lemma last_id_simps [simp]:
  "last_id b [] = b"
  "last_id b (e # es) = last_id (pbEntryID e) es"
  by (simp_all add: last_id_def)

lemma last_id_append [simp]: "last_id b (xs @ ys) = last_id (last_id b xs) ys"
  by (induction xs arbitrary: b) simp_all

lemma valid_loop_contig:
  "logSlice_valid_loop b es = (if contig b es then Some (last_id b es) else None)"
  by (induction es arbitrary: b) auto

lemma logSlice_valid_contig:
  "logSlice_valid s \<longleftrightarrow>
     contig (ls_prev s) (ls_entries s) \<and> id_term (last_id (ls_prev s) (ls_entries s)) \<le> ls_term s"
  by (simp add: logSlice_valid_def valid_loop_contig not_less)

lemma lastEntryID_last_id: "logSlice_lastEntryID s = last_id (ls_prev s) (ls_entries s)"
  by (simp add: logSlice_lastEntryID_def last_id_def)

lemma contig_append [simp]: "contig b (xs @ ys) \<longleftrightarrow> contig b xs \<and> contig (last_id b xs) ys"
  by (induction xs arbitrary: b) auto

lemma contig_take: "contig b es \<Longrightarrow> contig b (take k es)"
  by (metis append_take_drop_id contig_append)

lemma contig_drop: "contig b es \<Longrightarrow> contig (last_id b (take k es)) (drop k es)"
  by (metis append_take_drop_id contig_append)

lemma contig_nth_index:
  "contig b es \<Longrightarrow> k < length es \<Longrightarrow> e_Index (es ! k) = id_index b + 1 + of_nat k"
  by (induction es arbitrary: b k) (auto simp: nth_Cons' ac_simps of_nat_diff split: if_splits)

lemma last_id_index: "contig b es \<Longrightarrow> id_index (last_id b es) = id_index b + len64 es"
  by (induction es arbitrary: b) (auto simp: ac_simps)

lemma contig_terms_le: "contig b es \<Longrightarrow> id_term b \<le> id_term (last_id b es)"
  by (induction es arbitrary: b) (force intro: order_trans)+

lemma last_id_take_Suc:
  "k < length es \<Longrightarrow> last_id b (take (Suc k) es) = pbEntryID (es ! k)"
  by (simp add: take_Suc_conv_app_nth)

lemma last_id_take_nth:
  "0 < k \<Longrightarrow> k \<le> length es \<Longrightarrow> last_id b (take k es) = pbEntryID (es ! (k - 1))"
  by (cases k) (simp_all add: last_id_take_Suc)

lemma contig_sorted_terms:
  "contig b es \<Longrightarrow> sorted (id_term b # map e_Term es)"
proof (induction es arbitrary: b)
  case (Cons e es)
  then have "id_term b \<le> e_Term e" "sorted (e_Term e # map e_Term es)"
    using Cons.IH [of "pbEntryID e"] by simp_all
  then show ?case by (auto intro: order_trans)
qed simp

lemma contig_iff_nth:
  "contig b es \<longleftrightarrow>
     (\<forall>k < length es. e_Index (es ! k) = id_index b + 1 + of_nat k) \<and> sorted (id_term b # map e_Term es)"
proof (induction es arbitrary: b)
  case (Cons e es)
  have "(\<forall>k < length (e # es). e_Index ((e # es) ! k) = id_index b + 1 + of_nat k) \<longleftrightarrow>
      e_Index e = id_index b + 1 \<and>
      (\<forall>k < length es. e_Index (es ! k) = id_index b + 1 + of_nat (Suc k))"
    unfolding All_less_Suc2 length_Cons nth_Cons_0 nth_Cons_Suc by simp
  with Cons.IH [of "pbEntryID e"] show ?case
    by (auto simp: ac_simps intro: order_trans)
qed simp


section \<open>A slice as a log\<close>

text \<open>
  A well-formed slice is valid, and the index after its last entry does not
  overflow. Positions in it are distances from \<open>prev\<close>.
\<close>

abbreviation prev_index :: "logSlice \<Rightarrow> u64" where
  "prev_index s \<equiv> id_index (ls_prev s)"

definition slice_wf :: "logSlice \<Rightarrow> bool" where
  "slice_wf s \<longleftrightarrow>
     logSlice_valid s \<and> unat (prev_index s) + length (ls_entries s) < 2 ^ 64 - 1"

definition log_pos :: "logSlice \<Rightarrow> u64 \<Rightarrow> nat" where
  "log_pos s i = unat i - unat (prev_index s)"

definition in_log :: "logSlice \<Rightarrow> u64 \<Rightarrow> bool" where
  "in_log s i \<longleftrightarrow>
     unat (prev_index s) \<le> unat i \<and> unat i \<le> unat (prev_index s) + length (ls_entries s)"

definition id_at :: "logSlice \<Rightarrow> u64 \<Rightarrow> entryID" where
  "id_at s i = last_id (ls_prev s) (take (log_pos s i) (ls_entries s))"

definition log_term :: "logSlice \<Rightarrow> u64 \<Rightarrow> u64 option" where
  "log_term s i = (if in_log s i then Some (id_term (id_at s i)) else None)"

definition log_range :: "logSlice \<Rightarrow> u64 \<Rightarrow> u64 \<Rightarrow> Entry list" where
  "log_range s lo hi = take (unat hi - unat lo) (drop (log_pos s lo - 1) (ls_entries s))"

definition log_prefix :: "logSlice \<Rightarrow> u64 \<Rightarrow> logSlice" where
  "log_prefix s i = s\<lparr>ls_entries := take (log_pos s i) (ls_entries s)\<rparr>"

definition log_suffix :: "logSlice \<Rightarrow> u64 \<Rightarrow> logSlice" where
  "log_suffix s i = s\<lparr>ls_prev := id_at s i, ls_entries := drop (log_pos s i) (ls_entries s)\<rparr>"

lemma slice_wfD:
  assumes "slice_wf s"
  shows "contig (ls_prev s) (ls_entries s)"
    and "id_term (last_id (ls_prev s) (ls_entries s)) \<le> ls_term s"
    and "unat (prev_index s) + length (ls_entries s) < 2 ^ 64 - 1"
  using assms by (simp_all add: slice_wf_def logSlice_valid_contig)

lemma slice_wfI:
  assumes "contig (ls_prev s) (ls_entries s)"
    and "id_term (last_id (ls_prev s) (ls_entries s)) \<le> ls_term s"
    and "unat (prev_index s) + length (ls_entries s) < 2 ^ 64 - 1"
  shows "slice_wf s"
  using assms by (simp add: slice_wf_def logSlice_valid_contig)

lemma unat_lastIndex:
  assumes "slice_wf s"
  shows "unat (logSlice_lastIndex s) = unat (prev_index s) + length (ls_entries s)"
proof -
  have "length (ls_entries s) < 2 ^ 64" using slice_wfD(3) [OF assms] by linarith
  then show ?thesis
    using slice_wfD(3) [OF assms]
    by (simp add: logSlice_lastIndex_def unat_add_u64 unat_len64)
qed

lemma in_log_iff:
  "slice_wf s \<Longrightarrow> in_log s i \<longleftrightarrow> prev_index s \<le> i \<and> i \<le> logSlice_lastIndex s"
  by (simp add: in_log_def unat_lastIndex word_le_nat_alt)

lemma log_pos_le: "in_log s i \<Longrightarrow> log_pos s i \<le> length (ls_entries s)"
  by (auto simp: in_log_def log_pos_def)

lemma lastIndex_less_max: "slice_wf s \<Longrightarrow> logSlice_lastIndex s < MaxUint64"
  using unat_lastIndex [of s] slice_wfD(3) [of s] by (simp add: word_less_nat_alt unat_MaxUint64)

lemma lastIndex_lastEntryID: "slice_wf s \<Longrightarrow> id_index (logSlice_lastEntryID s) = logSlice_lastIndex s"
  by (simp add: lastEntryID_last_id last_id_index slice_wfD logSlice_lastIndex_def)

lemma id_at_index:
  assumes "slice_wf s" and "in_log s i"
  shows "id_index (id_at s i) = i"
proof -
  have "id_index (id_at s i) = prev_index s + of_nat (log_pos s i)"
    using last_id_index [OF contig_take [OF slice_wfD(1) [OF assms(1)]]] log_pos_le [OF assms(2)]
    by (simp add: id_at_def len64_def min_def)
  also have "\<dots> = i"
    using assms(2) by (simp add: log_pos_def in_log_def of_nat_diff)
  finally show ?thesis .
qed

lemma id_at_prev [simp]: "id_at s (prev_index s) = ls_prev s"
  by (simp add: id_at_def log_pos_def)

lemma id_at_last: "slice_wf s \<Longrightarrow> id_at s (logSlice_lastIndex s) = logSlice_lastEntryID s"
  by (simp add: id_at_def log_pos_def unat_lastIndex lastEntryID_last_id)

lemma unat_offset:
  fixes i p :: u64
  assumes "unat p < unat i"
  shows "unat (i - p - 1) = unat i - unat p - 1"
proof -
  have "unat (i - p) = unat i - unat p" using assms by (simp add: unat_sub word_le_nat_alt)
  moreover have "0 < i - p" using calculation assms by (simp add: word_less_nat_alt)
  ultimately show ?thesis using unat_pred_u64 [of 0 "i - p"] by simp
qed

lemma termAt_eq:
  assumes "slice_wf s" and "in_log s i"
  shows "logSlice_termAt s i = Some (id_term (id_at s i))"
proof (cases "i = prev_index s")
  case True
  then show ?thesis by (simp add: logSlice_termAt_def)
next
  case False
  then have l: "unat (prev_index s) < unat i"
    using assms(2) by (metis in_log_def nat_less_le unsigned_word_eqI)
  let ?k = "unat i - unat (prev_index s)"
  have k: "0 < ?k" "?k \<le> length (ls_entries s)" using l assms(2) by (auto simp: in_log_def)
  then have "slice_at (ls_entries s) (i - prev_index s - 1) = Some (ls_entries s ! (?k - 1))"
    by (simp add: slice_at_def unat_offset [OF l])
  then show ?thesis
    using False last_id_take_nth [OF k, of "ls_prev s"]
    by (simp add: logSlice_termAt_def id_at_def log_pos_def)
qed

lemma forward_eq:
  assumes "slice_wf s" and "in_log s i"
  shows "logSlice_forward s i = Some (log_suffix s i)"
proof -
  have "slice_from (ls_entries s) (i - prev_index s) = Some (drop (log_pos s i) (ls_entries s))"
    using assms(2) log_pos_le [OF assms(2)]
    by (simp add: slice_from_def log_pos_def in_log_def unat_sub word_le_nat_alt)
  moreover have "\<lparr>id_term = id_term (id_at s i), id_index = i\<rparr> = id_at s i"
    using id_at_index [OF assms] by (cases "id_at s i") simp
  ultimately show ?thesis
    using termAt_eq [OF assms] by (cases s) (simp add: logSlice_forward_def log_suffix_def)
qed

lemma log_suffix_wf:
  assumes "slice_wf s" and "in_log s i"
  shows "slice_wf (log_suffix s i)"
proof (rule slice_wfI)
  note d = slice_wfD [OF assms(1)]
  show "contig (ls_prev (log_suffix s i)) (ls_entries (log_suffix s i))"
    using contig_drop [OF d(1)] by (simp add: log_suffix_def id_at_def)
  have "last_id (id_at s i) (drop (log_pos s i) (ls_entries s)) = last_id (ls_prev s) (ls_entries s)"
    by (metis append_take_drop_id id_at_def last_id_append)
  then show "id_term (last_id (ls_prev (log_suffix s i)) (ls_entries (log_suffix s i))) \<le>
      ls_term (log_suffix s i)"
    using d(2) by (simp add: log_suffix_def)
  show "unat (prev_index (log_suffix s i)) + length (ls_entries (log_suffix s i)) < 2 ^ 64 - 1"
    using d(3) assms(2) id_at_index [OF assms]
    by (simp add: log_suffix_def log_pos_def in_log_def)
qed

lemma log_suffix_last:
  assumes "slice_wf s" and "in_log s i"
  shows "logSlice_lastIndex (log_suffix s i) = logSlice_lastIndex s"
    and "logSlice_lastEntryID (log_suffix s i) = logSlice_lastEntryID s"
proof -
  show e: "logSlice_lastEntryID (log_suffix s i) = logSlice_lastEntryID s"
    unfolding lastEntryID_last_id log_suffix_def
    by simp (metis append_take_drop_id id_at_def last_id_append)
  then show "logSlice_lastIndex (log_suffix s i) = logSlice_lastIndex s"
    using lastIndex_lastEntryID log_suffix_wf [OF assms] assms(1) by metis
qed

lemma id_at_suffix:
  assumes "slice_wf s" and "in_log s i" and "in_log s j" and "i \<le> j"
  shows "in_log (log_suffix s i) j" and "id_at (log_suffix s i) j = id_at s j"
proof -
  note ix = id_at_index [OF assms(1,2)]
  show "in_log (log_suffix s i) j"
    using assms(2,3,4) ix by (auto simp: in_log_def log_suffix_def log_pos_def word_le_nat_alt)
  have "log_pos s j = log_pos s i + (unat j - unat i)"
    using assms(2,4) by (simp add: log_pos_def in_log_def word_le_nat_alt)
  then have "take (log_pos s j) (ls_entries s) =
      take (log_pos s i) (ls_entries s) @ take (unat j - unat i) (drop (log_pos s i) (ls_entries s))"
    by (simp add: take_add)
  then show "id_at (log_suffix s i) j = id_at s j"
    using ix by (simp add: id_at_def log_suffix_def log_pos_def)
qed

lemma log_prefix_wf:
  assumes "slice_wf s"
  shows "slice_wf (log_prefix s i)"
proof (rule slice_wfI)
  note d = slice_wfD [OF assms]
  show "contig (ls_prev (log_prefix s i)) (ls_entries (log_prefix s i))"
    using contig_take [OF d(1)] by (simp add: log_prefix_def)
  have "id_term (id_at s i) \<le> id_term (last_id (id_at s i) (drop (log_pos s i) (ls_entries s)))"
    using contig_terms_le contig_drop [OF d(1)] by (simp add: id_at_def)
  also have "\<dots> = id_term (last_id (ls_prev s) (ls_entries s))"
    by (metis append_take_drop_id id_at_def last_id_append)
  finally show "id_term (last_id (ls_prev (log_prefix s i)) (ls_entries (log_prefix s i))) \<le>
      ls_term (log_prefix s i)"
    using d(2) by (simp add: log_prefix_def id_at_def)
  show "unat (prev_index (log_prefix s i)) + length (ls_entries (log_prefix s i)) < 2 ^ 64 - 1"
    using d(3) by (simp add: log_prefix_def)
qed


text \<open>A log cut at the end of \<open>a.prev\<close> and continued with \<open>a\<close>.\<close>

definition log_join :: "logSlice \<Rightarrow> logSlice \<Rightarrow> logSlice" where
  "log_join s a = s\<lparr>ls_term := ls_term a,
     ls_entries := take (log_pos s (prev_index a)) (ls_entries s) @ ls_entries a\<rparr>"

lemma log_join_wf:
  assumes s: "slice_wf s" and a: "slice_wf a" and i: "in_log s (prev_index a)"
    and m: "id_at s (prev_index a) = ls_prev a"
  shows "slice_wf (log_join s a)" and "logSlice_lastIndex (log_join s a) = logSlice_lastIndex a"
    and "logSlice_lastEntryID (log_join s a) = logSlice_lastEntryID a"
proof -
  have l: "last_id (ls_prev s) (take (log_pos s (prev_index a)) (ls_entries s)) = ls_prev a"
    using m by (simp add: id_at_def)
  have n: "unat (prev_index s) + length (take (log_pos s (prev_index a)) (ls_entries s)) = unat (prev_index a)"
    using i by (auto simp: in_log_def log_pos_def)
  show wf: "slice_wf (log_join s a)"
  proof (rule slice_wfI)
    show "contig (ls_prev (log_join s a)) (ls_entries (log_join s a))"
      using contig_take [OF slice_wfD(1) [OF s]] slice_wfD(1) [OF a] l by (simp add: log_join_def)
    show "id_term (last_id (ls_prev (log_join s a)) (ls_entries (log_join s a))) \<le> ls_term (log_join s a)"
      using slice_wfD(2) [OF a] l by (simp add: log_join_def)
    show "unat (prev_index (log_join s a)) + length (ls_entries (log_join s a)) < 2 ^ 64 - 1"
      using slice_wfD(3) [OF a] n by (simp add: log_join_def)
  qed
  show e: "logSlice_lastEntryID (log_join s a) = logSlice_lastEntryID a"
    using l by (simp add: lastEntryID_last_id log_join_def)
  show "logSlice_lastIndex (log_join s a) = logSlice_lastIndex a"
    using lastIndex_lastEntryID [OF wf] lastIndex_lastEntryID [OF a] e by simp
qed

text \<open>The joined log reads as the old one up to the join and as \<open>a\<close> from there on.\<close>

lemma id_at_join:
  assumes s: "slice_wf s" and i: "in_log s (prev_index a)" and m: "id_at s (prev_index a) = ls_prev a"
  shows "in_log s j \<Longrightarrow> j \<le> prev_index a \<Longrightarrow> id_at (log_join s a) j = id_at s j"
    and "prev_index a \<le> j \<Longrightarrow> id_at (log_join s a) j = id_at a j"
proof -
  let ?k = "log_pos s (prev_index a)"
  have k: "?k \<le> length (ls_entries s)" using log_pos_le [OF i] .
  show "id_at (log_join s a) j = id_at s j" if "in_log s j" "j \<le> prev_index a"
    using that k by (simp add: id_at_def log_join_def log_pos_def word_le_nat_alt min_def)
  show "id_at (log_join s a) j = id_at a j" if "prev_index a \<le> j"
  proof -
    have "log_pos s j - length (take ?k (ls_entries s)) = log_pos a j" "?k \<le> log_pos s j"
      using that i k by (auto simp: log_pos_def in_log_def word_le_nat_alt)
    then show ?thesis
      using m k by (simp add: id_at_def log_join_def log_pos_def min_def)
  qed
qed

subsection \<open>Size limits\<close>

abbreviation sizes :: "codec \<Rightarrow> Entry list \<Rightarrow> nat" where
  "sizes cd es \<equiv> sum_list (map (Entry_Size cd) es)"

lemma entsSize_eq: "entsSize cd es = of_nat (sizes cd es)"
proof -
  have "fold (\<lambda>ent sz. sz + of_nat (Entry_Size cd ent)) es a = a + of_nat (sizes cd es)" for a :: u64
    by (induction es arbitrary: a) (simp_all add: ac_simps)
  then show ?thesis by (simp add: entsSize_def)
qed

lemma unat_entsSize: "sizes cd es < 2 ^ 64 \<Longrightarrow> unat (entsSize cd es) = sizes cd es"
  by (simp add: entsSize_eq unat_of_nat_u64)

lemma limitSize_loop_prefix: "\<exists>k. limitSize_loop cd es maxSize sz = take k es"
proof (induction es arbitrary: sz)
  case (Cons e es)
  then obtain k where "limitSize_loop cd es maxSize (sz + Entry_Size cd e) = take k es" by blast
  then show ?case by (cases "maxSize < of_nat (sz + Entry_Size cd e)")
      (auto simp: Let_def intro: exI [of _ 0] exI [of _ "Suc k"])
qed simp

lemma limitSize_prefix: "\<exists>k. limitSize cd es maxSize = take k es \<and> (es \<noteq> [] \<longrightarrow> 0 < k)"
proof (cases es)
  case (Cons e es')
  then obtain k where "limitSize_loop cd es' maxSize (Entry_Size cd e) = take k es'"
    using limitSize_loop_prefix by blast
  with Cons show ?thesis by (intro exI [of _ "Suc k"]) (simp add: limitSize_def)
qed (simp add: limitSize_def)

lemma limitSize_nonempty: "limitSize cd es maxSize = [] \<longleftrightarrow> es = []"
  by (auto simp: limitSize_def split: list.splits)

lemma of_nat_less_iff_u64:
  "n < 2 ^ 64 \<Longrightarrow> (m < (of_nat n :: u64)) = (unat m < n)"
  by (simp add: word_less_nat_alt unat_of_nat_u64)

lemma limitSize_loop_append:
  "limitSize_loop cd (xs @ ys) maxSize sz =
     (let p = limitSize_loop cd xs maxSize sz in
      if length p < length xs then p else xs @ limitSize_loop cd ys maxSize (sz + sizes cd xs))"
  by (induction xs arbitrary: sz) (auto simp: Let_def ac_simps)

text \<open>The loop keeps the longest prefix whose cumulative size stays within the limit.\<close>

lemma limitSize_loop_longest:
  assumes "sz + sizes cd es < 2 ^ 64"
  shows "\<exists>k \<le> length es. limitSize_loop cd es maxSize sz = take k es \<and>
    (k = 0 \<or> sz + sizes cd (take k es) \<le> unat maxSize) \<and>
    (\<forall>j. k < j \<and> j \<le> length es \<longrightarrow> unat maxSize < sz + sizes cd (take j es))"
  using assms
proof (induction es arbitrary: sz)
  case (Cons e es)
  let ?sz = "sz + Entry_Size cd e"
  have le: "maxSize < of_nat ?sz \<longleftrightarrow> unat maxSize < ?sz"
    using Cons.prems by (intro of_nat_less_iff_u64) simp
  show ?case
  proof (cases "unat maxSize < ?sz")
    case True
    have "unat maxSize < sz + sizes cd (take j (e # es))" if "0 < j" for j
      using True that by (cases j) simp_all
    with True le show ?thesis by (intro exI [of _ 0]) (simp add: Let_def)
  next
    case False
    obtain k where k: "k \<le> length es" "limitSize_loop cd es maxSize ?sz = take k es"
        "k = 0 \<or> ?sz + sizes cd (take k es) \<le> unat maxSize"
        "\<forall>j. k < j \<and> j \<le> length es \<longrightarrow> unat maxSize < ?sz + sizes cd (take j es)"
      using Cons.IH [of ?sz] Cons.prems by auto
    have "unat maxSize < sz + sizes cd (take j (e # es))" if "Suc k < j" "j \<le> length (e # es)" for j
      using k(4) that by (cases j) (simp_all add: ac_simps)
    with False le k(1-3) show ?thesis
      by (intro exI [of _ "Suc k"]) (auto simp: Let_def ac_simps)
  qed
qed simp

lemma limitSize_longest:
  assumes "sizes cd es < 2 ^ 64" and "es \<noteq> []"
  shows "\<exists>k. 0 < k \<and> k \<le> length es \<and> limitSize cd es maxSize = take k es \<and>
    (k = 1 \<or> sizes cd (take k es) \<le> unat maxSize) \<and>
    (\<forall>j. k < j \<and> j \<le> length es \<longrightarrow> unat maxSize < sizes cd (take j es))"
proof (cases es)
  case (Cons e es')
  obtain k where k: "k \<le> length es'" "limitSize_loop cd es' maxSize (Entry_Size cd e) = take k es'"
      "k = 0 \<or> Entry_Size cd e + sizes cd (take k es') \<le> unat maxSize"
      "\<forall>j. k < j \<and> j \<le> length es' \<longrightarrow> unat maxSize < Entry_Size cd e + sizes cd (take j es')"
    using limitSize_loop_longest [of "Entry_Size cd e" cd es' maxSize] assms(1) Cons by auto
  have "unat maxSize < sizes cd (take j es)" if "Suc k < j" "j \<le> length es" for j
    using k(4) that Cons by (cases j) simp_all
  with k(1-3) Cons show ?thesis by (intro exI [of _ "Suc k"]) (simp add: limitSize_def)
qed (use assms in simp)

section \<open>Properties\<close>

text \<open>
  Property C31: \<open>valid\<close> accepts a slice exactly when it has the four guarantees its
  documentation lists: consecutive indexes after \<open>prev\<close>, terms that never regress
  from \<open>prev\<close> on, and no entry above the leader's term.
\<close>

theorem logSlice_valid_iff_documented:
  "logSlice_valid s \<longleftrightarrow>
     list_all (\<lambda>(k, e). e_Index e = id_index (ls_prev s) + 1 + of_nat k)
       (enumerate 0 (ls_entries s)) \<and>
     sorted (id_term (ls_prev s) # map e_Term (ls_entries s)) \<and>
     last (id_term (ls_prev s) # map e_Term (ls_entries s)) \<le> ls_term s"
proof -
  have l: "id_term (last_id b es) = last (id_term b # map e_Term es)" for b es
    by (simp add: last_id_def last_map)
  have e: "list_all (\<lambda>(k, e). e_Index e = x + of_nat k) (enumerate 0 es) \<longleftrightarrow>
      (\<forall>k < length es. e_Index (es ! k) = x + of_nat k)" for x es
    by (auto simp: list_all_length nth_enumerate_eq)
  show ?thesis unfolding logSlice_valid_contig contig_iff_nth l e by (simp only: conj_assoc)
qed

text \<open>
  \<open>forward\<close> within the bounds of a well-formed slice never panics and
  returns a well-formed slice that ends at the same entry, carries the same mark
  and has the same terms from the new start on.
\<close>

lemma logSlice_forward_keeps_log:
  assumes "slice_wf s" and "id_index (ls_prev s) \<le> i" and "i \<le> j" and "j \<le> logSlice_lastIndex s"
  shows "\<exists>s'. logSlice_forward s i = Some s' \<and> slice_wf s' \<and> id_index (ls_prev s') = i \<and>
    logSlice_lastEntryID s' = logSlice_lastEntryID s \<and> logSlice_mark s' = logSlice_mark s \<and>
    (\<exists>t. logSlice_termAt s' j = Some t \<and> logSlice_termAt s j = Some t)"
proof -
  have i: "in_log s i" and j: "in_log s j"
    using assms by (auto simp: in_log_iff)
  have "ls_term (log_suffix s i) = ls_term s" "id_index (ls_prev (log_suffix s i)) = i"
    using id_at_index [OF assms(1) i] by (simp_all add: log_suffix_def)
  then show ?thesis
    using forward_eq [OF assms(1) i] log_suffix_wf [OF assms(1) i] log_suffix_last [OF assms(1) i]
      id_at_suffix [OF assms(1) i j assms(3)] termAt_eq [OF assms(1) j]
      termAt_eq [OF log_suffix_wf [OF assms(1) i], of j]
    by (simp add: logSlice_mark_def)
qed

text \<open>
  Property C30: \<open>limitSize\<close> returns the longest prefix whose encoded size is within
  the limit, and the first entry alone when even that is too large.
\<close>

theorem limitSize_is_longest_prefix:
  assumes "sizes cd es < 2 ^ 64" and "es \<noteq> []"
  shows "\<exists>k. 0 < k \<and> k \<le> length es \<and> limitSize cd es maxSize = take k es \<and>
    (k = 1 \<or> sizes cd (take k es) \<le> unat maxSize) \<and>
    (\<forall>j. k < j \<and> j \<le> length es \<longrightarrow> unat maxSize < sizes cd (take j es))"
  by (rule limitSize_longest [OF assms])

text \<open>A codec in which every entry takes \<open>n\<close> bytes, used to exercise properties.\<close>

definition fixed_codec :: "nat \<Rightarrow> codec" where
  "fixed_codec n = \<lparr>Entry_Size = (\<lambda>_. n), ConfChange_Marshal = (\<lambda>_. None),
     ConfChange_Unmarshal = (\<lambda>_. None), ConfChangeV2_Marshal = (\<lambda>_. None),
     ConfChangeV2_Unmarshal = (\<lambda>_. None)\<rparr>"

theorem limitSize_is_longest_prefix_witness:
  "\<exists>k. 0 < k \<and> k \<le> 3 \<and>
    limitSize (fixed_codec 10) [Entry_zero, Entry_zero, Entry_zero] 20 = take k [Entry_zero, Entry_zero, Entry_zero]"
  using limitSize_is_longest_prefix [of "fixed_codec 10" "[Entry_zero, Entry_zero, Entry_zero]" 20]
  by (auto simp: fixed_codec_def)

end
