(* ===== verification/Storage.thy ===== *)
theory Storage
  imports Log_Types
begin

text \<open>
  The \<open>Storage\<close> interface of \<open>storage.go\<close> and its in-memory implementation. The
  interface is a record of the results its methods return in the current state of
  the application's storage; a write by the application replaces the record. What
  the raft log relies on is the predicate \<open>storage_log\<close>, and the contract
  \<open>storage_contract\<close> of an implementation is that it provides it. The call
  statistics and the mutex of \<open>MemoryStorage\<close> do not influence any result and are
  left out.
\<close>

section \<open>The interface\<close>

datatype storage_error =
    ErrCompacted
  | ErrSnapOutOfDate
  | ErrUnavailable
  | ErrSnapshotTemporarilyUnavailable
  | ErrOther string

record Storage =
  st_InitialState :: "storage_error + HardState \<times> ConfState"
  st_Entries :: "u64 \<Rightarrow> u64 \<Rightarrow> u64 \<Rightarrow> (storage_error + Entry list) go"
  st_Term :: "u64 \<Rightarrow> (storage_error + u64) go"
  st_LastIndex :: "storage_error + u64"
  st_FirstIndex :: "storage_error + u64"
  st_Snapshot :: "storage_error + Snapshot"

section \<open>The in-memory storage\<close>

record MemoryStorage =
  ms_hardState :: HardState
  ms_snapshot :: Snapshot
  ms_ents :: "Entry list"

definition NewMemoryStorage :: MemoryStorage where
  "NewMemoryStorage =
     \<lparr>ms_hardState = HardState_zero, ms_snapshot = Snapshot_zero, ms_ents = [Entry_zero]\<rparr>"

definition MemoryStorage_InitialState :: "MemoryStorage \<Rightarrow> storage_error + HardState \<times> ConfState" where
  "MemoryStorage_InitialState ms = Inr (ms_hardState ms, sm_ConfState (s_Metadata (ms_snapshot ms)))"

definition MemoryStorage_SetHardState :: "HardState \<Rightarrow> MemoryStorage \<Rightarrow> MemoryStorage" where
  "MemoryStorage_SetHardState st ms = ms\<lparr>ms_hardState := st\<rparr>"

text \<open>\<open>ms.ents[0].Index\<close>; the list is never empty.\<close>

definition ms_offset :: "MemoryStorage \<Rightarrow> u64" where
  "ms_offset ms = e_Index (hd (ms_ents ms))"

definition MemoryStorage_lastIndex :: "MemoryStorage \<Rightarrow> u64" where
  "MemoryStorage_lastIndex ms = ms_offset ms + len64 (ms_ents ms) - 1"

definition MemoryStorage_firstIndex :: "MemoryStorage \<Rightarrow> u64" where
  "MemoryStorage_firstIndex ms = ms_offset ms + 1"

definition MemoryStorage_LastIndex :: "MemoryStorage \<Rightarrow> storage_error + u64" where
  "MemoryStorage_LastIndex ms = Inr (MemoryStorage_lastIndex ms)"

definition MemoryStorage_FirstIndex :: "MemoryStorage \<Rightarrow> storage_error + u64" where
  "MemoryStorage_FirstIndex ms = Inr (MemoryStorage_firstIndex ms)"

definition MemoryStorage_Entries ::
    "codec \<Rightarrow> MemoryStorage \<Rightarrow> u64 \<Rightarrow> u64 \<Rightarrow> u64 \<Rightarrow> (storage_error + Entry list) go" where
  "MemoryStorage_Entries cd ms lo hi maxSize =
     (let offset = ms_offset ms in
      if lo \<le> offset then Some (Inl ErrCompacted)
      else do {
        assertTrue (\<not> MemoryStorage_lastIndex ms + 1 < hi);
        if length (ms_ents ms) = 1 then Some (Inl ErrUnavailable)
        else do {
          ents \<leftarrow> slice_range (ms_ents ms) (lo - offset) (hi - offset);
          Some (Inr (limitSize cd ents maxSize))
        }
      })"

text \<open>The test compares \<open>int(i-offset)\<close>, a signed number, with the length.\<close>

definition MemoryStorage_Term :: "MemoryStorage \<Rightarrow> u64 \<Rightarrow> (storage_error + u64) go" where
  "MemoryStorage_Term ms i =
     (let offset = ms_offset ms in
      if i < offset then Some (Inl ErrCompacted)
      else if int (length (ms_ents ms)) \<le> sint (i - offset) then Some (Inl ErrUnavailable)
      else do {
        e \<leftarrow> slice_at (ms_ents ms) (i - offset);
        Some (Inr (e_Term e))
      })"

definition MemoryStorage_Snapshot :: "MemoryStorage \<Rightarrow> storage_error + Snapshot" where
  "MemoryStorage_Snapshot ms = Inr (ms_snapshot ms)"

definition MemoryStorage_ApplySnapshot ::
    "Snapshot \<Rightarrow> MemoryStorage \<Rightarrow> storage_error + MemoryStorage" where
  "MemoryStorage_ApplySnapshot snap ms =
     (let msIndex = sm_Index (s_Metadata (ms_snapshot ms));
          snapIndex = sm_Index (s_Metadata snap)
      in if snapIndex \<le> msIndex then Inl ErrSnapOutOfDate
         else Inr (ms\<lparr>ms_snapshot := snap,
                ms_ents := [Entry_zero\<lparr>e_Term := sm_Term (s_Metadata snap),
                                       e_Index := sm_Index (s_Metadata snap)\<rparr>]\<rparr>))"

definition MemoryStorage_CreateSnapshot ::
    "u64 \<Rightarrow> ConfState option \<Rightarrow> bytes \<Rightarrow> MemoryStorage \<Rightarrow>
     (storage_error + Snapshot \<times> MemoryStorage) go" where
  "MemoryStorage_CreateSnapshot i cs data ms =
     (if i \<le> sm_Index (s_Metadata (ms_snapshot ms)) then Some (Inl ErrSnapOutOfDate)
      else do {
        let offset = ms_offset ms;
        assertTrue (\<not> MemoryStorage_lastIndex ms < i);
        e \<leftarrow> slice_at (ms_ents ms) (i - offset);
        let meta = (s_Metadata (ms_snapshot ms))\<lparr>sm_Index := i, sm_Term := e_Term e\<rparr>;
        let meta = (case cs of None \<Rightarrow> meta | Some cs \<Rightarrow> meta\<lparr>sm_ConfState := cs\<rparr>);
        let snap = \<lparr>s_Data = data, s_Metadata = meta\<rparr>;
        Some (Inr (snap, ms\<lparr>ms_snapshot := snap\<rparr>))
      })"

definition MemoryStorage_Compact :: "u64 \<Rightarrow> MemoryStorage \<Rightarrow> (storage_error + MemoryStorage) go" where
  "MemoryStorage_Compact compactIndex ms =
     (let offset = ms_offset ms in
      if compactIndex \<le> offset then Some (Inl ErrCompacted)
      else do {
        assertTrue (\<not> MemoryStorage_lastIndex ms < compactIndex);
        let i = compactIndex - offset;
        e \<leftarrow> slice_at (ms_ents ms) i;
        rest \<leftarrow> slice_from (ms_ents ms) (i + 1);
        Some (Inr (ms\<lparr>ms_ents :=
          Entry_zero\<lparr>e_Index := e_Index e, e_Term := e_Term e\<rparr> # rest\<rparr>))
      })"

definition MemoryStorage_Append :: "Entry list \<Rightarrow> MemoryStorage \<Rightarrow> MemoryStorage go" where
  "MemoryStorage_Append entries ms =
     (if entries = [] then Some ms
      else
        let first = MemoryStorage_firstIndex ms;
            lst = e_Index (hd entries) + len64 entries - 1
        in if lst < first then Some ms
           else do {
             entries \<leftarrow> (if e_Index (hd entries) < first
                          then slice_from entries (first - e_Index (hd entries)) else Some entries);
             e0 \<leftarrow> at_go entries 0;
             let offset = e_Index e0 - ms_offset ms;
             if offset < len64 (ms_ents ms) then do {
               keep \<leftarrow> slice_to (ms_ents ms) offset;
               Some (ms\<lparr>ms_ents := keep @ entries\<rparr>)
             } else if offset = len64 (ms_ents ms)
             then Some (ms\<lparr>ms_ents := ms_ents ms @ entries\<rparr>)
             else None
           })"

definition MemoryStorage_Storage :: "codec \<Rightarrow> MemoryStorage \<Rightarrow> Storage" where
  "MemoryStorage_Storage cd ms =
     \<lparr>st_InitialState = MemoryStorage_InitialState ms,
      st_Entries = MemoryStorage_Entries cd ms,
      st_Term = MemoryStorage_Term ms,
      st_LastIndex = MemoryStorage_LastIndex ms,
      st_FirstIndex = MemoryStorage_FirstIndex ms,
      st_Snapshot = MemoryStorage_Snapshot ms\<rparr>"

section \<open>The contract\<close>

text \<open>
  A storage holds the log \<open>L\<close>: the entry before the first one is \<open>ls_prev L\<close>, whose
  term is kept, and the entries after it can be read in ranges, each cut to the
  size limit.
\<close>

definition storage_log :: "codec \<Rightarrow> Storage \<Rightarrow> logSlice \<Rightarrow> bool" where
  "storage_log cd st L \<longleftrightarrow>
     slice_wf L \<and>
     st_FirstIndex st = Inr (prev_index L + 1) \<and>
     st_LastIndex st = Inr (logSlice_lastIndex L) \<and>
     (\<forall>i. in_log L i \<longrightarrow> st_Term st i = Some (Inr (id_term (id_at L i)))) \<and>
     (\<forall>lo hi maxSize. prev_index L < lo \<and> lo < hi \<and> hi \<le> logSlice_lastIndex L + 1 \<longrightarrow>
        st_Entries st lo hi maxSize = Some (Inr (limitSize cd (log_range L lo hi) maxSize)))"

locale storage_contract =
  fixes inv :: "'s \<Rightarrow> bool"
    and iface :: "codec \<Rightarrow> 's \<Rightarrow> Storage"
    and contents :: "'s \<Rightarrow> logSlice"
  assumes contents_wf: "inv s \<Longrightarrow> slice_wf (contents s)"
    and first_law: "inv s \<Longrightarrow> st_FirstIndex (iface cd s) = Inr (prev_index (contents s) + 1)"
    and last_law: "inv s \<Longrightarrow> st_LastIndex (iface cd s) = Inr (logSlice_lastIndex (contents s))"
    and term_law: "inv s \<Longrightarrow> in_log (contents s) i \<Longrightarrow>
      st_Term (iface cd s) i = Some (Inr (id_term (id_at (contents s) i)))"
    and entries_law: "inv s \<Longrightarrow> prev_index (contents s) < lo \<Longrightarrow> lo < hi \<Longrightarrow>
      hi \<le> logSlice_lastIndex (contents s) + 1 \<Longrightarrow>
      st_Entries (iface cd s) lo hi maxSize = Some (Inr (limitSize cd (log_range (contents s) lo hi) maxSize))"
begin

lemma provides_log: "inv s \<Longrightarrow> storage_log cd (iface cd s) (contents s)"
  by (simp add: storage_log_def contents_wf first_law last_law term_law entries_law)

text \<open>The last entry can be identified, as the start of a raft log does.\<close>

lemma last_entry:
  assumes "inv s"
  shows "st_LastIndex (iface cd s) = Inr (id_index (logSlice_lastEntryID (contents s)))"
    and "st_Term (iface cd s) (id_index (logSlice_lastEntryID (contents s))) =
      Some (Inr (id_term (logSlice_lastEntryID (contents s))))"
proof -
  note wf = contents_wf [OF assms]
  have "in_log (contents s) (logSlice_lastIndex (contents s))"
    using unat_lastIndex [OF wf] by (simp add: in_log_def)
  then show "st_LastIndex (iface cd s) = Inr (id_index (logSlice_lastEntryID (contents s)))"
    "st_Term (iface cd s) (id_index (logSlice_lastEntryID (contents s))) =
      Some (Inr (id_term (logSlice_lastEntryID (contents s))))"
    using last_law [OF assms] term_law [OF assms]
    by (simp_all add: lastIndex_lastEntryID [OF wf] id_at_last [OF wf])
qed

end

section \<open>The in-memory storage keeps the contract\<close>

text \<open>The first element of the list is a dummy that stands for the entry before the log.\<close>

definition ms_log :: "MemoryStorage \<Rightarrow> logSlice" where
  "ms_log ms = \<lparr>ls_term = id_term (last_id (pbEntryID (hd (ms_ents ms))) (tl (ms_ents ms))),
     ls_prev = pbEntryID (hd (ms_ents ms)), ls_entries = tl (ms_ents ms)\<rparr>"

definition ms_inv :: "MemoryStorage \<Rightarrow> bool" where
  "ms_inv ms \<longleftrightarrow> ms_ents ms \<noteq> [] \<and> slice_wf (ms_log ms)"

lemma ms_log_sel [simp]:
  "ls_prev (ms_log ms) = pbEntryID (hd (ms_ents ms))"
  "ls_entries (ms_log ms) = tl (ms_ents ms)"
  by (simp_all add: ms_log_def)

lemma prev_index_ms_log: "prev_index (ms_log ms) = ms_offset ms"
  by (simp add: ms_offset_def)

lemma ms_lastIndex:
  "ms_inv ms \<Longrightarrow> MemoryStorage_lastIndex ms = logSlice_lastIndex (ms_log ms)"
  by (cases "ms_ents ms")
    (auto simp: ms_inv_def MemoryStorage_lastIndex_def logSlice_lastIndex_def ms_offset_def)

lemma ms_inv_iff:
  "ms_inv ms \<longleftrightarrow> ms_ents ms \<noteq> [] \<and> contig (pbEntryID (hd (ms_ents ms))) (tl (ms_ents ms)) \<and>
     unat (ms_offset ms) + length (ms_ents ms) < 2 ^ 64"
proof (cases "ms_ents ms")
  case (Cons e es)
  then have "unat (ms_offset ms) + length es < 2 ^ 64 - 1 \<longleftrightarrow>
      unat (ms_offset ms) + length (ms_ents ms) < 2 ^ 64" by auto
  with Cons show ?thesis
    by (auto simp: ms_inv_def slice_wf_def logSlice_valid_contig ms_log_def ms_offset_def)
qed (simp add: ms_inv_def)

lemma sint_le_unat: "sint (x::u64) \<le> int (unat x)"
  using uint_ge_0 [of x]
  by (simp add: sint_uint signed_take_bit_int_less_eq_self_iff order_trans [OF _ uint_ge_0])

lemma ms_nth_id_at:
  assumes "ms_inv ms" and "k < length (ms_ents ms)"
  shows "last_id (pbEntryID (hd (ms_ents ms))) (take k (tl (ms_ents ms))) = pbEntryID (ms_ents ms ! k)"
proof (cases "ms_ents ms")
  case (Cons e es)
  with assms(2) show ?thesis
    by (cases k) (simp_all add: last_id_take_Suc)
qed (use assms in \<open>simp add: ms_inv_def\<close>)

lemma ms_in_log:
  assumes "ms_inv ms" and "in_log (ms_log ms) i"
  shows "unat (i - ms_offset ms) = log_pos (ms_log ms) i" and "log_pos (ms_log ms) i < length (ms_ents ms)"
    and "\<not> i < ms_offset ms"
proof -
  show "unat (i - ms_offset ms) = log_pos (ms_log ms) i" "\<not> i < ms_offset ms"
    using assms(2) by (simp_all add: in_log_def log_pos_def ms_offset_def unat_sub word_le_nat_alt
        word_less_nat_alt)
  have "ms_ents ms \<noteq> []" using assms(1) by (simp add: ms_inv_def)
  then show "log_pos (ms_log ms) i < length (ms_ents ms)"
    using log_pos_le [OF assms(2)] by (cases "ms_ents ms") simp_all
qed

lemma MemoryStorage_Term_eq:
  assumes "ms_inv ms" and "in_log (ms_log ms) i"
  shows "MemoryStorage_Term ms i = Some (Inr (id_term (id_at (ms_log ms) i)))"
proof -
  note l = ms_in_log [OF assms]
  have "\<not> int (length (ms_ents ms)) \<le> sint (i - ms_offset ms)"
    using sint_le_unat [of "i - ms_offset ms"] l(1,2) by linarith
  then show ?thesis
    using l ms_nth_id_at [OF assms(1) l(2)]
    by (simp add: MemoryStorage_Term_def slice_at_def id_at_def)
qed

lemma MemoryStorage_Entries_eq:
  assumes inv: "ms_inv ms" and lo: "prev_index (ms_log ms) < lo" and hi: "lo < hi"
    and last: "hi \<le> logSlice_lastIndex (ms_log ms) + 1"
  shows "MemoryStorage_Entries cd ms lo hi maxSize =
    Some (Inr (limitSize cd (log_range (ms_log ms) lo hi) maxSize))"
proof -
  have wf: "slice_wf (ms_log ms)" using inv by (simp add: ms_inv_def)
  obtain e es where ents: "ms_ents ms = e # es" using inv by (cases "ms_ents ms") (auto simp: ms_inv_def)
  let ?off = "ms_offset ms"
  have "unat (logSlice_lastIndex (ms_log ms) + 1) = unat (logSlice_lastIndex (ms_log ms)) + 1"
    using unat_succ_u64 [OF lastIndex_less_max [OF wf]] .
  then have h: "unat hi \<le> unat ?off + length es + 1"
    using last unat_lastIndex [OF wf] ents by (simp add: word_le_nat_alt ms_offset_def)
  have l: "unat ?off < unat lo" "unat lo < unat hi"
    using lo hi by (simp_all add: word_less_nat_alt ms_offset_def)
  have "\<not> MemoryStorage_lastIndex ms + 1 < hi"
    using last by (simp add: ms_lastIndex [OF inv] not_less)
  moreover have "es \<noteq> []" using h l by auto
  moreover have "slice_range (ms_ents ms) (lo - ?off) (hi - ?off) = Some (log_range (ms_log ms) lo hi)"
  proof -
    have u: "unat (lo - ?off) = unat lo - unat ?off" "unat (hi - ?off) = unat hi - unat ?off"
      using l by (simp_all add: unat_sub word_le_nat_alt)
    obtain k where k: "unat lo - unat ?off = Suc k" using l by (cases "unat lo - unat ?off") auto
    have p: "log_pos (ms_log ms) lo = Suc k" using k by (simp add: log_pos_def ms_offset_def)
    have "unat hi - unat ?off - Suc k = unat hi - unat lo" "Suc k \<le> unat hi - unat ?off"
        "unat hi - unat ?off \<le> Suc (length es)"
      using k l h by linarith+
    then show ?thesis
      using k p by (simp add: slice_range_def u ents log_range_def)
  qed
  ultimately show ?thesis
    using lo by (simp add: MemoryStorage_Entries_def ents ms_offset_def not_le Let_def)
qed

interpretation memory: storage_contract ms_inv MemoryStorage_Storage ms_log
proof (unfold_locales, goal_cases)
  case (1 s)
  then show ?case by (simp add: ms_inv_def)
next
  case (2 s cd)
  then show ?case
    by (simp add: MemoryStorage_Storage_def MemoryStorage_FirstIndex_def MemoryStorage_firstIndex_def
        ms_offset_def)
next
  case (3 s cd)
  then show ?case by (simp add: MemoryStorage_Storage_def MemoryStorage_LastIndex_def ms_lastIndex)
next
  case (4 s i cd)
  then show ?case by (simp add: MemoryStorage_Storage_def MemoryStorage_Term_eq)
next
  case (5 s lo hi cd maxSize)
  then show ?case by (simp add: MemoryStorage_Storage_def MemoryStorage_Entries_eq)
qed

subsection \<open>Writes\<close>

lemma NewMemoryStorage_inv: "ms_inv NewMemoryStorage"
  by (simp add: ms_inv_iff NewMemoryStorage_def ms_offset_def Entry_zero_def)

lemma MemoryStorage_SetHardState_log:
  "ms_log (MemoryStorage_SetHardState st ms) = ms_log ms"
  "ms_inv (MemoryStorage_SetHardState st ms) = ms_inv ms"
  by (simp_all add: MemoryStorage_SetHardState_def ms_log_def ms_inv_def)

lemma MemoryStorage_Compact_ok:
  assumes inv: "ms_inv ms" and i: "ms_offset ms < i" "i \<le> MemoryStorage_lastIndex ms"
  shows "\<exists>ms'. MemoryStorage_Compact i ms = Some (Inr ms') \<and> ms_inv ms' \<and>
    ls_prev (ms_log ms') = id_at (ms_log ms) i \<and>
    ls_entries (ms_log ms') = ls_entries (log_suffix (ms_log ms) i)"
proof -
  have wf: "slice_wf (ms_log ms)" using inv by (simp add: ms_inv_def)
  have il: "in_log (ms_log ms) i"
    using i ms_lastIndex [OF inv] wf by (simp add: in_log_iff ms_offset_def)
  note l = ms_in_log [OF inv il]
  let ?k = "log_pos (ms_log ms) i"
  have k1: "unat (i - ms_offset ms + 1) = ?k + 1"
    using l(1,2) inv by (subst unat_add_u64) (auto simp: ms_inv_iff)
  let ?e = "ms_ents ms ! ?k"
  let ?d = "Entry_zero\<lparr>e_Index := e_Index ?e, e_Term := e_Term ?e\<rparr>"
  let ?ms = "ms\<lparr>ms_ents := ?d # drop (?k + 1) (ms_ents ms)\<rparr>"
  have r: "MemoryStorage_Compact i ms = Some (Inr ?ms)"
    using i l k1 by (simp add: MemoryStorage_Compact_def slice_at_def slice_from_def not_less not_le Let_def)
  have d: "pbEntryID ?d = pbEntryID ?e" by (simp add: pbEntryID_def)
  have p: "id_at (ms_log ms) i = pbEntryID ?e"
    using ms_nth_id_at [OF inv l(2)] by (simp add: id_at_def)
  have t: "tl (ms_ents ?ms) = drop ?k (tl (ms_ents ms))"
    using inv by (cases "ms_ents ms") (simp_all add: ms_inv_def)
  have c: "contig (pbEntryID ?e) (drop ?k (tl (ms_ents ms)))"
    using contig_drop [OF slice_wfD(1) [OF wf], of ?k] p by (simp add: id_at_def)
  have e: "e_Index ?e = i" using id_at_index [OF wf il] p by simp
  have "ms_inv ?ms"
    unfolding ms_inv_iff
  proof (intro conjI)
    show "contig (pbEntryID (hd (ms_ents ?ms))) (tl (ms_ents ?ms))"
      unfolding t using c by (simp add: pbEntryID_def)
    show "unat (ms_offset ?ms) + length (ms_ents ?ms) < 2 ^ 64"
      using il inv e l(2) by (simp add: ms_inv_iff ms_offset_def in_log_def log_pos_def)
  qed simp
  with r p t show ?thesis by (simp add: log_suffix_def pbEntryID_def)
qed

text \<open>
  Appending the entries of a slice \<open>A\<close> that joins the stored log at \<open>j\<close>, the later of
  the positions before the slice and before the first stored entry.
\<close>

lemma MemoryStorage_Append_join:
  assumes inv: "ms_inv ms" and j: "in_log (ms_log ms) j"
    and es: "es \<noteq> []" "e_Index (hd es) = j + 1"
    and c: "contig (id_at (ms_log ms) j) es" and b: "unat j + length es < 2 ^ 64 - 1"
  shows "\<exists>ms'. (do {
      e0 \<leftarrow> at_go es 0;
      let offset = e_Index e0 - ms_offset ms;
      if offset < len64 (ms_ents ms) then do {
        keep \<leftarrow> slice_to (ms_ents ms) offset;
        Some (ms\<lparr>ms_ents := keep @ es\<rparr>)
      } else if offset = len64 (ms_ents ms) then Some (ms\<lparr>ms_ents := ms_ents ms @ es\<rparr>) else None
    }) = Some ms' \<and> ms_inv ms' \<and> ls_prev (ms_log ms') = ls_prev (ms_log ms) \<and>
    ls_entries (ms_log ms') = ls_entries (log_prefix (ms_log ms) j) @ es"
proof -
  note l = ms_in_log [OF inv j]
  let ?k = "log_pos (ms_log ms) j"
  let ?ms = "ms\<lparr>ms_ents := take (Suc ?k) (ms_ents ms) @ es\<rparr>"
  obtain e xs where ents: "ms_ents ms = e # xs" using inv by (cases "ms_ents ms") (auto simp: ms_inv_def)
  have len: "unat (len64 (ms_ents ms)) = length (ms_ents ms)"
    using inv by (intro unat_len64) (simp add: ms_inv_iff)
  have "e_Index (hd es) - ms_offset ms = (j - ms_offset ms) + 1" using es(2) by simp
  then have off: "unat (e_Index (hd es) - ms_offset ms) = Suc ?k"
    using l(1,2) inv by (subst \<open>e_Index (hd es) - ms_offset ms = _\<close>, subst unat_add_u64) (auto simp: ms_inv_iff)
  have eq: "e_Index (hd es) - ms_offset ms = len64 (ms_ents ms)" if "Suc ?k = length (ms_ents ms)"
    using off len that by (metis unsigned_word_eqI)
  have hd: "at_go es 0 = Some (hd es)" using es(1) by (simp add: at_go_def hd_conv_nth)
  have r: "(do {
      e0 \<leftarrow> at_go es 0;
      let offset = e_Index e0 - ms_offset ms;
      if offset < len64 (ms_ents ms) then do {
        keep \<leftarrow> slice_to (ms_ents ms) offset;
        Some (ms\<lparr>ms_ents := keep @ es\<rparr>)
      } else if offset = len64 (ms_ents ms) then Some (ms\<lparr>ms_ents := ms_ents ms @ es\<rparr>) else None
    }) = Some ?ms"
  proof (cases "Suc ?k = length (ms_ents ms)")
    case True
    then have t: "take (Suc ?k) (ms_ents ms) = ms_ents ms" by simp
    show ?thesis unfolding t using True eq hd by (simp add: Let_def)
  next
    case False
    then have "Suc ?k < length (ms_ents ms)" using l(2) by simp
    then show ?thesis using hd off len by (simp add: Let_def word_less_nat_alt slice_to_def)
  qed
  have pre: "ls_entries (log_prefix (ms_log ms) j) = take ?k xs" using ents by (simp add: log_prefix_def)
  have ent': "ms_ents ?ms = e # take ?k xs @ es" using ents by simp
  have "contig (pbEntryID e) (take ?k xs @ es)"
    using c contig_take inv ents by (auto simp: ms_inv_iff id_at_def)
  moreover have "unat (e_Index e) + length (take ?k xs) = unat j"
    using j l(2) ents by (auto simp: in_log_def log_pos_def)
  then have "unat (e_Index e) + length (e # take ?k xs @ es) < 2 ^ 64" using b by simp
  ultimately have "ms_inv ?ms" unfolding ms_inv_iff ent' ms_offset_def by simp
  with r pre ent' ents show ?thesis by simp
qed

lemma MemoryStorage_Append_ok:
  assumes inv: "ms_inv ms" and A: "slice_wf A" and ne: "ls_entries A \<noteq> []"
    and j: "j = max (prev_index A) (ms_offset ms)"
    and jm: "j \<le> MemoryStorage_lastIndex ms" and join: "j \<le> logSlice_lastIndex A \<Longrightarrow> id_at (ms_log ms) j = id_at A j"
  shows "\<exists>ms'. MemoryStorage_Append (ls_entries A) ms = Some ms' \<and> ms_inv ms' \<and>
    (if j < logSlice_lastIndex A
     then ls_prev (ms_log ms') = ls_prev (ms_log ms) \<and>
       ls_entries (ms_log ms') =
         ls_entries (log_prefix (ms_log ms) j) @ ls_entries (log_suffix A j)
     else ms' = ms)"
proof -
  let ?es = "ls_entries A" and ?off = "ms_offset ms"
  have wf: "slice_wf (ms_log ms)" using inv by (simp add: ms_inv_def)
  have hd: "e_Index (hd ?es) = prev_index A + 1"
    using slice_wfD(1) [OF A] ne by (cases "ls_entries A") auto
  have ff: "MemoryStorage_firstIndex ms = ?off + 1" by (simp add: MemoryStorage_firstIndex_def)
  have lst: "e_Index (hd ?es) + len64 ?es - 1 = logSlice_lastIndex A"
    by (simp add: hd logSlice_lastIndex_def)
  have offm: "?off < MaxUint64"
    using wf slice_wfD(3) [OF wf] by (simp add: word_less_nat_alt unat_MaxUint64 ms_offset_def)
  have pm: "prev_index A < logSlice_lastIndex A"
    using unat_lastIndex [OF A] ne by (cases "ls_entries A") (auto simp: word_less_nat_alt)
  have cmp: "logSlice_lastIndex A < ?off + 1 \<longleftrightarrow> logSlice_lastIndex A \<le> ?off"
    "prev_index A + 1 < ?off + 1 \<longleftrightarrow> prev_index A < ?off"
    using unat_succ_u64 [OF offm] unat_succ_u64 [OF pm] by (auto simp: word_less_nat_alt word_le_nat_alt less_Suc_eq_le)
  show ?thesis
  proof (cases "j < logSlice_lastIndex A")
    case False
    then have "logSlice_lastIndex A \<le> ?off" using pm j by (auto simp: max_def split: if_splits)
    then have "MemoryStorage_Append ?es ms = Some ms"
      using ne cmp lst ff by (simp add: MemoryStorage_Append_def Let_def)
    with False inv show ?thesis by simp
  next
    case True
    have jA: "in_log A j" using True j A by (auto simp: in_log_iff)
    have jM: "in_log (ms_log ms) j"
      using jm j wf by (simp add: in_log_iff ms_lastIndex [OF inv] prev_index_ms_log [symmetric])
    let ?d = "drop (log_pos A j) ?es"
    have dne: "?d \<noteq> []" using True unat_lastIndex [OF A] jA
      by (simp add: word_less_nat_alt log_pos_def in_log_def)
    have c: "contig (id_at A j) ?d" using contig_drop [OF slice_wfD(1) [OF A]] by (simp add: id_at_def)
    have dhd: "e_Index (hd ?d) = j + 1"
      using c dne id_at_index [OF A jA] by (cases ?d) auto
    have db: "unat j + length ?d < 2 ^ 64 - 1"
      using slice_wfD(3) [OF A] jA by (simp add: log_pos_def in_log_def)
    have sl: "(if e_Index (hd ?es) < ?off + 1 then slice_from ?es (?off + 1 - e_Index (hd ?es)) else Some ?es) = Some ?d"
    proof (cases "prev_index A < ?off")
      case True
      then have "j = ?off" using j by simp
      then have "?off + 1 - e_Index (hd ?es) = j - prev_index A" by (simp add: hd)
      moreover have "unat (j - prev_index A) = log_pos A j"
        using jA by (simp add: log_pos_def in_log_def unat_sub word_le_nat_alt)
      ultimately show ?thesis
        using True cmp(2) hd log_pos_le [OF jA] by (simp add: slice_from_def)
    next
      case False
      then have "j = prev_index A" using j by (simp add: max_def)
      with False cmp(2) hd show ?thesis by (simp add: log_pos_def)
    qed
    have "\<not> logSlice_lastIndex A < ?off + 1" using True j cmp(1) by (auto simp: not_le)
    then have "MemoryStorage_Append ?es ms = (do {
        e0 \<leftarrow> at_go ?d 0;
        let offset = e_Index e0 - ms_offset ms;
        if offset < len64 (ms_ents ms) then do {
          keep \<leftarrow> slice_to (ms_ents ms) offset;
          Some (ms\<lparr>ms_ents := keep @ ?d\<rparr>)
        } else if offset = len64 (ms_ents ms) then Some (ms\<lparr>ms_ents := ms_ents ms @ ?d\<rparr>) else None
      })"
      using ne lst sl by (simp add: MemoryStorage_Append_def Let_def ff)
    then show ?thesis
      using MemoryStorage_Append_join [OF inv jM dne dhd _ db] c join True
      by (simp add: log_suffix_def)
  qed
qed


section \<open>Properties\<close>

text \<open>
  Property C28: what is appended to the in-memory storage is what is read back. For
  a well-formed slice that joins the stored log at \<open>j\<close> without a gap, \<open>Append\<close> does
  not panic; the storage then provides exactly the old log up to \<open>j\<close> followed by the
  entries of the slice after \<open>j\<close>, through \<open>Term\<close> and \<open>Entries\<close> for every size limit.
\<close>

theorem MemoryStorage_Append_then_read:
  assumes "ms_inv ms" and "slice_wf A" and "j = max (prev_index A) (ms_offset ms)"
    and "j < logSlice_lastIndex A" and "j \<le> MemoryStorage_lastIndex ms"
    and "id_at (ms_log ms) j = id_at A j"
  shows "\<exists>ms' L. MemoryStorage_Append (ls_entries A) ms = Some ms' \<and> ms_inv ms' \<and>
    storage_log cd (MemoryStorage_Storage cd ms') L \<and> ls_prev L = ls_prev (ms_log ms) \<and>
    ls_entries L = ls_entries (log_prefix (ms_log ms) j) @ ls_entries (log_suffix A j)"
proof -
  have "ls_entries A \<noteq> []"
    using assms(3,4) by (auto simp: logSlice_lastIndex_def)
  then show ?thesis
    using MemoryStorage_Append_ok [OF assms(1,2) _ assms(3,5)] assms(4,6) memory.provides_log by fastforce
qed

theorem MemoryStorage_Append_then_read_witness:
  "\<exists>ms' L. MemoryStorage_Append [Entry_zero\<lparr>e_Term := 1, e_Index := 1\<rparr>] NewMemoryStorage = Some ms' \<and>
     storage_log (fixed_codec 10)
      (MemoryStorage_Storage (fixed_codec 10) ms') L \<and>
     ls_entries L = [Entry_zero\<lparr>e_Term := 1, e_Index := 1\<rparr>]"
proof -
  let ?A = "\<lparr>ls_term = 1, ls_prev = \<lparr>id_term = 0, id_index = 0\<rparr>,
    ls_entries = [Entry_zero\<lparr>e_Term := 1, e_Index := 1\<rparr>]\<rparr>"
  have "slice_wf ?A" by (simp add: slice_wf_def logSlice_valid_def)
  then show ?thesis
    using MemoryStorage_Append_then_read [OF NewMemoryStorage_inv, of ?A 0
      "fixed_codec 10"]
    by (auto simp: ms_offset_def NewMemoryStorage_def Entry_zero_def logSlice_lastIndex_def
        MemoryStorage_lastIndex_def id_at_def log_pos_def ms_log_def log_prefix_def log_suffix_def
        pbEntryID_def)
qed

text \<open>
  Property C29: compaction of the in-memory storage loses nothing above the
  compaction index. For an index after the current start and up to the last entry
  it does not panic, the first index becomes the one after it, the last index
  stays, the terms from the compaction index on can still be read, the entries after
  it are kept (the first element of \<open>ents\<close> is a dummy), every read of
  entries that starts at the compaction index or before it is answered with
  \<open>ErrCompacted\<close>, and so is the term of every index before it.
\<close>

theorem MemoryStorage_Compact_keeps_suffix:
  assumes "ms_inv ms" and "ms_offset ms < i" and "i \<le> k" and "k \<le> MemoryStorage_lastIndex ms"
  shows "\<exists>ms'. MemoryStorage_Compact i ms = Some (Inr ms') \<and> ms_inv ms' \<and>
    MemoryStorage_firstIndex ms' = i + 1 \<and> MemoryStorage_lastIndex ms' = MemoryStorage_lastIndex ms \<and>
    MemoryStorage_Term ms' k = MemoryStorage_Term ms k \<and>
    tl (ms_ents ms') = drop (unat i - unat (ms_offset ms)) (tl (ms_ents ms)) \<and>
    (\<forall>lo hi maxSize. lo \<le> i \<longrightarrow> MemoryStorage_Entries cd ms' lo hi maxSize = Some (Inl ErrCompacted)) \<and>
    (\<forall>j. j < i \<longrightarrow> MemoryStorage_Term ms' j = Some (Inl ErrCompacted))"
proof -
  have wf: "slice_wf (ms_log ms)" using assms(1) by (simp add: ms_inv_def)
  have "i \<le> MemoryStorage_lastIndex ms" using assms(3,4) by simp
  then obtain ms' where r: "MemoryStorage_Compact i ms = Some (Inr ms')" "ms_inv ms'"
      "ls_prev (ms_log ms') = id_at (ms_log ms) i"
      "ls_entries (ms_log ms') = ls_entries (log_suffix (ms_log ms) i)"
    using MemoryStorage_Compact_ok [OF assms(1,2)] by blast
  have il: "in_log (ms_log ms) i" and kl: "in_log (ms_log ms) k"
    using assms wf ms_lastIndex [OF assms(1)] by (auto simp: in_log_iff ms_offset_def)
  note sfx = log_suffix_last(1) [OF wf il] id_at_suffix [OF wf il kl assms(3)]
  have off: "ms_offset ms' = i"
    using r(3) id_at_index [OF wf il] by (metis prev_index_ms_log)
  have last: "MemoryStorage_lastIndex ms' = MemoryStorage_lastIndex ms"
    using sfx(1) r(2-4) assms(1) by (simp add: ms_lastIndex logSlice_lastIndex_def log_suffix_def)
  have "in_log (ms_log ms') k" "id_at (ms_log ms') k = id_at (ms_log ms) k"
    using sfx(2,3) r(3,4) by (simp_all add: in_log_def id_at_def log_pos_def log_suffix_def)
  then have "MemoryStorage_Term ms' k = MemoryStorage_Term ms k"
    using MemoryStorage_Term_eq [OF r(2)] MemoryStorage_Term_eq [OF assms(1) kl] by simp
  moreover have "MemoryStorage_Entries cd ms' lo hi maxSize = Some (Inl ErrCompacted)" if "lo \<le> i" for lo hi maxSize
    using that off by (simp add: MemoryStorage_Entries_def Let_def)
  moreover have "MemoryStorage_Term ms' j = Some (Inl ErrCompacted)" if "j < i" for j
    using that off by (simp add: MemoryStorage_Term_def Let_def)
  moreover have "tl (ms_ents ms') = drop (unat i - unat (ms_offset ms)) (tl (ms_ents ms))"
    using r(4) by (simp add: ms_log_def log_suffix_def log_pos_def ms_offset_def)
  ultimately show ?thesis using r(1,2) off last by (simp add: MemoryStorage_firstIndex_def)
qed

theorem MemoryStorage_Compact_keeps_suffix_witness:
  "\<exists>ms'. MemoryStorage_Compact 1 (NewMemoryStorage\<lparr>ms_ents :=
        [Entry_zero, Entry_zero\<lparr>e_Term := 1, e_Index := 1\<rparr>, Entry_zero\<lparr>e_Term := 2, e_Index := 2\<rparr>]\<rparr>) = Some (Inr ms') \<and>
     MemoryStorage_firstIndex ms' = 2 \<and> MemoryStorage_lastIndex ms' = 2 \<and>
     MemoryStorage_Term ms' 2 = Some (Inr 2) \<and>
     MemoryStorage_Entries (fixed_codec 10) ms' 0 3 100 = Some (Inl ErrCompacted)"
proof -
  let ?ms = "NewMemoryStorage\<lparr>ms_ents :=
        [Entry_zero, Entry_zero\<lparr>e_Term := 1, e_Index := 1\<rparr>, Entry_zero\<lparr>e_Term := 2, e_Index := 2\<rparr>]\<rparr>"
  have inv: "ms_inv ?ms" by (simp add: ms_inv_iff ms_offset_def Entry_zero_def)
  have "ms_offset ?ms = 0" "MemoryStorage_lastIndex ?ms = 2" "MemoryStorage_Term ?ms 2 = Some (Inr 2)"
    by (simp_all add: ms_offset_def MemoryStorage_lastIndex_def MemoryStorage_Term_def slice_at_def
        Entry_zero_def)
  then show ?thesis
    using MemoryStorage_Compact_keeps_suffix [OF inv, of 1 2 "fixed_codec 10"] by auto
qed

end
