(* ===== verification/Unstable.thy ===== *)
theory Unstable
  imports Storage
begin

text \<open>
  The suffix of the log that is not yet written to storage, \<open>log_unstable.go\<close>. The
  record embeds a log slice as the struct does. \<open>unstable_inv\<close> collects the
  invariants the comments of the struct state, and every operation keeps them.
  Log messages are left out; a call of the logger that panics is \<^term>\<open>None\<close>.
\<close>

section \<open>The operations\<close>

record unstable =
  u_snapshot :: "Snapshot option"
  u_logSlice :: logSlice
  u_snapshotInProgress :: bool
  u_entryInProgress :: u64

abbreviation u_prev :: "unstable \<Rightarrow> entryID" where
  "u_prev u \<equiv> ls_prev (u_logSlice u)"

abbreviation u_entries :: "unstable \<Rightarrow> Entry list" where
  "u_entries u \<equiv> ls_entries (u_logSlice u)"

abbreviation u_lastIndex :: "unstable \<Rightarrow> u64" where
  "u_lastIndex u \<equiv> logSlice_lastIndex (u_logSlice u)"

abbreviation snap_index :: "Snapshot \<Rightarrow> u64" where
  "snap_index s \<equiv> sm_Index (s_Metadata s)"

definition newUnstable :: "entryID \<Rightarrow> unstable" where
  "newUnstable lst =
     \<lparr>u_snapshot = None,
      u_logSlice = \<lparr>ls_term = id_term lst, ls_prev = lst, ls_entries = []\<rparr>,
      u_snapshotInProgress = False, u_entryInProgress = id_index lst\<rparr>"

definition unstable_maybeFirstIndex :: "unstable \<Rightarrow> u64 option" where
  "unstable_maybeFirstIndex u =
     (case u_snapshot u of Some s \<Rightarrow> Some (snap_index s + 1) | None \<Rightarrow> None)"

text \<open>The outer option is a panic, the inner one the boolean result.\<close>

definition unstable_maybeTerm :: "unstable \<Rightarrow> u64 \<Rightarrow> u64 option go" where
  "unstable_maybeTerm u i =
     (if i < id_index (u_prev u) \<or> u_lastIndex u < i then Some None
      else do { t \<leftarrow> logSlice_termAt (u_logSlice u) i; Some (Some t) })"

definition unstable_nextEntries :: "unstable \<Rightarrow> Entry list go" where
  "unstable_nextEntries u =
     (if u_entryInProgress u = u_lastIndex u then Some []
      else slice_from (u_entries u) (u_entryInProgress u - id_index (u_prev u)))"

definition unstable_nextSnapshot :: "unstable \<Rightarrow> Snapshot option" where
  "unstable_nextSnapshot u =
     (if u_snapshot u = None \<or> u_snapshotInProgress u then None else u_snapshot u)"

definition unstable_acceptInProgress :: "unstable \<Rightarrow> unstable" where
  "unstable_acceptInProgress u =
     u\<lparr>u_snapshotInProgress := u_snapshot u \<noteq> None, u_entryInProgress := u_lastIndex u\<rparr>"

text \<open>Only the backing array changes, except that an empty slice becomes nil.\<close>

definition unstable_shrinkEntriesArray :: "unstable \<Rightarrow> unstable" where
  "unstable_shrinkEntriesArray u =
     (if length (u_entries u) = 0 then u\<lparr>u_logSlice := (u_logSlice u)\<lparr>ls_entries := []\<rparr>\<rparr> else u)"

definition unstable_stableTo :: "LogMark \<Rightarrow> unstable \<Rightarrow> unstable go" where
  "unstable_stableTo mark u =
     (if lm_Term mark \<noteq> ls_term (u_logSlice u) then Some u
      else if (case u_snapshot u of Some s \<Rightarrow> lm_Index mark = snap_index s | None \<Rightarrow> False) then Some u
      else if lm_Index mark \<le> id_index (u_prev u) \<or> u_lastIndex u < lm_Index mark then Some u
      else do {
        assertTrue (u_snapshot u = None);
        ls \<leftarrow> logSlice_forward (u_logSlice u) (lm_Index mark);
        let u = u\<lparr>u_logSlice := ls\<rparr>;
        let u = u\<lparr>u_entryInProgress := max (u_entryInProgress u) (lm_Index mark)\<rparr>;
        Some (unstable_shrinkEntriesArray u)
      })"

definition unstable_stableSnapTo :: "u64 \<Rightarrow> unstable \<Rightarrow> unstable" where
  "unstable_stableSnapTo i u =
     (if (case u_snapshot u of Some s \<Rightarrow> snap_index s = i | None \<Rightarrow> False)
      then u\<lparr>u_snapshotInProgress := False, u_snapshot := None\<rparr> else u)"

definition unstable_restore :: "snapshot \<Rightarrow> unstable \<Rightarrow> unstable \<times> bool" where
  "unstable_restore s u =
     (if sn_term s \<le> ls_term (u_logSlice u) \<and> snapshot_lastIndex s < u_lastIndex u then (u, False)
      else
        let term = max (ls_term (u_logSlice u)) (sn_term s);
            u = u\<lparr>u_snapshot := Some (sn_snap s),
                  u_logSlice := \<lparr>ls_term = term, ls_prev = snapshot_lastEntryID s, ls_entries = []\<rparr>,
                  u_snapshotInProgress := False\<rparr>
        in (u\<lparr>u_entryInProgress := id_index (u_prev u)\<rparr>, True))"

definition unstable_append :: "logSlice \<Rightarrow> unstable \<Rightarrow> unstable \<times> bool" where
  "unstable_append a u =
     (if ls_term a < ls_term (u_logSlice u) then (u, False)
      else if ls_prev a \<noteq> logSlice_lastEntryID (u_logSlice u) then (u, False)
      else (u\<lparr>u_logSlice := (u_logSlice u)\<lparr>ls_term := ls_term a,
                 ls_entries := u_entries u @ ls_entries a\<rparr>\<rparr>, True))"

definition unstable_truncateAndAppend :: "logSlice \<Rightarrow> unstable \<Rightarrow> (unstable \<times> bool) go" where
  "unstable_truncateAndAppend a u =
     (if ls_term a < ls_term (u_logSlice u) then Some (u, False)
      else
        let lst = logSlice_lastEntryID (u_logSlice u) in
        if ls_prev a = lst
        then Some (u\<lparr>u_logSlice := (u_logSlice u)\<lparr>ls_term := ls_term a,
                       ls_entries := u_entries u @ ls_entries a\<rparr>\<rparr>, True)
        else if id_index lst \<le> id_index (ls_prev a) then Some (u, False)
        else if ls_term a = ls_term (u_logSlice u) then Some (u, False)
        else if (case u_snapshot u of Some s \<Rightarrow> id_index (ls_prev a) < snap_index s | None \<Rightarrow> False)
        then None
        else do {
          u \<leftarrow> (if id_index (ls_prev a) \<le> id_index (u_prev u)
                then Some (u\<lparr>u_logSlice := a\<rparr>)
                else do {
                  keep \<leftarrow> slice_to (u_entries u) (id_index (ls_prev a) - id_index (u_prev u));
                  Some (u\<lparr>u_logSlice := (u_logSlice u)\<lparr>ls_term := ls_term a,
                            ls_entries := keep @ ls_entries a\<rparr>\<rparr>)
                });
          Some (u\<lparr>u_entryInProgress := min (u_entryInProgress u) (id_index (ls_prev a))\<rparr>, True)
        })"

definition unstable_mustCheckOutOfBounds :: "u64 \<Rightarrow> u64 \<Rightarrow> unstable \<Rightarrow> unit go" where
  "unstable_mustCheckOutOfBounds lo hi u = do {
     assertTrue (\<not> hi < lo);
     assertTrue (\<not> (lo \<le> id_index (u_prev u) \<or> u_lastIndex u + 1 < hi))
   }"

definition unstable_slice :: "u64 \<Rightarrow> u64 \<Rightarrow> unstable \<Rightarrow> Entry list go" where
  "unstable_slice lo hi u = do {
     unstable_mustCheckOutOfBounds lo hi u;
     let offset = id_index (u_prev u) + 1;
     slice_range (u_entries u) (lo - offset) (hi - offset)
   }"

section \<open>The invariants\<close>

definition snap_id :: "Snapshot \<Rightarrow> entryID" where
  "snap_id s = \<lparr>id_term = sm_Term (s_Metadata s), id_index = sm_Index (s_Metadata s)\<rparr>"

definition unstable_inv :: "unstable \<Rightarrow> bool" where
  "unstable_inv u \<longleftrightarrow>
     slice_wf (u_logSlice u) \<and>
     (u_snapshotInProgress u \<longrightarrow> u_snapshot u \<noteq> None) \<and>
     (case u_snapshot u of Some s \<Rightarrow> u_prev u = snap_id s | None \<Rightarrow> True) \<and>
     id_index (u_prev u) \<le> u_entryInProgress u \<and> u_entryInProgress u \<le> u_lastIndex u \<and>
     (id_index (u_prev u) < u_entryInProgress u \<and> u_snapshot u \<noteq> None \<longrightarrow> u_snapshotInProgress u)"

lemma snap_id_sel [simp]:
  "id_index (snap_id s) = snap_index s" "id_term (snap_id s) = sm_Term (s_Metadata s)"
  by (simp_all add: snap_id_def)

lemma unstable_invD:
  assumes "unstable_inv u"
  shows "slice_wf (u_logSlice u)" and "u_snapshotInProgress u \<Longrightarrow> u_snapshot u \<noteq> None"
    and "u_snapshot u = Some s \<Longrightarrow> u_prev u = snap_id s"
    and "id_index (u_prev u) \<le> u_entryInProgress u" and "u_entryInProgress u \<le> u_lastIndex u"
    and "id_index (u_prev u) < u_entryInProgress u \<Longrightarrow> u_snapshot u \<noteq> None \<Longrightarrow> u_snapshotInProgress u"
  using assms by (auto simp: unstable_inv_def)

lemma prev_le_last: "slice_wf s \<Longrightarrow> prev_index s \<le> logSlice_lastIndex s"
  by (simp add: word_le_nat_alt unat_lastIndex)

lemma in_log_last [simp]: "slice_wf s \<Longrightarrow> in_log s (logSlice_lastIndex s)"
  by (simp add: in_log_def unat_lastIndex)

lemma in_log_prev [simp]: "in_log s (prev_index s)"
  by (simp add: in_log_def)

lemma newUnstable_inv [wf_intros]:
  "id_index lst < MaxUint64 \<Longrightarrow> unstable_inv (newUnstable lst)"
  by (simp add: unstable_inv_def newUnstable_def slice_wf_def logSlice_valid_def
      logSlice_lastIndex_def word_less_nat_alt unat_MaxUint64)

lemma unstable_acceptInProgress_inv [wf_intros]:
  "unstable_inv u \<Longrightarrow> unstable_inv (unstable_acceptInProgress u)"
  by (auto simp: unstable_inv_def unstable_acceptInProgress_def prev_le_last split: option.splits)

lemma unstable_stableSnapTo_inv [wf_intros]:
  "unstable_inv u \<Longrightarrow> unstable_inv (unstable_stableSnapTo i u)"
  by (auto simp: unstable_inv_def unstable_stableSnapTo_def)

lemma unstable_shrink [simp]: "unstable_shrinkEntriesArray u = u"
  by (cases u) (auto simp: unstable_shrinkEntriesArray_def)

text \<open>
  The acknowledgement of a write that follows the snapshot must not arrive before that
  of the snapshot.
\<close>

definition ack_in_order :: "LogMark \<Rightarrow> unstable \<Rightarrow> bool" where
  "ack_in_order mark u \<longleftrightarrow>
     u_snapshot u = None \<or> lm_Index mark \<le> id_index (u_prev u) \<or>
     u_lastIndex u < lm_Index mark \<or> lm_Term mark \<noteq> ls_term (u_logSlice u)"

text \<open>An acknowledged write is either ignored or moves the slice forward.\<close>

lemma unstable_stableTo_cases:
  assumes inv: "unstable_inv u" and ok: "ack_in_order mark u"
  obtains "unstable_stableTo mark u = Some u"
  | "u_snapshot u = None" "lm_Term mark = ls_term (u_logSlice u)"
    "in_log (u_logSlice u) (lm_Index mark)" "id_index (u_prev u) < lm_Index mark"
    "unstable_stableTo mark u = Some (u\<lparr>u_logSlice := log_suffix (u_logSlice u) (lm_Index mark),
       u_entryInProgress := max (u_entryInProgress u) (lm_Index mark)\<rparr>)"
proof (cases "lm_Term mark \<noteq> ls_term (u_logSlice u) \<or> lm_Index mark \<le> id_index (u_prev u) \<or>
    u_lastIndex u < lm_Index mark")
  case True
  then have "unstable_stableTo mark u = Some u"
    by (auto simp: unstable_stableTo_def split: option.splits)
  then show thesis by (rule that(1))
next
  case False
  note wf = unstable_invD(1) [OF inv]
  have n: "u_snapshot u = None" using ok False by (simp add: ack_in_order_def)
  have il: "in_log (u_logSlice u) (lm_Index mark)" using False wf by (auto simp: in_log_iff)
  show thesis
    by (rule that(2)) (use False n il forward_eq [OF wf il] in \<open>auto simp: unstable_stableTo_def\<close>)
qed

lemma unstable_stableTo_inv:
  assumes "unstable_inv u" and "ack_in_order mark u"
  shows "\<exists>u'. unstable_stableTo mark u = Some u' \<and> unstable_inv u'"
  using assms
proof (cases rule: unstable_stableTo_cases)
  case 1
  with assms(1) show ?thesis by simp
next
  case 2
  note wf = unstable_invD(1) [OF assms(1)]
  have "lm_Index mark \<le> u_lastIndex u" using 2(3) wf by (simp add: in_log_iff)
  then have "unstable_inv (u\<lparr>u_logSlice := log_suffix (u_logSlice u) (lm_Index mark),
       u_entryInProgress := max (u_entryInProgress u) (lm_Index mark)\<rparr>)"
    using 2(1) log_suffix_wf [OF wf 2(3)] log_suffix_last(1) [OF wf 2(3)] id_at_index [OF wf 2(3)]
      unstable_invD(2,5) [OF assms(1)]
    by (auto simp: unstable_inv_def log_suffix_def)
  with 2(5) show ?thesis by simp
qed


subsection \<open>Appending\<close>

lemma lastEntryID_prefix_full:
  assumes "slice_wf L" and "ls_prev a = logSlice_lastEntryID L"
  shows "prev_index a = logSlice_lastIndex L" and "in_log L (prev_index a)"
    and "id_at L (prev_index a) = ls_prev a"
    and "log_join L a = L\<lparr>ls_term := ls_term a, ls_entries := ls_entries L @ ls_entries a\<rparr>"
proof -
  show p: "prev_index a = logSlice_lastIndex L"
    using assms by (simp add: lastIndex_lastEntryID)
  show "in_log L (prev_index a)" "id_at L (prev_index a) = ls_prev a"
    unfolding p using assms by (simp_all add: id_at_last)
  show "log_join L a = L\<lparr>ls_term := ls_term a, ls_entries := ls_entries L @ ls_entries a\<rparr>"
    by (simp add: log_join_def p log_pos_def unat_lastIndex [OF assms(1)])
qed

text \<open>The log after an accepted append: joined at \<open>a.prev\<close>, or replaced from before the slice.\<close>

definition appended :: "unstable \<Rightarrow> logSlice \<Rightarrow> unstable" where
  "appended u a =
     u\<lparr>u_logSlice := (if prev_index a < prev_index (u_logSlice u) then a else log_join (u_logSlice u) a),
       u_entryInProgress := min (u_entryInProgress u) (prev_index a)\<rparr>"

definition append_accepted :: "unstable \<Rightarrow> logSlice \<Rightarrow> bool" where
  "append_accepted u a \<longleftrightarrow>
     (ls_term (u_logSlice u) < ls_term a \<and> prev_index a \<le> u_lastIndex u) \<or>
     (ls_term (u_logSlice u) = ls_term a \<and> prev_index a = u_lastIndex u)"

definition prev_matches :: "unstable \<Rightarrow> logSlice \<Rightarrow> bool" where
  "prev_matches u a \<longleftrightarrow>
     (in_log (u_logSlice u) (prev_index a) \<longrightarrow> id_at (u_logSlice u) (prev_index a) = ls_prev a) \<and>
     (prev_index a < prev_index (u_logSlice u) \<longrightarrow> u_snapshot u = None)"

lemma unstable_truncateAndAppend_result:
  assumes inv: "unstable_inv u" and m: "prev_matches u a"
  shows "unstable_truncateAndAppend a u =
    Some (if append_accepted u a then (appended u a, True) else (u, False))"
proof -
  let ?L = "u_logSlice u"
  note wf = unstable_invD(1) [OF inv]
  note last = lastIndex_lastEntryID [OF wf]
  have eip: "u_entryInProgress u \<le> u_lastIndex u" using unstable_invD(5) [OF inv] .
  consider (old) "ls_term a < ls_term ?L" | (tip) "ls_term ?L \<le> ls_term a" "ls_prev a = logSlice_lastEntryID ?L"
    | (gap) "ls_term ?L \<le> ls_term a" "ls_prev a \<noteq> logSlice_lastEntryID ?L" "u_lastIndex u \<le> prev_index a"
    | (same) "ls_term ?L = ls_term a" "ls_prev a \<noteq> logSlice_lastEntryID ?L" "prev_index a < u_lastIndex u"
    | (before) "ls_term ?L < ls_term a" "prev_index a < u_lastIndex u" "prev_index a \<le> prev_index ?L"
    | (inside) "ls_term ?L < ls_term a" "prev_index a < u_lastIndex u" "prev_index ?L < prev_index a"
    by fastforce
  then show ?thesis
  proof cases
    case old
    then show ?thesis by (auto simp: unstable_truncateAndAppend_def append_accepted_def)
  next
    case tip
    note t = lastEntryID_prefix_full [OF wf tip(2)]
    have "append_accepted u a" using tip t(1) by (auto simp: append_accepted_def)
    moreover have "appended u a = u\<lparr>u_logSlice := ?L\<lparr>ls_term := ls_term a,
        ls_entries := u_entries u @ ls_entries a\<rparr>\<rparr>"
      using t(1,4) prev_le_last [OF wf] eip by (simp add: appended_def min_def not_less)
    ultimately show ?thesis using tip by (simp add: unstable_truncateAndAppend_def)
  next
    case gap
    have "prev_index a \<noteq> u_lastIndex u"
      using gap(2) m id_at_last [OF wf] wf by (auto simp: prev_matches_def)
    with gap last show ?thesis by (auto simp: unstable_truncateAndAppend_def append_accepted_def)
  next
    case same
    with last show ?thesis by (auto simp: unstable_truncateAndAppend_def append_accepted_def)
  next
    case before
    have acc: "append_accepted u a" using before by (auto simp: append_accepted_def)
    have ne: "ls_prev a \<noteq> logSlice_lastEntryID ?L" using before(2) last by auto
    have snap: "\<not> (case u_snapshot u of Some s \<Rightarrow> prev_index a < snap_index s | None \<Rightarrow> False)"
      using m unstable_invD(3) [OF inv] before(3) by (auto simp: prev_matches_def split: option.splits)
    have "log_join ?L a = a" if "prev_index a = prev_index ?L"
      using m that by (simp add: prev_matches_def log_join_def log_pos_def)
    then show ?thesis
      using before acc ne snap last
      by (auto simp: unstable_truncateAndAppend_def appended_def not_le not_less)
  next
    case inside
    have acc: "append_accepted u a" using inside by (auto simp: append_accepted_def)
    have ne: "ls_prev a \<noteq> logSlice_lastEntryID ?L" using inside(2) last by auto
    have il: "in_log ?L (prev_index a)" using inside(2,3) wf by (auto simp: in_log_iff)
    have snap: "\<not> (case u_snapshot u of Some s \<Rightarrow> prev_index a < snap_index s | None \<Rightarrow> False)"
      using unstable_invD(3) [OF inv] inside(3) by (auto split: option.splits)
    have "slice_to (u_entries u) (prev_index a - prev_index ?L) =
        Some (take (log_pos ?L (prev_index a)) (u_entries u))"
      using il log_pos_le [OF il]
      by (simp add: slice_to_def log_pos_def in_log_def unat_sub word_le_nat_alt)
    then show ?thesis
      using inside acc ne snap last
      by (auto simp: unstable_truncateAndAppend_def appended_def log_join_def not_le not_less)
  qed
qed

lemma appended_inv:
  assumes inv: "unstable_inv u" and m: "prev_matches u a" and a: "slice_wf a"
    and acc: "append_accepted u a"
  shows "unstable_inv (appended u a)"
proof (cases "prev_index a < prev_index (u_logSlice u)")
  case True
  with m have "u_snapshot u = None" by (simp add: prev_matches_def)
  with True a unstable_invD(2,4) [OF inv] show ?thesis
    by (auto simp: unstable_inv_def appended_def min_def prev_le_last)
next
  case False
  note wf = unstable_invD(1) [OF inv]
  have il: "in_log (u_logSlice u) (prev_index a)"
    using False acc wf by (auto simp: in_log_iff append_accepted_def)
  have j: "slice_wf (log_join (u_logSlice u) a)" "prev_index a \<le> logSlice_lastIndex (log_join (u_logSlice u) a)"
    using log_join_wf [OF wf a il] m il prev_le_last [OF a] by (simp_all add: prev_matches_def)
  with False il unstable_invD(2-6) [OF inv] show ?thesis
    by (auto simp: unstable_inv_def appended_def log_join_def min_def split: option.splits)
qed

lemma unstable_append_result:
  assumes "unstable_inv u"
  shows "unstable_append a u =
    (if ls_term (u_logSlice u) \<le> ls_term a \<and> ls_prev a = logSlice_lastEntryID (u_logSlice u)
     then (appended u a, True) else (u, False))"
proof (cases "ls_prev a = logSlice_lastEntryID (u_logSlice u)")
  case True
  note t = lastEntryID_prefix_full [OF unstable_invD(1) [OF assms] True]
  have "appended u a = u\<lparr>u_logSlice := (u_logSlice u)\<lparr>ls_term := ls_term a,
      ls_entries := u_entries u @ ls_entries a\<rparr>\<rparr>"
    using t(1,4) prev_le_last [OF unstable_invD(1) [OF assms]] unstable_invD(5) [OF assms]
    by (simp add: appended_def min_def not_less)
  with True show ?thesis by (auto simp: unstable_append_def)
qed (auto simp: unstable_append_def)

lemma unstable_restore_inv:
  assumes inv: "unstable_inv u" and s: "snapshot_valid s" "snapshot_lastIndex s < MaxUint64"
  shows "unstable_inv (fst (unstable_restore s u))"
proof -
  have "slice_wf \<lparr>ls_term = max (ls_term (u_logSlice u)) (sn_term s), ls_prev = snapshot_lastEntryID s,
      ls_entries = []\<rparr>"
    using s(1) iffD1 [OF word_less_nat_alt s(2)]
    by (simp add: slice_wf_def logSlice_valid_def snapshot_valid_def snapshot_lastEntryID_def
        snapshot_lastIndex_def unat_MaxUint64 not_less le_max_iff_disj)
  then have new: "unstable_inv (u\<lparr>u_snapshot := Some (sn_snap s),
      u_logSlice := \<lparr>ls_term = max (ls_term (u_logSlice u)) (sn_term s), ls_prev = snapshot_lastEntryID s,
        ls_entries = []\<rparr>,
      u_snapshotInProgress := False, u_entryInProgress := snapshot_lastIndex s\<rparr>)"
    by (simp add: unstable_inv_def snapshot_lastEntryID_def snapshot_lastIndex_def snap_id_def
        logSlice_lastIndex_def)
  have i: "id_index (snapshot_lastEntryID s) = snapshot_lastIndex s"
    by (simp add: snapshot_lastEntryID_def snapshot_lastIndex_def)
  show ?thesis
  proof (cases "sn_term s \<le> ls_term (u_logSlice u) \<and> snapshot_lastIndex s < u_lastIndex u")
    case True
    with inv show ?thesis by (simp add: unstable_restore_def)
  next
    case False
    then have "fst (unstable_restore s u) = u\<lparr>u_snapshot := Some (sn_snap s),
      u_logSlice := \<lparr>ls_term = max (ls_term (u_logSlice u)) (sn_term s), ls_prev = snapshot_lastEntryID s,
        ls_entries = []\<rparr>,
      u_snapshotInProgress := False, u_entryInProgress := snapshot_lastIndex s\<rparr>"
      by (simp only: unstable_restore_def if_False Let_def fst_conv) (simp add: i)
    with new show ?thesis by simp
  qed
qed


subsection \<open>Reachable states\<close>

inductive unstable_step :: "unstable \<Rightarrow> unstable \<Rightarrow> bool" where
  accept: "unstable_step u (unstable_acceptInProgress u)"
| stable: "ack_in_order mark u \<Longrightarrow> unstable_stableTo mark u = Some u' \<Longrightarrow> unstable_step u u'"
| stable_snap: "unstable_step u (unstable_stableSnapTo i u)"
| restored: "snapshot_valid s \<Longrightarrow> snapshot_lastIndex s < MaxUint64 \<Longrightarrow>
    unstable_step u (fst (unstable_restore s u))"
| appends: "slice_wf a \<Longrightarrow> unstable_step u (fst (unstable_append a u))"
| truncates: "slice_wf a \<Longrightarrow> prev_matches u a \<Longrightarrow>
    unstable_truncateAndAppend a u = Some (u', ok) \<Longrightarrow> unstable_step u u'"

inductive_cases unstable_stepE: "unstable_step u u'"

lemma tip_accepted:
  assumes "unstable_inv u" and "ls_term (u_logSlice u) \<le> ls_term a"
    and "ls_prev a = logSlice_lastEntryID (u_logSlice u)"
  shows "append_accepted u a" and "prev_matches u a"
  using lastEntryID_prefix_full [OF unstable_invD(1) [OF assms(1)] assms(3)] assms(2)
    prev_le_last [OF unstable_invD(1) [OF assms(1)]]
  by (auto simp: append_accepted_def prev_matches_def)

lemma unstable_step_inv:
  assumes "unstable_step u u'" and inv: "unstable_inv u"
  shows "unstable_inv u'"
  using assms(1)
proof (cases rule: unstable_step.cases)
  case (stable mark)
  with unstable_stableTo_inv [OF inv] show ?thesis by fastforce
next
  case (restored s)
  with unstable_restore_inv [OF inv] show ?thesis by simp
next
  case (appends a)
  then show ?thesis
    using inv tip_accepted [OF inv] appended_inv [OF inv _ _ , of a]
    by (auto simp: unstable_append_result [OF inv])
next
  case (truncates a ok)
  then show ?thesis
    using inv appended_inv [OF inv truncates(2,1)] unstable_truncateAndAppend_result [OF inv truncates(2)]
    by (auto split: if_splits)
qed (use inv in \<open>auto intro: wf_intros\<close>)

lemma unstable_nextEntries_eq:
  assumes inv: "unstable_inv u"
  shows "unstable_nextEntries u = Some (ls_entries (log_suffix (u_logSlice u) (u_entryInProgress u)))"
proof -
  note wf = unstable_invD(1) [OF inv]
  have il: "in_log (u_logSlice u) (u_entryInProgress u)"
    using unstable_invD(4,5) [OF inv] wf by (simp add: in_log_iff)
  have "unat (u_entryInProgress u - prev_index (u_logSlice u)) = log_pos (u_logSlice u) (u_entryInProgress u)"
    using il by (simp add: log_pos_def in_log_def unat_sub word_le_nat_alt)
  moreover have "drop (log_pos (u_logSlice u) (u_lastIndex u)) (u_entries u) = []"
    using unat_lastIndex [OF wf] by (simp add: log_pos_def)
  ultimately show ?thesis
    using log_pos_le [OF il] by (auto simp: unstable_nextEntries_def slice_from_def log_suffix_def)
qed

section \<open>Properties\<close>



text \<open>
  Entries are handed to storage exactly once. \<open>nextEntries\<close> never
  panics on a well-formed unstable log and returns exactly the entries after the
  in-progress mark; after \<open>acceptInProgress\<close> neither entries nor a snapshot are
  offered again, and the log itself is unchanged.
\<close>

lemma unstable_entries_offered_once:
  assumes "unstable_inv u"
  shows "unstable_nextEntries u = Some (ls_entries (log_suffix (u_logSlice u) (u_entryInProgress u))) \<and>
    unstable_nextEntries (unstable_acceptInProgress u) = Some [] \<and>
    unstable_nextSnapshot (unstable_acceptInProgress u) = None \<and>
    u_logSlice (unstable_acceptInProgress u) = u_logSlice u \<and>
    u_snapshot (unstable_acceptInProgress u) = u_snapshot u"
  using unstable_nextEntries_eq [OF assms]
  by (simp add: unstable_nextEntries_def unstable_acceptInProgress_def unstable_nextSnapshot_def)

end
