(* ===== verification/Raft_Log.thy ===== *)
theory Raft_Log
  imports Unstable
begin

text \<open>
  The raft log of \<open>log.go\<close>: the stable entries of a \<open>Storage\<close> followed by the
  unstable suffix, with the committed, applying and applied positions. The
  predicate \<open>log_repr\<close> relates a raft log to the log slice it represents, and the
  lemmas show that every operation acts on that slice as its comments say.
\<close>

section \<open>The operations\<close>

record raftLog =
  rl_storage :: Storage
  rl_unstable :: unstable
  rl_committed :: u64
  rl_applying :: u64
  rl_applied :: u64
  rl_maxApplyingEntsSize :: u64
  rl_applyingEntsSize :: u64
  rl_applyingEntsPaused :: bool

definition newLogWithSize :: "Storage \<Rightarrow> u64 \<Rightarrow> raftLog go" where
  "newLogWithSize st maxApplyingEntsSize =
     (case st_FirstIndex st of
        Inl _ \<Rightarrow> None
      | Inr firstIndex \<Rightarrow>
     (case st_LastIndex st of
        Inl _ \<Rightarrow> None
      | Inr lastIndex \<Rightarrow> do {
          r \<leftarrow> st_Term st lastIndex;
          case r of
            Inl _ \<Rightarrow> None
          | Inr lastTerm \<Rightarrow>
              Some \<lparr>rl_storage = st,
                rl_unstable = newUnstable \<lparr>id_term = lastTerm, id_index = lastIndex\<rparr>,
                rl_committed = firstIndex - 1, rl_applying = firstIndex - 1,
                rl_applied = firstIndex - 1, rl_maxApplyingEntsSize = maxApplyingEntsSize,
                rl_applyingEntsSize = 0, rl_applyingEntsPaused = False\<rparr>
        }))"

definition newLog :: "Storage \<Rightarrow> raftLog go" where
  "newLog st = newLogWithSize st noLimit"

definition raftLog_accTerm :: "raftLog \<Rightarrow> u64" where
  "raftLog_accTerm l = ls_term (u_logSlice (rl_unstable l))"

definition raftLog_firstIndex :: "raftLog \<Rightarrow> u64 go" where
  "raftLog_firstIndex l =
     (case unstable_maybeFirstIndex (rl_unstable l) of
        Some i \<Rightarrow> Some i
      | None \<Rightarrow> (case st_FirstIndex (rl_storage l) of Inl _ \<Rightarrow> None | Inr index \<Rightarrow> Some index))"

definition raftLog_lastIndex :: "raftLog \<Rightarrow> u64" where
  "raftLog_lastIndex l = u_lastIndex (rl_unstable l)"

definition raftLog_term :: "raftLog \<Rightarrow> u64 \<Rightarrow> (storage_error + u64) go" where
  "raftLog_term l i = do {
     mt \<leftarrow> unstable_maybeTerm (rl_unstable l) i;
     case mt of
       Some t \<Rightarrow> Some (Inr t)
     | None \<Rightarrow> do {
         fi \<leftarrow> raftLog_firstIndex l;
         if i + 1 < fi then Some (Inl ErrCompacted)
         else if raftLog_lastIndex l < i then Some (Inl ErrUnavailable)
         else do {
           r \<leftarrow> st_Term (rl_storage l) i;
           case r of
             Inr t \<Rightarrow> Some (Inr t)
           | Inl err \<Rightarrow> if err = ErrCompacted \<or> err = ErrUnavailable then Some (Inl err) else None
         }
       }
   }"

definition raftLog_lastEntryID :: "raftLog \<Rightarrow> entryID go" where
  "raftLog_lastEntryID l = do {
     let index = raftLog_lastIndex l;
     r \<leftarrow> raftLog_term l index;
     case r of Inl _ \<Rightarrow> None | Inr t \<Rightarrow> Some \<lparr>id_term = t, id_index = index\<rparr>
   }"

definition raftLog_matchTerm :: "raftLog \<Rightarrow> entryID \<Rightarrow> bool go" where
  "raftLog_matchTerm l i = do {
     r \<leftarrow> raftLog_term l (id_index i);
     case r of Inl _ \<Rightarrow> Some False | Inr t \<Rightarrow> Some (t = id_term i)
   }"

definition raftLog_zeroTermOnOutOfBounds :: "storage_error + u64 \<Rightarrow> u64 go" where
  "raftLog_zeroTermOnOutOfBounds r =
     (case r of
        Inr t \<Rightarrow> Some t
      | Inl err \<Rightarrow> if err = ErrCompacted \<or> err = ErrUnavailable then Some 0 else None)"

text \<open>The loop of \<open>match\<close>; the extra lookup for the log message is left out.\<close>

fun raftLog_match_loop :: "raftLog \<Rightarrow> Entry list \<Rightarrow> u64 \<Rightarrow> u64 go" where
  "raftLog_match_loop l [] mtch = Some mtch"
| "raftLog_match_loop l (e # es) mtch = do {
     m \<leftarrow> raftLog_matchTerm l (pbEntryID e);
     if m then raftLog_match_loop l es (id_index (pbEntryID e)) else Some mtch
   }"

definition raftLog_match :: "raftLog \<Rightarrow> logSlice \<Rightarrow> u64 option go" where
  "raftLog_match l s = do {
     m \<leftarrow> raftLog_matchTerm l (ls_prev s);
     if \<not> m then Some None
     else do {
       mtch \<leftarrow> raftLog_match_loop l (ls_entries s) (id_index (ls_prev s));
       Some (Some mtch)
     }
   }"

definition raftLog_maybeAppend :: "logSlice \<Rightarrow> raftLog \<Rightarrow> (raftLog \<times> bool) go" where
  "raftLog_maybeAppend a l = do {
     r \<leftarrow> raftLog_match l a;
     case r of
       None \<Rightarrow> Some (l, False)
     | Some mtch \<Rightarrow> do {
         a \<leftarrow> logSlice_forward a mtch;
         case ls_entries a of
           [] \<Rightarrow> Some (l, True)
         | e # _ \<Rightarrow> do {
             assertTrue (\<not> e_Index e \<le> rl_committed l);
             (u, ok) \<leftarrow> unstable_truncateAndAppend a (rl_unstable l);
             Some (l\<lparr>rl_unstable := u\<rparr>, ok)
           }
       }
   }"

definition raftLog_append :: "logSlice \<Rightarrow> raftLog \<Rightarrow> raftLog \<times> bool" where
  "raftLog_append a l =
     (case unstable_append a (rl_unstable l) of (u, ok) \<Rightarrow> (l\<lparr>rl_unstable := u\<rparr>, ok))"

text \<open>The loop of \<open>findConflictByTerm\<close> counts the index down to zero.\<close>

fun findConflictByTerm_loop :: "raftLog \<Rightarrow> u64 \<Rightarrow> nat \<Rightarrow> (u64 \<times> u64) go" where
  "findConflictByTerm_loop l term 0 = Some (0, 0)"
| "findConflictByTerm_loop l term (Suc n) = do {
     let index = of_nat (Suc n);
     r \<leftarrow> raftLog_term l index;
     case r of
       Inl _ \<Rightarrow> Some (index, 0)
     | Inr ourTerm \<Rightarrow>
         if ourTerm \<le> term then Some (index, ourTerm) else findConflictByTerm_loop l term n
   }"

definition raftLog_findConflictByTerm :: "raftLog \<Rightarrow> u64 \<Rightarrow> u64 \<Rightarrow> (u64 \<times> u64) go" where
  "raftLog_findConflictByTerm l index term = findConflictByTerm_loop l term (unat index)"

definition raftLog_nextUnstableEnts :: "raftLog \<Rightarrow> Entry list go" where
  "raftLog_nextUnstableEnts l = unstable_nextEntries (rl_unstable l)"

definition raftLog_hasNextUnstableEnts :: "raftLog \<Rightarrow> bool go" where
  "raftLog_hasNextUnstableEnts l = do {
     ents \<leftarrow> raftLog_nextUnstableEnts l;
     Some (0 < length ents)
   }"

definition raftLog_nextUnstableSnapshot :: "raftLog \<Rightarrow> Snapshot option" where
  "raftLog_nextUnstableSnapshot l = unstable_nextSnapshot (rl_unstable l)"

definition raftLog_hasNextUnstableSnapshot :: "raftLog \<Rightarrow> bool" where
  "raftLog_hasNextUnstableSnapshot l \<longleftrightarrow> unstable_nextSnapshot (rl_unstable l) \<noteq> None"

definition raftLog_hasNextOrInProgressSnapshot :: "raftLog \<Rightarrow> bool" where
  "raftLog_hasNextOrInProgressSnapshot l \<longleftrightarrow> u_snapshot (rl_unstable l) \<noteq> None"

definition raftLog_snapshot :: "raftLog \<Rightarrow> storage_error + Snapshot" where
  "raftLog_snapshot l =
     (case u_snapshot (rl_unstable l) of Some s \<Rightarrow> Inr s | None \<Rightarrow> st_Snapshot (rl_storage l))"

definition raftLog_mustCheckOutOfBounds :: "u64 \<Rightarrow> u64 \<Rightarrow> raftLog \<Rightarrow> storage_error option go" where
  "raftLog_mustCheckOutOfBounds lo hi l = do {
     assertTrue (\<not> hi < lo);
     fi \<leftarrow> raftLog_firstIndex l;
     if lo < fi then Some (Some ErrCompacted)
     else do {
       let len = raftLog_lastIndex l + 1 - fi;
       assertTrue (\<not> fi + len < hi);
       Some None
     }
   }"

definition raftLog_slice :: "codec \<Rightarrow> u64 \<Rightarrow> u64 \<Rightarrow> u64 \<Rightarrow> raftLog \<Rightarrow> (storage_error + Entry list) go" where
  "raftLog_slice cd lo hi maxSize l = do {
     err \<leftarrow> raftLog_mustCheckOutOfBounds lo hi l;
     case err of
       Some e \<Rightarrow> Some (Inl e)
     | None \<Rightarrow>
       if lo = hi then Some (Inr [])
       else
         let pi = id_index (u_prev (rl_unstable l)) in
         if pi < lo then do {
           ents \<leftarrow> unstable_slice lo hi (rl_unstable l);
           Some (Inr (limitSize cd ents maxSize))
         } else do {
           let cut = min hi (pi + 1);
           r \<leftarrow> st_Entries (rl_storage l) lo cut maxSize;
           case r of
             Inl err \<Rightarrow> if err = ErrCompacted then Some (Inl err) else None
           | Inr ents \<Rightarrow>
               if hi \<le> pi + 1 then Some (Inr ents)
               else if len64 ents < cut - lo then Some (Inr ents)
               else
                 let sz = entsSize cd ents in
                 if maxSize \<le> sz then Some (Inr ents)
                 else do {
                   us \<leftarrow> unstable_slice (pi + 1) hi (rl_unstable l);
                   let unst = limitSize cd us (maxSize - sz);
                   if length unst = 1 \<and> maxSize < sz + entsSize cd unst then Some (Inr ents)
                   else Some (Inr (Log_Types.extend ents unst))
                 }
         }
   }"

definition raftLog_entries :: "codec \<Rightarrow> u64 \<Rightarrow> u64 \<Rightarrow> raftLog \<Rightarrow> (storage_error + Entry list) go" where
  "raftLog_entries cd i maxSize l =
     (if raftLog_lastIndex l < i then Some (Inr [])
      else raftLog_slice cd i (raftLog_lastIndex l + 1) maxSize l)"

text \<open>
  \<open>allEntries\<close> tries again after a racing compaction. In one state of the storage the
  repeated call behaves as the first, so a result is only reached when there is none.
\<close>

partial_function (option) raftLog_allEntries :: "codec \<Rightarrow> raftLog \<Rightarrow> Entry list go" where
  "raftLog_allEntries cd l = do {
     fi \<leftarrow> raftLog_firstIndex l;
     r \<leftarrow> raftLog_entries cd fi noLimit l;
     case r of
       Inr ents \<Rightarrow> Some ents
     | Inl err \<Rightarrow> if err = ErrCompacted then raftLog_allEntries cd l else None
   }"

declare raftLog_allEntries.simps [code]

definition raftLog_maxAppliableIndex :: "bool \<Rightarrow> raftLog \<Rightarrow> u64" where
  "raftLog_maxAppliableIndex allowUnstable l =
     (let hi = rl_committed l in
      if \<not> allowUnstable then min hi (id_index (u_prev (rl_unstable l))) else hi)"

definition raftLog_nextCommittedEnts :: "codec \<Rightarrow> bool \<Rightarrow> raftLog \<Rightarrow> Entry list go" where
  "raftLog_nextCommittedEnts cd allowUnstable l =
     (if rl_applyingEntsPaused l then Some []
      else if raftLog_hasNextOrInProgressSnapshot l then Some []
      else
        let lo = rl_applying l + 1; hi = raftLog_maxAppliableIndex allowUnstable l + 1 in
        if hi \<le> lo then Some []
        else do {
          let maxSize = rl_maxApplyingEntsSize l - rl_applyingEntsSize l;
          assertTrue (\<not> maxSize \<le> 0);
          r \<leftarrow> raftLog_slice cd lo hi maxSize l;
          case r of Inl _ \<Rightarrow> None | Inr ents \<Rightarrow> Some ents
        })"

definition raftLog_hasNextCommittedEnts :: "bool \<Rightarrow> raftLog \<Rightarrow> bool" where
  "raftLog_hasNextCommittedEnts allowUnstable l =
     (if rl_applyingEntsPaused l then False
      else if raftLog_hasNextOrInProgressSnapshot l then False
      else rl_applying l + 1 < raftLog_maxAppliableIndex allowUnstable l + 1)"

definition raftLog_commitTo :: "LogMark \<Rightarrow> raftLog \<Rightarrow> raftLog go" where
  "raftLog_commitTo mark l =
     (if rl_committed l < lm_Index mark then do {
        assertTrue (\<not> raftLog_lastIndex l < lm_Index mark);
        Some (l\<lparr>rl_committed := lm_Index mark\<rparr>)
      } else Some l)"

definition raftLog_appliedTo :: "u64 \<Rightarrow> u64 \<Rightarrow> raftLog \<Rightarrow> raftLog go" where
  "raftLog_appliedTo i sz l = do {
     assertTrue (\<not> (rl_committed l < i \<or> i < rl_applied l));
     let l = l\<lparr>rl_applied := i\<rparr>;
     let l = l\<lparr>rl_applying := max (rl_applying l) i\<rparr>;
     let l = (if sz < rl_applyingEntsSize l
              then l\<lparr>rl_applyingEntsSize := rl_applyingEntsSize l - sz\<rparr>
              else l\<lparr>rl_applyingEntsSize := 0\<rparr>);
     Some (l\<lparr>rl_applyingEntsPaused := rl_maxApplyingEntsSize l \<le> rl_applyingEntsSize l\<rparr>)
   }"

definition raftLog_acceptApplying :: "u64 \<Rightarrow> u64 \<Rightarrow> bool \<Rightarrow> raftLog \<Rightarrow> raftLog go" where
  "raftLog_acceptApplying i sz allowUnstable l = do {
     assertTrue (\<not> rl_committed l < i);
     let l = l\<lparr>rl_applying := i\<rparr>;
     let l = l\<lparr>rl_applyingEntsSize := rl_applyingEntsSize l + sz\<rparr>;
     Some (l\<lparr>rl_applyingEntsPaused :=
       (rl_maxApplyingEntsSize l \<le> rl_applyingEntsSize l \<or> i < raftLog_maxAppliableIndex allowUnstable l)\<rparr>)
   }"

definition raftLog_stableTo :: "LogMark \<Rightarrow> raftLog \<Rightarrow> raftLog go" where
  "raftLog_stableTo mark l = do {
     u \<leftarrow> unstable_stableTo mark (rl_unstable l);
     Some (l\<lparr>rl_unstable := u\<rparr>)
   }"

definition raftLog_stableSnapTo :: "u64 \<Rightarrow> raftLog \<Rightarrow> raftLog" where
  "raftLog_stableSnapTo i l = l\<lparr>rl_unstable := unstable_stableSnapTo i (rl_unstable l)\<rparr>"

definition raftLog_acceptUnstable :: "raftLog \<Rightarrow> raftLog" where
  "raftLog_acceptUnstable l = l\<lparr>rl_unstable := unstable_acceptInProgress (rl_unstable l)\<rparr>"

definition raftLog_isUpToDate :: "raftLog \<Rightarrow> entryID \<Rightarrow> bool go" where
  "raftLog_isUpToDate l their = do {
     our \<leftarrow> raftLog_lastEntryID l;
     Some (id_term our < id_term their \<or>
           id_term their = id_term our \<and> id_index our \<le> id_index their)
   }"

definition raftLog_restore :: "snapshot \<Rightarrow> raftLog \<Rightarrow> raftLog \<times> bool" where
  "raftLog_restore s l =
     (let i = snapshot_lastEntryID s in
      case unstable_restore s (rl_unstable l) of (u, ok) \<Rightarrow>
        if \<not> ok then (l\<lparr>rl_unstable := u\<rparr>, False)
        else (l\<lparr>rl_unstable := u, rl_committed := id_index i\<rparr>, True))"

text \<open>
  \<open>scan\<close> with a callback that returns an optional error and updates the variables it
  captures, which keep their values when it returns an error. An error ends the loop.
  Nothing in the loop bounds its number of rounds, so it is a partial function.
\<close>

partial_function (option) raftLog_scan ::
    "codec \<Rightarrow> raftLog \<Rightarrow> u64 \<Rightarrow> u64 \<Rightarrow> (Entry list \<Rightarrow> 's \<Rightarrow> ('s \<times> storage_error option) go) \<Rightarrow> u64 \<Rightarrow> 's \<Rightarrow>
     ('s \<times> storage_error option) go" where
  "raftLog_scan cd l hi pageSize v lo s =
     (if lo < hi then do {
        r \<leftarrow> raftLog_slice cd lo hi pageSize l;
        case r of
          Inl err \<Rightarrow> Some (s, Some err)
        | Inr ents \<Rightarrow>
            if ents = [] then Some (s, Some (ErrOther ''got 0 entries''))
            else do {
              (s, err) \<leftarrow> v ents s;
              case err of
                Some e \<Rightarrow> Some (s, Some e)
              | None \<Rightarrow> raftLog_scan cd l hi pageSize v (lo + len64 ents) s
            }
      } else Some (s, None))"

declare raftLog_scan.simps [code]

section \<open>The log it represents\<close>

text \<open>
  With a pending snapshot the log starts at the snapshot and is the unstable slice.
  Otherwise it is the stable log up to the start of the unstable slice, joined with
  that slice; the storage may hold more entries, which are about to be overwritten.
\<close>

definition log_repr :: "codec \<Rightarrow> raftLog \<Rightarrow> logSlice \<Rightarrow> bool" where
  "log_repr cd l L \<longleftrightarrow>
     unstable_inv (rl_unstable l) \<and>
     (if u_snapshot (rl_unstable l) \<noteq> None then L = u_logSlice (rl_unstable l)
      else \<exists>S. storage_log cd (rl_storage l) S \<and>
        in_log S (id_index (u_prev (rl_unstable l))) \<and>
        id_at S (id_index (u_prev (rl_unstable l))) = u_prev (rl_unstable l) \<and>
        L = log_join S (u_logSlice (rl_unstable l)))"

lemma log_repr_cases:
  assumes "log_repr cd l L"
  obtains (snap) s where "u_snapshot (rl_unstable l) = Some s" "L = u_logSlice (rl_unstable l)"
    "unstable_inv (rl_unstable l)"
  | (plain) S where "u_snapshot (rl_unstable l) = None" "storage_log cd (rl_storage l) S"
    "in_log S (id_index (u_prev (rl_unstable l)))"
    "id_at S (id_index (u_prev (rl_unstable l))) = u_prev (rl_unstable l)"
    "L = log_join S (u_logSlice (rl_unstable l))" "unstable_inv (rl_unstable l)"
  using assms unfolding log_repr_def by (cases "u_snapshot (rl_unstable l)") auto

lemma storage_logD:
  assumes "storage_log cd st S"
  shows "slice_wf S" and "st_FirstIndex st = Inr (prev_index S + 1)"
    and "st_LastIndex st = Inr (logSlice_lastIndex S)"
    and "in_log S i \<Longrightarrow> st_Term st i = Some (Inr (id_term (id_at S i)))"
    and "prev_index S < lo \<Longrightarrow> lo < hi \<Longrightarrow> hi \<le> logSlice_lastIndex S + 1 \<Longrightarrow>
      st_Entries st lo hi maxSize = Some (Inr (limitSize cd (log_range S lo hi) maxSize))"
  using assms by (auto simp: storage_log_def)

lemma log_join_sel [simp]:
  "ls_prev (log_join s a) = ls_prev s" "ls_term (log_join s a) = ls_term a"
  by (simp_all add: log_join_def)

lemma log_repr_basic:
  assumes "log_repr cd l L"
  shows log_repr_wf: "slice_wf L"
    and log_repr_uinv: "unstable_inv (rl_unstable l)"
    and log_repr_last: "raftLog_lastIndex l = logSlice_lastIndex L"
    and log_repr_lastID: "logSlice_lastEntryID (u_logSlice (rl_unstable l)) = logSlice_lastEntryID L"
    and log_repr_first: "raftLog_firstIndex l = Some (prev_index L + 1)"
    and log_repr_accTerm: "ls_term (u_logSlice (rl_unstable l)) = ls_term L"
    and log_repr_prev: "prev_index L \<le> id_index (u_prev (rl_unstable l))"
proof -
  have "slice_wf L \<and> unstable_inv (rl_unstable l) \<and> raftLog_lastIndex l = logSlice_lastIndex L \<and>
    logSlice_lastEntryID (u_logSlice (rl_unstable l)) = logSlice_lastEntryID L \<and>
    raftLog_firstIndex l = Some (prev_index L + 1) \<and> ls_term (u_logSlice (rl_unstable l)) = ls_term L \<and>
    prev_index L \<le> id_index (u_prev (rl_unstable l))"
    using assms
  proof (cases rule: log_repr_cases)
    case (snap s)
    then have "u_prev (rl_unstable l) = snap_id s"
      by (simp add: unstable_inv_def)
    with snap show ?thesis
      by (simp add: unstable_invD(1) raftLog_lastIndex_def raftLog_firstIndex_def unstable_maybeFirstIndex_def)
  next
    case (plain S)
    note j = log_join_wf [OF storage_logD(1) [OF plain(2)] unstable_invD(1) [OF plain(6)] plain(3,4)]
    show ?thesis
      using plain j storage_logD(1,2) [OF plain(2)]
      by (simp add: raftLog_lastIndex_def raftLog_firstIndex_def unstable_maybeFirstIndex_def in_log_iff)
  qed
  then show "slice_wf L" "unstable_inv (rl_unstable l)" "raftLog_lastIndex l = logSlice_lastIndex L"
    "logSlice_lastEntryID (u_logSlice (rl_unstable l)) = logSlice_lastEntryID L"
    "raftLog_firstIndex l = Some (prev_index L + 1)" "ls_term (u_logSlice (rl_unstable l)) = ls_term L"
    "prev_index L \<le> id_index (u_prev (rl_unstable l))" by blast+
qed

text \<open>Where the unstable slice reaches, it is the log.\<close>

lemma log_repr_unstable:
  assumes "log_repr cd l L" and "id_index (u_prev (rl_unstable l)) \<le> i"
  shows "id_at (u_logSlice (rl_unstable l)) i = id_at L i"
  using assms(1)
proof (cases rule: log_repr_cases)
  case (plain S)
  then show ?thesis using id_at_join(2) [OF storage_logD(1) [OF plain(2)] plain(3,4) assms(2)] by simp
qed simp

lemma log_repr_stable:
  assumes "log_repr cd l L" and "in_log L i" and "i < id_index (u_prev (rl_unstable l))"
  shows "st_Term (rl_storage l) i = Some (Inr (id_term (id_at L i)))"
  using assms(1)
proof (cases rule: log_repr_cases)
  case (snap s)
  with assms(2,3) unstable_invD(1) [OF snap(3)] show ?thesis by (auto simp: in_log_iff)
next
  case (plain S)
  have "in_log S i"
    using assms(2,3) plain(3,5) log_repr_wf [OF assms(1)] storage_logD(1) [OF plain(2)]
    by (auto simp: in_log_iff)
  with plain assms(3) storage_logD(4) [OF plain(2)] id_at_join(1) [OF storage_logD(1) [OF plain(2)] plain(3,4)]
  show ?thesis by simp
qed

section \<open>Reading terms\<close>

text \<open>
  The error for an index outside the log. The comparison \<open>i + 1 < firstIndex\<close> wraps
  around for the largest index, which is thus reported as compacted.
\<close>

definition term_result :: "logSlice \<Rightarrow> u64 \<Rightarrow> storage_error + u64" where
  "term_result L i =
     (case log_term L i of
        Some t \<Rightarrow> Inr t
      | None \<Rightarrow> Inl (if i < prev_index L \<or> i = MaxUint64 then ErrCompacted else ErrUnavailable))"

lemma word_succ_less_iff:
  "(p::u64) < MaxUint64 \<Longrightarrow> i + 1 < p + 1 \<longleftrightarrow> i < p \<or> i = MaxUint64"
proof -
  assume p: "p < MaxUint64"
  show ?thesis
  proof (cases "i = MaxUint64")
    case True
    have "0 < p + 1" using unat_succ_u64 [OF p] by (simp add: word_less_nat_alt)
    with True show ?thesis by simp
  next
    case False
    then have "i < MaxUint64" by (simp add: order_less_le)
    from unat_succ_u64 [OF this] unat_succ_u64 [OF p] False show ?thesis by (simp add: word_less_nat_alt)
  qed
qed

lemma slice_wf_prev_less: "slice_wf s \<Longrightarrow> prev_index s < MaxUint64"
  using slice_wfD(3) [of s] by (simp add: word_less_nat_alt unat_MaxUint64)

lemma raftLog_term_eq:
  assumes r: "log_repr cd l L"
  shows "raftLog_term l i = Some (term_result L i)"
proof -
  let ?u = "rl_unstable l"
  note wf = log_repr_wf [OF r] and uinv = unstable_invD(1) [OF log_repr_uinv [OF r]]
  have last: "u_lastIndex ?u = logSlice_lastIndex L"
    using log_repr_last [OF r] by (simp add: raftLog_lastIndex_def)
  show ?thesis
  proof (cases "id_index (u_prev ?u) \<le> i \<and> i \<le> logSlice_lastIndex L")
    case True
    then have "in_log L i" "in_log (u_logSlice ?u) i"
      using wf uinv last log_repr_prev [OF r] by (auto simp: in_log_iff)
    moreover have "\<not> (i < id_index (u_prev ?u) \<or> u_lastIndex ?u < i)" using True last by auto
    ultimately have "unstable_maybeTerm ?u i = Some (Some (id_term (id_at L i)))"
      using termAt_eq [OF uinv] log_repr_unstable [OF r, of i] True by (simp add: unstable_maybeTerm_def)
    with \<open>in_log L i\<close> show ?thesis
      by (simp add: raftLog_term_def term_result_def log_term_def)
  next
    case False
    then have mt: "unstable_maybeTerm ?u i = Some None"
      using last by (auto simp: unstable_maybeTerm_def)
    have c: "i + 1 < prev_index L + 1 \<longleftrightarrow> i < prev_index L \<or> i = MaxUint64"
      by (rule word_succ_less_iff [OF slice_wf_prev_less [OF wf]])
    consider "i < prev_index L \<or> i = MaxUint64" | "\<not> (i < prev_index L \<or> i = MaxUint64)" "logSlice_lastIndex L < i"
      | "in_log L i" "\<not> (i < prev_index L \<or> i = MaxUint64)" "i < id_index (u_prev ?u)"
      using False wf by (metis in_log_iff not_less)
    then show ?thesis
    proof cases
      case 1
      then have "\<not> in_log L i" using wf lastIndex_less_max [OF wf] by (auto simp: in_log_iff)
      with 1 mt c show ?thesis
        by (simp add: raftLog_term_def log_repr_first [OF r] term_result_def log_term_def)
    next
      case 2
      then have "\<not> in_log L i" using wf by (auto simp: in_log_iff)
      with 2 mt c show ?thesis
        by (simp add: raftLog_term_def log_repr_first [OF r] log_repr_last [OF r] term_result_def log_term_def)
    next
      case 3
      then have "\<not> logSlice_lastIndex L < i" using wf by (auto simp: in_log_iff)
      with 3 mt c log_repr_stable [OF r] show ?thesis
        by (simp add: raftLog_term_def log_repr_first [OF r] log_repr_last [OF r] term_result_def log_term_def)
    qed
  qed
qed

lemma raftLog_lastEntryID_eq:
  assumes "log_repr cd l L"
  shows "raftLog_lastEntryID l = Some (logSlice_lastEntryID L)"
proof -
  note wf = log_repr_wf [OF assms]
  have "\<lparr>id_term = id_term (logSlice_lastEntryID L), id_index = logSlice_lastIndex L\<rparr> = logSlice_lastEntryID L"
    using lastIndex_lastEntryID [OF wf] by (cases "logSlice_lastEntryID L") simp
  then show ?thesis
    using wf by (simp add: raftLog_lastEntryID_def log_repr_last [OF assms] raftLog_term_eq [OF assms]
        term_result_def log_term_def id_at_last)
qed

lemma raftLog_matchTerm_eq:
  assumes "log_repr cd l L"
  shows "raftLog_matchTerm l i = Some (in_log L (id_index i) \<and> id_at L (id_index i) = i)"
  using id_at_index [OF log_repr_wf [OF assms], of "id_index i"]
  by (cases i; cases "id_at L (id_index i)")
    (auto simp: raftLog_matchTerm_def raftLog_term_eq [OF assms] term_result_def log_term_def)

section \<open>Reading entries\<close>

lemma log_range_split:
  assumes "prev_index s < lo" and "lo \<le> mid" and "mid \<le> hi"
  shows "log_range s lo hi = log_range s lo mid @ log_range s mid hi"
proof -
  have n: "unat (prev_index s) < unat lo" "unat lo \<le> unat mid" "unat mid \<le> unat hi"
    using assms by (simp_all add: word_less_nat_alt word_le_nat_alt)
  have "unat hi - unat lo = (unat mid - unat lo) + (unat hi - unat mid)" using n by simp
  moreover have "log_pos s mid - 1 = (unat mid - unat lo) + (log_pos s lo - 1)"
    using n by (simp add: log_pos_def)
  ultimately show ?thesis by (simp add: log_range_def take_add drop_drop)
qed

lemma length_log_range:
  assumes "slice_wf s" and "prev_index s < lo" and "lo \<le> hi" and "hi \<le> logSlice_lastIndex s + 1"
  shows "length (log_range s lo hi) = unat hi - unat lo"
proof -
  have "unat (logSlice_lastIndex s + 1) = unat (prev_index s) + length (ls_entries s) + 1"
    using unat_succ_u64 [OF lastIndex_less_max [OF assms(1)]] unat_lastIndex [OF assms(1)] by simp
  then have "unat (prev_index s) < unat lo" "unat lo \<le> unat hi"
      "unat hi \<le> unat (prev_index s) + length (ls_entries s) + 1"
    using assms(2-4) by (simp_all add: word_less_nat_alt word_le_nat_alt)
  then show ?thesis by (simp add: log_range_def log_pos_def)
qed

lemma log_range_empty [simp]: "log_range s i i = []"
  by (simp add: log_range_def)

lemma take_drop_append: "d + n \<le> length xs \<Longrightarrow> take n (drop d (xs @ ys)) = take n (drop d xs)"
  by simp

lemma take_drop_take: "d + n \<le> k \<Longrightarrow> take n (drop d (take k xs)) = take n (drop d xs)"
  by (simp add: drop_take min_def)

lemma log_range_join:
  assumes i: "in_log s (prev_index a)"
  shows "prev_index a < lo \<Longrightarrow> log_range (log_join s a) lo hi = log_range a lo hi"
    and "prev_index s < lo \<Longrightarrow> lo \<le> hi \<Longrightarrow> unat hi \<le> unat (prev_index a) + 1 \<Longrightarrow>
      log_range (log_join s a) lo hi = log_range s lo hi"
proof -
  let ?k = "log_pos s (prev_index a)"
  have k: "length (take ?k (ls_entries s)) = ?k" using log_pos_le [OF i] by simp
  show "log_range (log_join s a) lo hi = log_range a lo hi" if "prev_index a < lo"
  proof -
    have "log_pos s lo - 1 = ?k + (log_pos a lo - 1)"
      using that i by (simp add: log_pos_def in_log_def word_less_nat_alt)
    moreover have "log_pos (log_join s a) lo = log_pos s lo" by (simp add: log_pos_def)
    ultimately show ?thesis using k by (simp add: log_range_def log_join_def)
  qed
  show "log_range (log_join s a) lo hi = log_range s lo hi"
    if "prev_index s < lo" "lo \<le> hi" "unat hi \<le> unat (prev_index a) + 1"
  proof -
    let ?d = "log_pos s lo - 1" and ?n = "unat hi - unat lo"
    have "?d + ?n \<le> ?k"
      using that by (simp add: log_pos_def word_less_nat_alt word_le_nat_alt)
    then have "take ?n (drop ?d (take ?k (ls_entries s) @ ls_entries a)) = take ?n (drop ?d (ls_entries s))"
      using k take_drop_append [of ?d ?n "take ?k (ls_entries s)"] by (simp add: take_drop_take)
    moreover have "log_pos (log_join s a) lo = log_pos s lo" by (simp add: log_pos_def)
    ultimately show ?thesis by (simp add: log_range_def log_join_def)
  qed
qed

lemma unstable_slice_eq:
  assumes wf: "slice_wf (u_logSlice u)" and "id_index (u_prev u) < lo" and "lo \<le> hi"
    and "hi \<le> u_lastIndex u + 1"
  shows "unstable_slice lo hi u = Some (log_range (u_logSlice u) lo hi)"
proof -
  let ?p = "id_index (u_prev u)"
  have n: "unat ?p < unat lo" "unat lo \<le> unat hi" "unat hi \<le> unat ?p + length (u_entries u) + 1"
    using assms(2-4) unat_succ_u64 [OF lastIndex_less_max [OF wf]] unat_lastIndex [OF wf]
    by (simp_all add: word_less_nat_alt word_le_nat_alt)
  have o: "unat (lo - (?p + 1)) = unat lo - unat ?p - 1" "unat (hi - (?p + 1)) = unat hi - unat ?p - 1"
    using unat_offset [of ?p lo] unat_offset [of ?p hi] n by (simp_all add: algebra_simps)
  have "unat hi - unat ?p - 1 \<le> length (u_entries u)" "unat lo - unat ?p - 1 \<le> unat hi - unat ?p - 1"
      "unat hi - unat ?p - 1 - (unat lo - unat ?p - 1) = unat hi - unat lo"
    using n by linarith+
  then have "slice_range (u_entries u) (lo - (?p + 1)) (hi - (?p + 1)) = Some (log_range (u_logSlice u) lo hi)"
    by (simp add: slice_range_def o log_range_def log_pos_def)
  moreover have "unstable_mustCheckOutOfBounds lo hi u = Some ()"
    using assms(2-4) by (simp add: unstable_mustCheckOutOfBounds_def not_less not_le)
  ultimately show ?thesis by (simp add: unstable_slice_def)
qed

text \<open>
  Cutting a concatenation to the size limit in the two steps of \<open>slice\<close>, provided no
  entry has an empty encoding.
\<close>

definition sized_entries :: "codec \<Rightarrow> Entry list \<Rightarrow> bool" where
  "sized_entries cd es \<longleftrightarrow> (\<forall>e \<in> set es. 0 < Entry_Size cd e) \<and> sizes cd es < 2 ^ 64"

lemma sized_entries_append:
  "sized_entries cd (xs @ ys) \<Longrightarrow> sized_entries cd xs \<and> sized_entries cd ys"
  by (auto simp: sized_entries_def)

lemma limitSize_append:
  "xs \<noteq> [] \<Longrightarrow> limitSize cd (xs @ ys) maxSize =
     (if length (limitSize cd xs maxSize) < length xs then limitSize cd xs maxSize
      else xs @ limitSize_loop cd ys maxSize (sizes cd xs))"
  by (cases xs) (simp_all add: limitSize_def limitSize_loop_append Let_def)

lemma limitSize_Nil [simp]: "limitSize cd [] maxSize = []"
  by (simp add: limitSize_def)

lemma limitSize_full: "\<not> length (limitSize cd xs maxSize) < length xs \<Longrightarrow> limitSize cd xs maxSize = xs"
  using limitSize_prefix [of cd xs maxSize] by auto

text \<open>With the budget lowered by what was already taken, the loop cuts at the same entry.\<close>

lemma limitSize_loop_budget:
  assumes "sz + n + sizes cd es < 2 ^ 64" and "sz \<le> unat maxSize"
  shows "limitSize_loop cd es maxSize (sz + n) = limitSize_loop cd es (maxSize - of_nat sz) n"
  using assms
proof (induction es arbitrary: n)
  case (Cons e es)
  have u: "unat (maxSize - of_nat sz) = unat maxSize - sz"
    using Cons.prems by (subst unat_sub_u64) (simp_all add: word_le_nat_alt unat_of_nat_u64)
  have b: "(maxSize < of_nat (sz + n + Entry_Size cd e)) = (unat maxSize < sz + n + Entry_Size cd e)"
    "(maxSize - of_nat sz < of_nat (n + Entry_Size cd e)) = (unat maxSize - sz < n + Entry_Size cd e)"
    using Cons.prems u by (simp_all add: of_nat_less_iff_u64 del: of_nat_add)
  have "limitSize_loop cd es maxSize (sz + (n + Entry_Size cd e)) =
      limitSize_loop cd es (maxSize - of_nat sz) (n + Entry_Size cd e)"
    using Cons.prems by (intro Cons.IH) simp_all
  then show ?case
    using b Cons.prems(2) by (auto simp: Let_def ac_simps simp del: of_nat_add)
qed simp

lemma limitSize_two_steps:
  assumes ok: "sized_entries cd (xs @ ys)" and ne: "xs \<noteq> []" "ys \<noteq> []"
    and full: "limitSize cd xs maxSize = xs"
  shows "limitSize cd (xs @ ys) maxSize =
    (if maxSize \<le> entsSize cd xs then xs
     else let unst = limitSize cd ys (maxSize - entsSize cd xs) in
       if length unst = 1 \<and> maxSize < entsSize cd xs + entsSize cd unst then xs else xs @ unst)"
proof -
  obtain y ys' where ys: "ys = y # ys'" using ne(2) by (cases ys) auto
  let ?sz = "sizes cd xs"
  have b: "?sz + Entry_Size cd y + sizes cd ys' < 2 ^ 64" "0 < Entry_Size cd y"
    using ok by (auto simp: sized_entries_def ys)
  have e: "entsSize cd xs = of_nat ?sz" "unat (entsSize cd xs) = ?sz"
    using b by (simp_all add: entsSize_eq unat_of_nat_u64)
  have l: "limitSize cd (xs @ ys) maxSize = xs @ limitSize_loop cd ys maxSize ?sz"
    using limitSize_append [OF ne(1)] full by simp
  have c: "(maxSize < of_nat (?sz + Entry_Size cd y)) = (unat maxSize < ?sz + Entry_Size cd y)"
    using b(1) by (simp add: of_nat_less_iff_u64 del: of_nat_add)
  show ?thesis
  proof (cases "maxSize \<le> entsSize cd xs")
    case True
    then have "unat maxSize \<le> ?sz" using e(2) by (simp add: word_le_nat_alt)
    with c b(2) have "limitSize_loop cd ys maxSize ?sz = []" by (simp add: ys Let_def)
    with True l show ?thesis by simp
  next
    case False
    then have sz: "?sz \<le> unat maxSize" using e(2) by (simp add: word_le_nat_alt)
    let ?unst = "limitSize cd ys (maxSize - entsSize cd xs)"
    have un: "?unst = y # limitSize_loop cd ys' (maxSize - of_nat ?sz) (Entry_Size cd y)"
      by (simp add: limitSize_def ys e(1))
    have bd: "limitSize_loop cd ys' maxSize (?sz + Entry_Size cd y) =
        limitSize_loop cd ys' (maxSize - of_nat ?sz) (Entry_Size cd y)"
      using b(1) sz by (intro limitSize_loop_budget) simp_all
    have s1: "entsSize cd xs + entsSize cd [y] = of_nat (?sz + Entry_Size cd y)" by (simp add: entsSize_eq)
    show ?thesis
    proof (cases "unat maxSize < ?sz + Entry_Size cd y")
      case True
      have "limitSize_loop cd ys' (maxSize - of_nat ?sz) (Entry_Size cd y) = []"
      proof (cases ys')
        case (Cons z zs)
        have "maxSize < of_nat (?sz + Entry_Size cd y + Entry_Size cd z)"
          using True b(1) Cons by (subst of_nat_less_iff_u64) simp_all
        then show ?thesis using bd Cons by (simp add: Let_def del: of_nat_add)
      qed simp
      then have "?unst = [y]" using un by simp
      moreover have "maxSize < entsSize cd xs + entsSize cd [y]" using True c s1 by simp
      moreover have "limitSize_loop cd ys maxSize ?sz = []" using True c by (simp add: ys Let_def del: of_nat_add)
      ultimately show ?thesis using l False by simp
    next
      case no: False
      then have "limitSize_loop cd ys maxSize ?sz = ?unst"
        using c bd un by (simp add: ys Let_def del: of_nat_add)
      moreover have "\<not> (length ?unst = 1 \<and> maxSize < entsSize cd xs + entsSize cd ?unst)"
        using no c s1 un by (auto simp del: of_nat_add)
      ultimately show ?thesis using l False by (simp only: Let_def if_False)
    qed
  qed
qed

lemma log_repr_range_unstable:
  assumes "log_repr cd l L" and "id_index (u_prev (rl_unstable l)) < lo"
  shows "log_range (u_logSlice (rl_unstable l)) lo hi = log_range L lo hi"
  using assms(1)
proof (cases rule: log_repr_cases)
  case (plain S)
  then show ?thesis using log_range_join(1) [OF plain(3) assms(2)] by simp
qed simp

lemma log_repr_range_stable:
  assumes r: "log_repr cd l L" and lo: "prev_index L < lo" and "lo < hi"
    and hi: "hi \<le> id_index (u_prev (rl_unstable l)) + 1"
  shows "st_Entries (rl_storage l) lo hi maxSize = Some (Inr (limitSize cd (log_range L lo hi) maxSize))"
  using r
proof (cases rule: log_repr_cases)
  case (snap s)
  have "hi \<le> prev_index L + 1" using hi snap(2) by simp
  moreover have "prev_index L + 1 \<le> lo" using word_succ_le [OF lo] .
  ultimately show ?thesis using \<open>lo < hi\<close> by simp
next
  case (plain S)
  note S = storage_logD(1) [OF plain(2)]
  let ?p = "id_index (u_prev (rl_unstable l))"
  have pm: "?p < MaxUint64" using slice_wf_prev_less [OF unstable_invD(1) [OF plain(6)]] .
  have h: "unat hi \<le> unat ?p + 1" using hi unat_succ_u64 [OF pm] by (simp add: word_le_nat_alt)
  have "?p \<le> logSlice_lastIndex S" using plain(3) S by (simp add: in_log_iff)
  then have "hi \<le> logSlice_lastIndex S + 1"
    using h unat_succ_u64 [OF lastIndex_less_max [OF S]] by (simp add: word_le_nat_alt)
  then have "st_Entries (rl_storage l) lo hi maxSize = Some (Inr (limitSize cd (log_range S lo hi) maxSize))"
    using storage_logD(5) [OF plain(2) _ \<open>lo < hi\<close>] lo plain(5) by simp
  then show ?thesis
    using log_range_join(2) [OF plain(3), of lo hi] lo plain(5) h \<open>lo < hi\<close> by simp
qed

lemma mustCheckOutOfBounds_eq:
  assumes r: "log_repr cd l L" and "lo \<le> hi" and "hi \<le> logSlice_lastIndex L + 1"
  shows "raftLog_mustCheckOutOfBounds lo hi l = Some (if lo \<le> prev_index L then Some ErrCompacted else None)"
proof -
  note p = slice_wf_prev_less [OF log_repr_wf [OF r]]
  have "lo < prev_index L + 1 \<longleftrightarrow> lo \<le> prev_index L"
    using unat_succ_u64 [OF p] by (auto simp: word_less_nat_alt word_le_nat_alt)
  then show ?thesis
    using assms(2,3) by (simp add: raftLog_mustCheckOutOfBounds_def log_repr_first [OF r]
        log_repr_last [OF r] not_less Let_def add.commute)
qed

text \<open>
  Reading a range: the entries of the represented log, cut to the size limit as if they
  came from one place, or \<open>ErrCompacted\<close>.
\<close>

lemma raftLog_slice_eq:
  assumes r: "log_repr cd l L" and b: "lo \<le> hi" "hi \<le> logSlice_lastIndex L + 1"
    and sz: "sized_entries cd (log_range L lo hi)"
  shows "raftLog_slice cd lo hi maxSize l =
    Some (if lo \<le> prev_index L then Inl ErrCompacted else Inr (limitSize cd (log_range L lo hi) maxSize))"
proof -
  let ?u = "rl_unstable l" and ?p = "id_index (u_prev (rl_unstable l))"
  note wf = log_repr_wf [OF r] and uwf = unstable_invD(1) [OF log_repr_uinv [OF r]]
  note chk = mustCheckOutOfBounds_eq [OF r b]
  have last: "u_lastIndex ?u = logSlice_lastIndex L"
    using log_repr_last [OF r] by (simp add: raftLog_lastIndex_def)
  consider (comp) "lo \<le> prev_index L" | (empty) "prev_index L < lo" "lo = hi"
    | (unst) "prev_index L < lo" "lo < hi" "?p < lo"
    | (stab) "prev_index L < lo" "lo < hi" "lo \<le> ?p" "hi \<le> ?p + 1"
    | (both) "prev_index L < lo" "lo < hi" "lo \<le> ?p" "?p + 1 < hi"
    using b(1) by force
  then show ?thesis
  proof cases
    case comp
    then show ?thesis by (simp add: raftLog_slice_def chk)
  next
    case empty
    then show ?thesis using chk by (simp add: raftLog_slice_def limitSize_def not_le)
  next
    case unst
    then have "unstable_slice lo hi ?u = Some (log_range L lo hi)"
      using unstable_slice_eq [OF uwf unst(3)] b last log_repr_range_unstable [OF r unst(3)] by simp
    with unst show ?thesis by (simp add: raftLog_slice_def chk not_le)
  next
    case stab
    then show ?thesis
      using log_repr_range_stable [OF r stab(1,2,4)] leD [OF stab(3)]
      by (simp add: raftLog_slice_def chk not_le Let_def min_absorb1)
  next
    case both
    let ?xs = "log_range L lo (?p + 1)" and ?ys = "log_range L (?p + 1) hi"
    have pm: "?p < MaxUint64" using slice_wf_prev_less [OF uwf] .
    have p1: "lo < ?p + 1" "?p < ?p + 1" "?p + 1 \<le> logSlice_lastIndex L + 1"
      using both(3,4) b(2) word_less_succ [OF pm] by simp_all
    have pL: "prev_index L < ?p + 1" using both(1) p1(1) by simp
    have st: "st_Entries (rl_storage l) lo (?p + 1) maxSize = Some (Inr (limitSize cd ?xs maxSize))"
      using log_repr_range_stable [OF r both(1) p1(1)] by simp
    have un: "unstable_slice (?p + 1) hi ?u = Some ?ys"
      using unstable_slice_eq [OF uwf p1(2)] both(4) b(2) last log_repr_range_unstable [OF r p1(2)] by simp
    have split: "log_range L lo hi = ?xs @ ?ys"
      using log_range_split [OF both(1)] p1(1) both(4) by simp
    have lx: "length ?xs = unat (?p + 1) - unat lo" and ly: "length ?ys = unat hi - unat (?p + 1)"
      using length_log_range [OF wf both(1) _ p1(3)] length_log_range [OF wf pL _ b(2)] p1(1) both(4) by simp_all
    then have ne: "?xs \<noteq> []" "?ys \<noteq> []"
      using p1(1) both(4) by (auto simp: word_less_nat_alt)
    have "unat (?p + 1 - lo) = length ?xs" using lx p1(1) by (simp add: unat_sub_u64)
    moreover have "length (limitSize cd ?xs maxSize) < 2 ^ 64"
      using limitSize_prefix [of cd ?xs maxSize] lx u64_less [of "?p + 1"] by auto
    ultimately have len: "len64 (limitSize cd ?xs maxSize) < ?p + 1 - lo \<longleftrightarrow>
        length (limitSize cd ?xs maxSize) < length ?xs"
      by (simp add: word_less_nat_alt unat_len64)
    have cut: "min hi (?p + 1) = ?p + 1" "\<not> hi \<le> ?p + 1" using both(4) by auto
    show ?thesis
    proof (cases "length (limitSize cd ?xs maxSize) < length ?xs")
      case True
      then have "limitSize cd (?xs @ ?ys) maxSize = limitSize cd ?xs maxSize"
        using limitSize_append [OF ne(1)] by simp
      with True show ?thesis
        using both st cut len leD [OF both(3)] less_imp_neq [OF both(2)] by (simp add: raftLog_slice_def chk split not_le Let_def)
    next
      case False
      note full = limitSize_full [OF False]
      have "sized_entries cd (?xs @ ?ys)" using sz split by simp
      note two = limitSize_two_steps [OF this ne full]
      show ?thesis
        using both st cut len False un leD [OF both(3)] both(1)[THEN less_le_not_le[THEN iffD1]] less_imp_neq [OF both(2)]
        by (simp add: raftLog_slice_def chk split Let_def full two Log_Types.extend_def)
    qed
  qed
qed

section \<open>Matching and appending\<close>

text \<open>The log contains the entry with the given id, or starts right after it.\<close>

definition has_id :: "logSlice \<Rightarrow> entryID \<Rightarrow> bool" where
  "has_id L i \<longleftrightarrow> in_log L (id_index i) \<and> id_at L (id_index i) = i"

text \<open>The id at a position of a slice, counted from \<open>prev\<close>.\<close>

definition pos_id :: "logSlice \<Rightarrow> nat \<Rightarrow> entryID" where
  "pos_id a k = last_id (ls_prev a) (take k (ls_entries a))"

lemma pos_id_0 [simp]: "pos_id a 0 = ls_prev a"
  by (simp add: pos_id_def)

lemma pos_id_Suc: "k < length (ls_entries a) \<Longrightarrow> pos_id a (Suc k) = pbEntryID (ls_entries a ! k)"
  by (simp add: pos_id_def last_id_take_Suc)

lemma pos_id_index:
  assumes "slice_wf a" and "k \<le> length (ls_entries a)"
  shows "id_index (pos_id a k) = prev_index a + of_nat k"
    and "unat (id_index (pos_id a k)) = unat (prev_index a) + k"
    and "in_log a (id_index (pos_id a k))"
    and "id_at a (id_index (pos_id a k)) = pos_id a k"
    and "log_pos a (id_index (pos_id a k)) = k"
proof -
  show i: "id_index (pos_id a k) = prev_index a + of_nat k"
    using last_id_index [OF contig_take [OF slice_wfD(1) [OF assms(1)]], of k] assms(2)
    by (simp add: pos_id_def len64_def min_def)
  have "unat (prev_index a) + k < 2 ^ 64" using slice_wfD(3) [OF assms(1)] assms(2) by simp
  then show u: "unat (id_index (pos_id a k)) = unat (prev_index a) + k"
    unfolding i by (subst unat_add_u64) (simp_all add: unat_of_nat_u64)
  show "in_log a (id_index (pos_id a k))" using u assms(2) by (simp add: in_log_def)
  show p: "log_pos a (id_index (pos_id a k)) = k" using u by (simp add: log_pos_def)
  show "id_at a (id_index (pos_id a k)) = pos_id a k" unfolding id_at_def p by (simp add: pos_id_def)
qed

lemma in_log_pos:
  assumes "slice_wf a" and "in_log a i"
  shows "i = id_index (pos_id a (log_pos a i))" and "id_at a i = pos_id a (log_pos a i)"
  using id_at_index [OF assms] by (simp_all add: id_at_def pos_id_def)

lemma match_loop_eq:
  assumes r: "log_repr cd l L" and "k \<le> length (ls_entries a)"
  shows "\<exists>m. k \<le> m \<and> m \<le> length (ls_entries a) \<and>
    raftLog_match_loop l (drop k (ls_entries a)) (id_index (pos_id a k)) = Some (id_index (pos_id a m)) \<and>
    (\<forall>j. k < j \<and> j \<le> m \<longrightarrow> has_id L (pos_id a j)) \<and>
    (m < length (ls_entries a) \<longrightarrow> \<not> has_id L (pos_id a (Suc m)))"
  using assms(2)
proof (induction "length (ls_entries a) - k" arbitrary: k)
  case 0
  then show ?case by (intro exI [of _ k]) auto
next
  case (Suc n)
  then have k: "k < length (ls_entries a)" by simp
  have d: "drop k (ls_entries a) = ls_entries a ! k # drop (Suc k) (ls_entries a)"
    using k by (simp add: Cons_nth_drop_Suc)
  have m: "raftLog_matchTerm l (pbEntryID (ls_entries a ! k)) = Some (has_id L (pos_id a (Suc k)))"
    using raftLog_matchTerm_eq [OF r] pos_id_Suc [OF k] by (simp add: has_id_def)
  show ?case
  proof (cases "has_id L (pos_id a (Suc k))")
    case False
    then show ?thesis using k d m by (intro exI [of _ k]) auto
  next
    case True
    have n: "n = length (ls_entries a) - Suc k" "Suc k \<le> length (ls_entries a)" using Suc(2) k by simp_all
    obtain m' where m': "Suc k \<le> m'" "m' \<le> length (ls_entries a)"
        "raftLog_match_loop l (drop (Suc k) (ls_entries a)) (id_index (pos_id a (Suc k))) = Some (id_index (pos_id a m'))"
        "\<forall>j. Suc k < j \<and> j \<le> m' \<longrightarrow> has_id L (pos_id a j)"
        "m' < length (ls_entries a) \<longrightarrow> \<not> has_id L (pos_id a (Suc m'))"
      using Suc(1) [OF n] by blast
    have "has_id L (pos_id a j)" if "k < j" "j \<le> m'" for j
      using True m'(4) that by (cases "j = Suc k") auto
    moreover have "raftLog_match_loop l (drop k (ls_entries a)) (id_index (pos_id a k)) =
        Some (id_index (pos_id a m'))"
      using d m True m'(3) pos_id_Suc [OF k] by simp
    ultimately show ?thesis using m' by (intro exI [of _ m']) simp
  qed
qed

text \<open>
  \<open>match\<close> finds the longest matching prefix: everything up to the result is in the log,
  the entry after it is not.
\<close>

lemma raftLog_match_eq:
  assumes r: "log_repr cd l L" and a: "slice_wf a"
  obtains "\<not> has_id L (ls_prev a)" "raftLog_match l a = Some None"
  | m where "raftLog_match l a = Some (Some m)" "in_log a m"
    "\<And>j. in_log a j \<Longrightarrow> j \<le> m \<Longrightarrow> has_id L (id_at a j)"
    "m < logSlice_lastIndex a \<Longrightarrow> \<not> has_id L (id_at a (m + 1))"
proof (cases "has_id L (ls_prev a)")
  case False
  then have "raftLog_match l a = Some None"
    using raftLog_matchTerm_eq [OF r] by (simp add: raftLog_match_def has_id_def)
  with False show thesis by (rule that(1))
next
  case True
  obtain k where k: "k \<le> length (ls_entries a)"
      "raftLog_match_loop l (ls_entries a) (prev_index a) = Some (id_index (pos_id a k))"
      "\<forall>j. 0 < j \<and> j \<le> k \<longrightarrow> has_id L (pos_id a j)"
      "k < length (ls_entries a) \<longrightarrow> \<not> has_id L (pos_id a (Suc k))"
    using match_loop_eq [OF r, of 0 a] by auto
  let ?m = "id_index (pos_id a k)"
  note ix = pos_id_index [OF a k(1)]
  show thesis
  proof (rule that(2))
    show "raftLog_match l a = Some (Some ?m)"
      using True k(2) raftLog_matchTerm_eq [OF r] by (simp add: raftLog_match_def has_id_def)
    show "in_log a ?m" by (rule ix(3))
    show "has_id L (id_at a j)" if "in_log a j" "j \<le> ?m" for j
    proof -
      have "log_pos a j \<le> k" using that(2) ix(2) by (simp add: log_pos_def word_le_nat_alt)
      with k(3) True show ?thesis
        using in_log_pos(2) [OF a that(1)] by (cases "log_pos a j = 0") auto
    qed
    show "\<not> has_id L (id_at a (?m + 1))" if "?m < logSlice_lastIndex a"
    proof -
      have kl: "k < length (ls_entries a)"
        using that ix(2) unat_lastIndex [OF a] by (simp add: word_less_nat_alt)
      then have "id_index (pos_id a (Suc k)) = ?m + 1"
        using pos_id_index(1) [OF a, of "Suc k"] ix(1) by simp
      then have "id_at a (?m + 1) = pos_id a (Suc k)"
        using pos_id_index(4) [OF a, of "Suc k"] kl by simp
      with k(4) kl show ?thesis by simp
    qed
  qed
qed

subsection \<open>Appending\<close>

lemma log_join_assoc:
  assumes "in_log s (prev_index b)" and "prev_index b \<le> prev_index a" and "in_log b (prev_index a)"
  shows "log_join (log_join s b) a = log_join s (log_join b a)"
proof -
  have "log_pos s (prev_index a) = log_pos s (prev_index b) + log_pos b (prev_index a)"
    using assms by (simp add: log_pos_def in_log_def word_le_nat_alt)
  moreover have "length (take (log_pos s (prev_index b)) (ls_entries s)) = log_pos s (prev_index b)"
    using log_pos_le [OF assms(1)] by simp
  moreover have "log_pos (log_join s b) (prev_index a) = log_pos s (prev_index a)"
    by (simp add: log_pos_def)
  ultimately show ?thesis by (simp add: log_join_def min_def)
qed

lemma log_join_overwrite:
  assumes "in_log s (prev_index b)" and "prev_index a \<le> prev_index b"
  shows "log_join (log_join s b) a = log_join s a"
proof -
  have "log_pos s (prev_index a) \<le> log_pos s (prev_index b)"
    using assms(2) by (simp add: log_pos_def word_le_nat_alt diff_le_mono)
  moreover have "length (take (log_pos s (prev_index b)) (ls_entries s)) = log_pos s (prev_index b)"
    using log_pos_le [OF assms(1)] by simp
  moreover have "log_pos (log_join s b) (prev_index a) = log_pos s (prev_index a)"
    by (simp add: log_pos_def)
  ultimately show ?thesis by (simp add: log_join_def min_def)
qed

definition accepts :: "logSlice \<Rightarrow> logSlice \<Rightarrow> bool" where
  "accepts L a \<longleftrightarrow> ls_term L < ls_term a \<or> ls_term L = ls_term a \<and> prev_index a = logSlice_lastIndex L"

lemma log_repr_prev_matches:
  assumes r: "log_repr cd l L" and h: "has_id L (ls_prev a)"
  shows "prev_matches (rl_unstable l) a"
    and "append_accepted (rl_unstable l) a \<longleftrightarrow> accepts L a"
proof -
  note wf = log_repr_wf [OF r] and uwf = unstable_invD(1) [OF log_repr_uinv [OF r]]
  have last: "u_lastIndex (rl_unstable l) = logSlice_lastIndex L"
    using log_repr_last [OF r] by (simp add: raftLog_lastIndex_def)
  have i: "in_log L (prev_index a)" "id_at L (prev_index a) = ls_prev a" using h by (simp_all add: has_id_def)
  have "u_snapshot (rl_unstable l) = None" if "prev_index a < prev_index (u_logSlice (rl_unstable l))"
    using r
  proof (cases rule: log_repr_cases)
    case (snap s)
    with that i(1) wf show ?thesis by (auto simp: in_log_iff)
  qed
  then show "prev_matches (rl_unstable l) a"
    using i(2) log_repr_unstable [OF r] uwf by (auto simp: prev_matches_def in_log_iff)
  show "append_accepted (rl_unstable l) a \<longleftrightarrow> accepts L a"
    using i(1) wf log_repr_accTerm [OF r] last by (auto simp: append_accepted_def accepts_def in_log_iff)
qed

lemma log_repr_appended:
  assumes r: "log_repr cd l L" and a: "slice_wf a" and h: "has_id L (ls_prev a)" and acc: "accepts L a"
  shows "log_repr cd (l\<lparr>rl_unstable := appended (rl_unstable l) a\<rparr>) (log_join L a)"
proof -
  let ?u = "rl_unstable l" and ?U = "u_logSlice (rl_unstable l)"
  note m = log_repr_prev_matches [OF r h]
  have inv: "unstable_inv (appended ?u a)"
    using appended_inv [OF log_repr_uinv [OF r] m(1) a] m(2) acc by simp
  have i: "in_log L (prev_index a)" "id_at L (prev_index a) = ls_prev a" using h by (simp_all add: has_id_def)
  have "prev_index a \<le> u_lastIndex ?u"
    using i(1) log_repr_wf [OF r] log_repr_last [OF r] by (simp add: in_log_iff raftLog_lastIndex_def)
  then have iu: "in_log ?U (prev_index a)" if "\<not> prev_index a < prev_index ?U"
    using that unstable_invD(1) [OF log_repr_uinv [OF r]] by (simp add: in_log_iff)
  show ?thesis using r
  proof (cases rule: log_repr_cases)
    case (snap s)
    then have "\<not> prev_index a < prev_index ?U" using m(1) by (auto simp: prev_matches_def)
    with snap inv show ?thesis by (simp add: log_repr_def appended_def)
  next
    case (plain S)
    note S = storage_logD(1) [OF plain(2)]
    show ?thesis
    proof (cases "prev_index a < prev_index ?U")
      case True
      have "in_log S (prev_index a)"
        using True i(1) plain(3,5) S log_repr_wf [OF r] by (auto simp: in_log_iff)
      moreover have "id_at S (prev_index a) = ls_prev a"
        using id_at_join(1) [OF S plain(3,4) calculation] True i(2) plain(5) by simp
      ultimately show ?thesis
        using True plain inv log_join_overwrite [OF plain(3), of a]
        by (auto simp: log_repr_def appended_def)
    next
      case False
      then show ?thesis
        using plain inv log_join_assoc [OF plain(3) _ iu [OF False]]
        by (auto simp: log_repr_def appended_def not_less)
    qed
  qed
qed

text \<open>The outcomes of \<open>maybeAppend\<close> in terms of the represented log.\<close>

lemma raftLog_maybeAppend_cases:
  assumes r: "log_repr cd l L" and a: "slice_wf a"
  obtains (mismatch) "\<not> has_id L (ls_prev a)" "raftLog_maybeAppend a l = Some (l, False)"
  | (known) "\<And>j. in_log a j \<Longrightarrow> has_id L (id_at a j)" "raftLog_maybeAppend a l = Some (l, True)"
  | (rest) m where "in_log a m" "m < logSlice_lastIndex a" "\<not> has_id L (id_at a (m + 1))"
    "\<And>j. in_log a j \<Longrightarrow> j \<le> m \<Longrightarrow> has_id L (id_at a j)"
    "raftLog_maybeAppend a l =
      (if m < rl_committed l then None
       else Some (if accepts L (log_suffix a m)
         then (l\<lparr>rl_unstable := appended (rl_unstable l) (log_suffix a m)\<rparr>, True) else (l, False)))"
  using raftLog_match_eq [OF r a]
proof cases
  case 1
  then have "raftLog_maybeAppend a l = Some (l, False)" by (simp add: raftLog_maybeAppend_def)
  with 1(1) show thesis by (rule that(1))
next
  case (2 m)
  note sfx = log_suffix_wf [OF a 2(2)]
  have fw: "logSlice_forward a m = Some (log_suffix a m)" by (rule forward_eq [OF a 2(2)])
  have pm: "prev_index (log_suffix a m) = m" using id_at_index [OF a 2(2)] by (simp add: log_suffix_def)
  show thesis
  proof (cases "ls_entries (log_suffix a m)")
    case Nil
    then have "logSlice_lastIndex (log_suffix a m) = m" using pm by (simp add: logSlice_lastIndex_def)
    then have "m = logSlice_lastIndex a" using log_suffix_last(1) [OF a 2(2)] by simp
    then have "has_id L (id_at a j)" if "in_log a j" for j
      using that a 2(3) by (simp add: in_log_iff)
    moreover have "raftLog_maybeAppend a l = Some (l, True)"
      using 2(1) fw Nil by (simp add: raftLog_maybeAppend_def)
    ultimately show thesis by (rule that(2))
  next
    case (Cons e es)
    have "unat (logSlice_lastIndex a) = unat m + length (e # es)"
      using unat_lastIndex [OF sfx] log_suffix_last(1) [OF a 2(2)] pm Cons by simp
    then have ml: "m < logSlice_lastIndex a" by (simp add: word_less_nat_alt)
    have "contig (ls_prev (log_suffix a m)) (e # es)" using slice_wfD(1) [OF sfx] Cons by simp
    then have ei: "e_Index e = m + 1" using pm by simp
    have h: "has_id L (ls_prev (log_suffix a m))" using 2(2,3) by (simp add: log_suffix_def)
    note t = unstable_truncateAndAppend_result [OF log_repr_uinv [OF r] log_repr_prev_matches(1) [OF r h]]
    have "m + 1 \<le> rl_committed l \<longleftrightarrow> m < rl_committed l"
      using unat_succ_u64 [OF ml] by (auto simp: word_less_nat_alt word_le_nat_alt)
    then have "raftLog_maybeAppend a l =
      (if m < rl_committed l then None
       else Some (if accepts L (log_suffix a m)
         then (l\<lparr>rl_unstable := appended (rl_unstable l) (log_suffix a m)\<rparr>, True) else (l, False)))"
      using 2(1) fw Cons ei t log_repr_prev_matches(2) [OF r h]
      by (simp add: raftLog_maybeAppend_def)
    with 2(2) ml 2(4) [OF ml] 2(3) show thesis by (rule that(3))
  qed
qed

lemma raftLog_append_cases:
  assumes r: "log_repr cd l L"
  shows "raftLog_append a l =
    (if ls_term L \<le> ls_term a \<and> ls_prev a = logSlice_lastEntryID L
     then (l\<lparr>rl_unstable := appended (rl_unstable l) a\<rparr>, True) else (l, False))"
  using unstable_append_result [OF log_repr_uinv [OF r], of a] log_repr_accTerm [OF r] log_repr_lastID [OF r]
  by (simp add: raftLog_append_def)

lemma has_id_last: "slice_wf L \<Longrightarrow> has_id L (logSlice_lastEntryID L)"
  by (simp add: has_id_def lastIndex_lastEntryID id_at_last)

lemma raftLog_append_repr:
  assumes r: "log_repr cd l L" and a: "slice_wf a" and t: "ls_term L \<le> ls_term a"
    and p: "ls_prev a = logSlice_lastEntryID L"
  shows "log_repr cd (l\<lparr>rl_unstable := appended (rl_unstable l) a\<rparr>) (log_join L a)"
proof -
  have "accepts L a"
    using t p lastIndex_lastEntryID [OF log_repr_wf [OF r]] by (auto simp: accepts_def)
  then show ?thesis
    using log_repr_appended [OF r a] has_id_last [OF log_repr_wf [OF r]] p by simp
qed

text \<open>A joined log has the ids of both parts.\<close>

lemma has_id_join:
  assumes L: "slice_wf L" and a: "slice_wf a" and h: "has_id L (ls_prev a)"
  shows "in_log a j \<Longrightarrow> has_id (log_join L a) (id_at a j)"
    and "in_log L j \<Longrightarrow> j \<le> prev_index a \<Longrightarrow> has_id (log_join L a) (id_at L j)"
proof -
  have i: "in_log L (prev_index a)" "id_at L (prev_index a) = ls_prev a" using h by (simp_all add: has_id_def)
  note j = log_join_wf [OF L a i] and e = id_at_join [OF L i]
  show "has_id (log_join L a) (id_at a j)" if "in_log a j"
  proof -
    have "in_log (log_join L a) j" "prev_index a \<le> j"
      using that j(1,2) L a i(1) by (auto simp: in_log_iff)
    with e(2) id_at_index [OF a that] show ?thesis by (simp add: has_id_def)
  qed
  show "has_id (log_join L a) (id_at L j)" if "in_log L j" "j \<le> prev_index a"
  proof -
    have "in_log (log_join L a) j"
      using that j(1,2) L a prev_le_last [OF a] by (auto simp: in_log_iff)
    with that e(1) id_at_index [OF L that(1)] show ?thesis by (simp add: has_id_def)
  qed
qed

section \<open>Guessing the conflict\<close>

definition conflict_guess :: "logSlice \<Rightarrow> u64 \<Rightarrow> u64 \<Rightarrow> u64 \<times> u64 \<Rightarrow> bool" where
  "conflict_guess L index term r \<longleftrightarrow>
     (case r of (g, t) \<Rightarrow>
        g \<le> index \<and>
        (\<forall>j. g < j \<and> j \<le> index \<longrightarrow> in_log L j \<and> term < id_term (id_at L j)) \<and>
        (g = 0 \<and> t = 0 \<or> \<not> in_log L g \<and> t = 0 \<or> in_log L g \<and> t = id_term (id_at L g) \<and> t \<le> term))"

lemma findConflictByTerm_loop_eq:
  assumes r: "log_repr cd l L" and "n < 2 ^ 64"
  shows "\<exists>g. findConflictByTerm_loop l term n = Some g \<and> conflict_guess L (of_nat n) term g"
  using assms(2)
proof (induction n)
  case 0
  then show ?case by (auto simp: conflict_guess_def)
next
  case (Suc n)
  let ?i = "of_nat (Suc n) :: u64"
  have n: "unat ?i = Suc n" "unat (of_nat n :: u64) = n" using Suc.prems by (simp_all only: unat_of_nat_u64)
  consider (out) "\<not> in_log L ?i" | (small) "in_log L ?i" "id_term (id_at L ?i) \<le> term"
    | (big) "in_log L ?i" "term < id_term (id_at L ?i)" by force
  then show ?case
  proof cases
    case out
    then show ?thesis
      by (auto simp: raftLog_term_eq [OF r] term_result_def log_term_def conflict_guess_def Let_def)
  next
    case small
    then show ?thesis
      by (auto simp: raftLog_term_eq [OF r] term_result_def log_term_def conflict_guess_def Let_def)
  next
    case big
    obtain g where g: "findConflictByTerm_loop l term n = Some g" "conflict_guess L (of_nat n) term g"
      using Suc by auto
    have "findConflictByTerm_loop l term (Suc n) = Some g"
      using big(1) big(2)[unfolded not_le [symmetric]] g(1)
      by (simp add: raftLog_term_eq [OF r] term_result_def log_term_def Let_def del: of_nat_Suc not_le)
    moreover have "j \<le> ?i \<longleftrightarrow> j \<le> of_nat n \<or> j = ?i" for j :: u64
      using n by (metis le_Suc_eq word_le_nat_alt word_unat_eq_iff)
    ultimately show ?thesis
      using g(2) big unfolding conflict_guess_def by (intro exI [of _ g]) (auto simp del: of_nat_Suc)
  qed
qed

lemma raftLog_findConflictByTerm_eq:
  assumes "log_repr cd l L"
  shows "\<exists>g. raftLog_findConflictByTerm l index term = Some g \<and> conflict_guess L index term g"
  using findConflictByTerm_loop_eq [OF assms, of "unat index" "term"] u64_less [of index]
  by (simp add: raftLog_findConflictByTerm_def)

section \<open>Scanning\<close>

text \<open>Passing a list of pages to a callback, one by one, until it fails.\<close>

fun feed :: "(Entry list \<Rightarrow> 's \<Rightarrow> ('s \<times> storage_error option) go) \<Rightarrow> Entry list list \<Rightarrow> 's \<Rightarrow>
    ('s \<times> storage_error option) go" where
  "feed v [] s = Some (s, None)"
| "feed v (p # ps) s = do {
     (s, err) \<leftarrow> v p s;
     case err of Some e \<Rightarrow> Some (s, Some e) | None \<Rightarrow> feed v ps s
   }"

lemma sized_entries_range:
  assumes "sized_entries cd (log_range L lo hi)" and "prev_index L < lo" and "lo \<le> mid" and "mid \<le> hi"
  shows "sized_entries cd (log_range L mid hi)"
  using assms(1) sized_entries_append log_range_split [OF assms(2-4)] by metis

lemma raftLog_scan_pages:
  assumes r: "log_repr cd l L" and lo: "prev_index L < lo" "lo \<le> hi" and hi: "hi \<le> logSlice_lastIndex L + 1"
    and sz: "sized_entries cd (log_range L lo hi)"
  shows "\<exists>pages. concat pages = log_range L lo hi \<and>
    list_all (\<lambda>p. p \<noteq> [] \<and> (length p = 1 \<or> sizes cd p \<le> unat pageSize)) pages \<and>
    (\<forall>s. raftLog_scan cd l hi pageSize v lo s = feed v pages s)"
  using lo sz
proof (induction "unat hi - unat lo" arbitrary: lo rule: less_induct)
  case less
  show ?case
  proof (cases "lo < hi")
    case False
    with less.prems have "lo = hi" by simp
    then show ?thesis by (intro exI [of _ "[]"]) (simp add: raftLog_scan.simps)
  next
    case True
    let ?es = "log_range L lo hi"
    have len: "length ?es = unat hi - unat lo"
      using length_log_range [OF log_repr_wf [OF r] less.prems(1,2) hi] .
    have lt: "unat lo < unat hi" using True by (simp add: word_less_nat_alt)
    with len have ne: "?es \<noteq> []" by auto
    obtain k where k: "0 < k" "k \<le> length ?es" "limitSize cd ?es pageSize = take k ?es"
        "k = 1 \<or> sizes cd (take k ?es) \<le> unat pageSize"
      using limitSize_longest [of cd ?es pageSize] less.prems(3) ne by (auto simp: sized_entries_def)
    let ?mid = "lo + of_nat k"
    have kb: "unat lo + k < 2 ^ 64" using k(2) len lt u64_less [of hi] by linarith
    have mid: "unat ?mid = unat lo + k"
      using kb by (subst unat_add_u64) (simp_all add: unat_of_nat_u64)
    have m: "lo \<le> ?mid" "?mid \<le> hi" "prev_index L < ?mid"
      using mid k(2) len lt less.prems(1) by (simp_all add: word_le_nat_alt word_less_nat_alt)
    have split: "?es = log_range L lo ?mid @ log_range L ?mid hi"
      by (rule log_range_split [OF less.prems(1) m(1,2)])
    have "?mid \<le> logSlice_lastIndex L + 1" using m(2) hi by simp
    then have "length (log_range L lo ?mid) = k"
      using length_log_range [OF log_repr_wf [OF r] less.prems(1) m(1)] mid by simp
    then have page: "take k ?es = log_range L lo ?mid" using split by simp
    have "unat hi - unat ?mid < unat hi - unat lo" using mid k(1) lt by simp
    from less.hyps [OF this m(3,2) sized_entries_range [OF less.prems(3,1) m(1,2)]]
    obtain pages where p: "concat pages = log_range L ?mid hi"
        "list_all (\<lambda>p. p \<noteq> [] \<and> (length p = 1 \<or> sizes cd p \<le> unat pageSize)) pages"
        "\<And>s. raftLog_scan cd l hi pageSize v ?mid s = feed v pages s" by blast
    have sl: "raftLog_slice cd lo hi pageSize l = Some (Inr (take k ?es))"
      using raftLog_slice_eq [OF r less.prems(2) hi less.prems(3)] less.prems(1) k(3) by (simp add: not_le)
    have fn: "raftLog_scan cd l hi pageSize v ?mid = feed v pages" by (rule ext) (rule p(3))
    have "raftLog_scan cd l hi pageSize v lo s = feed v (take k ?es # pages) s" for s
      using True sl k(1,2) ne fn
      by (subst raftLog_scan.simps) (simp add: len64_def min_def)
    moreover have "concat (take k ?es # pages) = ?es" using p(1) page split by simp
    ultimately show ?thesis
      using k p(2) ne by (intro exI [of _ "take k ?es # pages"]) (auto simp: min_def)
  qed
qed

section \<open>Commit and apply positions\<close>

text \<open>
  The order of the positions. Entries are not applied while a snapshot is pending, and
  the application of entries is paused at the latest when the budget is used up.
\<close>

definition log_inv :: "codec \<Rightarrow> raftLog \<Rightarrow> logSlice \<Rightarrow> bool" where
  "log_inv cd l L \<longleftrightarrow>
     log_repr cd l L \<and>
     rl_applied l \<le> rl_applying l \<and> rl_applying l \<le> rl_committed l \<and>
     rl_committed l \<le> logSlice_lastIndex L \<and> prev_index L \<le> rl_committed l \<and>
     (u_snapshot (rl_unstable l) = None \<longrightarrow> prev_index L \<le> rl_applying l) \<and>
     (rl_applyingEntsPaused l \<or> rl_applyingEntsSize l < rl_maxApplyingEntsSize l)"

lemma log_invD:
  assumes "log_inv cd l L"
  shows "log_repr cd l L" and "rl_applied l \<le> rl_applying l" and "rl_applying l \<le> rl_committed l"
    and "rl_committed l \<le> logSlice_lastIndex L" and "prev_index L \<le> rl_committed l"
    and "u_snapshot (rl_unstable l) = None \<Longrightarrow> prev_index L \<le> rl_applying l"
    and "rl_applyingEntsPaused l \<or> rl_applyingEntsSize l < rl_maxApplyingEntsSize l"
  using assms by (auto simp: log_inv_def)

lemma log_repr_positions:
  "log_repr cd (l\<lparr>rl_committed := c\<rparr>) L = log_repr cd l L"
  "log_repr cd (l\<lparr>rl_applying := c\<rparr>) L = log_repr cd l L"
  "log_repr cd (l\<lparr>rl_applied := c\<rparr>) L = log_repr cd l L"
  "log_repr cd (l\<lparr>rl_applyingEntsSize := c\<rparr>) L = log_repr cd l L"
  "log_repr cd (l\<lparr>rl_applyingEntsPaused := b\<rparr>) L = log_repr cd l L"
  by (simp_all add: log_repr_def)

lemma raftLog_commitTo_inv:
  assumes "log_inv cd l L"
  shows "raftLog_commitTo mark l =
    (if logSlice_lastIndex L < lm_Index mark \<and> rl_committed l < lm_Index mark then None
     else Some (l\<lparr>rl_committed := max (rl_committed l) (lm_Index mark)\<rparr>))"
    and "lm_Index mark \<le> logSlice_lastIndex L \<Longrightarrow>
      log_inv cd (l\<lparr>rl_committed := max (rl_committed l) (lm_Index mark)\<rparr>) L"
  using log_invD(3-5) [OF assms] assms
  by (auto simp: raftLog_commitTo_def log_repr_last [OF log_invD(1) [OF assms]] log_inv_def
      log_repr_positions max_def split: if_splits)

lemma raftLog_appliedTo_inv:
  assumes "log_inv cd l L" and "rl_applied l \<le> i" and "i \<le> rl_committed l"
  shows "\<exists>l'. raftLog_appliedTo i sz l = Some l' \<and> log_inv cd l' L \<and> rl_applied l' = i \<and>
    rl_committed l' = rl_committed l \<and> rl_applying l' = max (rl_applying l) i"
proof -
  have "\<not> (rl_committed l < i \<or> i < rl_applied l)" using assms(2,3) by auto
  then show ?thesis
    using assms log_invD [OF assms(1)]
    by (auto simp: raftLog_appliedTo_def log_inv_def log_repr_positions Let_def max_def word_gt_0)
qed

lemma raftLog_acceptApplying_inv:
  assumes "log_inv cd l L" and "rl_applying l \<le> i" and "i \<le> rl_committed l"
  shows "\<exists>l'. raftLog_acceptApplying i sz allow l = Some l' \<and> log_inv cd l' L \<and> rl_applying l' = i \<and>
    rl_committed l' = rl_committed l \<and> rl_applied l' = rl_applied l"
proof -
  have "\<not> rl_committed l < i" using assms(3) by auto
  then show ?thesis
    using assms log_invD [OF assms(1)]
    by (auto simp: raftLog_acceptApplying_def log_inv_def Let_def log_repr_positions)
qed

lemma sized_entries_log_range: "sized_entries cd (ls_entries L) \<Longrightarrow> sized_entries cd (log_range L lo hi)"
  by (metis append_take_drop_id log_range_def sized_entries_append)

lemma log_repr_prev_le_last:
  assumes "log_repr cd l L"
  shows "in_log L (id_index (u_prev (rl_unstable l)))"
proof -
  have "id_index (u_prev (rl_unstable l)) \<le> logSlice_lastIndex L"
    using prev_le_last [OF unstable_invD(1) [OF log_repr_uinv [OF assms]]] log_repr_last [OF assms]
    by (simp add: raftLog_lastIndex_def)
  then show ?thesis using log_repr_prev [OF assms] log_repr_wf [OF assms] by (simp add: in_log_iff)
qed

text \<open>What is handed out for application: the committed entries after \<open>applying\<close>, in order.\<close>

lemma raftLog_nextCommittedEnts_eq:
  assumes inv: "log_inv cd l L" and sz: "sized_entries cd (ls_entries L)"
  shows "raftLog_nextCommittedEnts cd allow l =
    Some (if rl_applyingEntsPaused l \<or> u_snapshot (rl_unstable l) \<noteq> None then []
      else limitSize cd (log_range L (rl_applying l + 1) (raftLog_maxAppliableIndex allow l + 1))
        (rl_maxApplyingEntsSize l - rl_applyingEntsSize l))"
proof (cases "rl_applyingEntsPaused l \<or> u_snapshot (rl_unstable l) \<noteq> None")
  case True
  then show ?thesis by (auto simp: raftLog_nextCommittedEnts_def raftLog_hasNextOrInProgressSnapshot_def)
next
  case False
  note d = log_invD [OF inv] and wf = log_repr_wf [OF log_invD(1) [OF inv]]
  let ?hi = "raftLog_maxAppliableIndex allow l"
  have hic: "?hi \<le> rl_committed l" by (simp add: raftLog_maxAppliableIndex_def Let_def)
  have cm: "rl_committed l < MaxUint64" using d(4) lastIndex_less_max [OF wf] by simp
  have am: "rl_applying l < MaxUint64" and hm: "?hi < MaxUint64" and lm: "logSlice_lastIndex L < MaxUint64"
    using cm d(3) hic lastIndex_less_max [OF wf] by simp_all
  note u = unat_succ_u64 [OF am] unat_succ_u64 [OF hm] unat_succ_u64 [OF lm]
  show ?thesis
  proof (cases "?hi + 1 \<le> rl_applying l + 1")
    case True
    then have "log_range L (rl_applying l + 1) (?hi + 1) = []" by (simp add: log_range_def word_le_nat_alt)
    with True False show ?thesis
      by (simp add: raftLog_nextCommittedEnts_def raftLog_hasNextOrInProgressSnapshot_def)
  next
    case lt: False
    have "prev_index L \<le> rl_applying l" using d(6) False by simp
    then have lo: "\<not> rl_applying l + 1 \<le> prev_index L" using u(1) by (simp add: word_le_nat_alt)
    have hi: "rl_applying l + 1 \<le> ?hi + 1" "?hi + 1 \<le> logSlice_lastIndex L + 1"
      using lt hic d(4) u by (simp_all add: word_le_nat_alt)
    have "rl_maxApplyingEntsSize l \<noteq> rl_applyingEntsSize l" using d(7) False by auto
    then show ?thesis
      using False lt lo raftLog_slice_eq [OF d(1) hi sized_entries_log_range [OF sz]]
      by (simp add: raftLog_nextCommittedEnts_def raftLog_hasNextOrInProgressSnapshot_def Let_def)
  qed
qed

lemma raftLog_hasNextCommittedEnts_eq:
  assumes inv: "log_inv cd l L" and sz: "sized_entries cd (ls_entries L)"
  shows "raftLog_hasNextCommittedEnts allow l \<longleftrightarrow> raftLog_nextCommittedEnts cd allow l \<noteq> Some []"
proof -
  note d = log_invD [OF inv] and wf = log_repr_wf [OF log_invD(1) [OF inv]]
  let ?lo = "rl_applying l + 1" and ?hi = "raftLog_maxAppliableIndex allow l + 1"
  have hic: "raftLog_maxAppliableIndex allow l \<le> logSlice_lastIndex L"
    using d(4) by (auto simp: raftLog_maxAppliableIndex_def Let_def min_le_iff_disj)
  have "log_range L ?lo ?hi = [] \<longleftrightarrow> \<not> ?lo < ?hi" if "u_snapshot (rl_unstable l) = None"
  proof (cases "?lo < ?hi")
    case True
    have "rl_applying l < MaxUint64" "raftLog_maxAppliableIndex allow l < MaxUint64"
      using d(3,4) hic lastIndex_less_max [OF wf] by simp_all
    note u = unat_succ_u64 [OF this(1)] unat_succ_u64 [OF this(2)] unat_succ_u64 [OF lastIndex_less_max [OF wf]]
    have "prev_index L < ?lo" "?hi \<le> logSlice_lastIndex L + 1"
      using d(6) [OF that] hic u by (simp_all add: word_le_nat_alt word_less_nat_alt)
    from length_log_range [OF wf this(1) less_imp_le [OF True] this(2)] True show ?thesis
      by (auto simp: word_less_nat_alt)
  qed (simp add: log_range_def word_less_nat_alt)
  then show ?thesis
    using raftLog_nextCommittedEnts_eq [OF assms, of allow]
    by (auto simp: raftLog_hasNextCommittedEnts_def raftLog_hasNextOrInProgressSnapshot_def limitSize_nonempty)
qed

section \<open>Storage writes\<close>

text \<open>The storage starts at the same entry as \<open>L\<close> and holds its entries up to \<open>i\<close>.\<close>

definition durable :: "codec \<Rightarrow> Storage \<Rightarrow> logSlice \<Rightarrow> u64 \<Rightarrow> bool" where
  "durable cd st L i \<longleftrightarrow>
     (\<exists>S. storage_log cd st S \<and> ls_prev S = ls_prev L \<and> in_log S i \<and>
        take (log_pos L i) (ls_entries S) = take (log_pos L i) (ls_entries L))"

lemma log_repr_suffix:
  assumes "log_repr cd l L"
  shows "u_logSlice (rl_unstable l) = log_suffix L (id_index (u_prev (rl_unstable l)))"
  using assms
proof (cases rule: log_repr_cases)
  case (snap s)
  then show ?thesis by (simp add: log_suffix_def log_pos_def)
next
  case (plain S)
  have "id_at L (id_index (u_prev (rl_unstable l))) = u_prev (rl_unstable l)"
    using log_repr_unstable [OF assms, of "id_index (u_prev (rl_unstable l))"] by simp
  moreover have "drop (log_pos S (id_index (u_prev (rl_unstable l)))) (ls_entries L) = u_entries (rl_unstable l)"
    using plain(5) log_pos_le [OF plain(3)] by (simp add: log_join_def)
  moreover have "log_pos L i = log_pos S i" for i using plain(5) by (simp add: log_pos_def)
  ultimately show ?thesis using plain(5) by (simp add: log_suffix_def log_join_def)
qed

lemma log_repr_intro:
  assumes inv: "unstable_inv (rl_unstable l)" and n: "u_snapshot (rl_unstable l) = None"
    and wf: "slice_wf L" and p: "in_log L p" and u: "u_logSlice (rl_unstable l) = log_suffix L p"
    and d: "durable cd (rl_storage l) L p"
  shows "log_repr cd l L"
proof -
  obtain S where S: "storage_log cd (rl_storage l) S" "ls_prev S = ls_prev L" "in_log S p"
      "take (log_pos L p) (ls_entries S) = take (log_pos L p) (ls_entries L)"
    using d by (auto simp: durable_def)
  have q: "log_pos S i = log_pos L i" for i using S(2) by (simp add: log_pos_def)
  have pi: "id_index (u_prev (rl_unstable l)) = p" and up: "u_prev (rl_unstable l) = id_at L p"
    using u id_at_index [OF wf p] by (simp_all add: log_suffix_def)
  have "id_at S p = id_at L p" using S(2,4) by (simp add: id_at_def q)
  moreover have "L = log_join S (u_logSlice (rl_unstable l))"
    using S(2,4) pi u by (cases L) (simp add: log_join_def q log_suffix_def log_pos_def)
  ultimately show ?thesis using inv n S(1,3) pi up by (auto simp: log_repr_def)
qed

lemma log_suffix_suffix:
  assumes "slice_wf L" and "in_log L i" and "in_log L j" and "i \<le> j"
  shows "log_suffix (log_suffix L i) j = log_suffix L j"
proof -
  note ix = id_at_index [OF assms(1,2)]
  have "log_pos L j = log_pos (log_suffix L i) j + log_pos L i"
    using assms(2,4) ix by (simp add: log_pos_def log_suffix_def in_log_def word_le_nat_alt)
  then show ?thesis
    using id_at_suffix(2) [OF assms] by (simp add: log_suffix_def drop_drop)
qed

lemma raftLog_write_repr:
  assumes "log_repr cd l L" and "u_snapshot (rl_unstable l) = None"
    and "durable cd st L (id_index (u_prev (rl_unstable l)))"
  shows "log_repr cd (l\<lparr>rl_storage := st\<rparr>) L"
  using log_repr_intro [of "l\<lparr>rl_storage := st\<rparr>" L "id_index (u_prev (rl_unstable l))" cd]
    log_repr_uinv [OF assms(1)] log_repr_wf [OF assms(1)] log_repr_suffix [OF assms(1)]
    log_repr_prev_le_last [OF assms(1)] assms(2,3) by simp

lemma raftLog_compact_repr:
  assumes r: "log_repr cd l L" and "u_snapshot (rl_unstable l) = None"
    and i: "in_log L i" "i \<le> id_index (u_prev (rl_unstable l))"
    and "durable cd st (log_suffix L i) (id_index (u_prev (rl_unstable l)))"
  shows "log_repr cd (l\<lparr>rl_storage := st\<rparr>) (log_suffix L i)"
proof (rule log_repr_intro)
  let ?p = "id_index (u_prev (rl_unstable l))"
  note p = log_repr_prev_le_last [OF r] and wf = log_repr_wf [OF r]
  show "slice_wf (log_suffix L i)" "in_log (log_suffix L i) ?p"
    using log_suffix_wf [OF wf i(1)] id_at_suffix(1) [OF wf i(1) p i(2)] by simp_all
  have "log_suffix (log_suffix L i) ?p = log_suffix L ?p" by (rule log_suffix_suffix [OF wf i(1) p i(2)])
  then show "u_logSlice (rl_unstable (l\<lparr>rl_storage := st\<rparr>)) = log_suffix (log_suffix L i) ?p"
    using log_repr_suffix [OF r] by simp
qed (use assms log_repr_uinv [OF r] in simp_all)

text \<open>Acknowledging a durable write moves the boundary, not the log.\<close>

lemma raftLog_stableTo_repr:
  assumes r: "log_repr cd l L" and st: "raftLog_stableTo mark l = Some l'"
    and d: "u_snapshot (rl_unstable l) = None \<Longrightarrow> lm_Term mark = raftLog_accTerm l \<Longrightarrow>
      durable cd (rl_storage l) L (lm_Index mark)"
  shows "log_repr cd l' L \<and> (\<exists>u. l' = l\<lparr>rl_unstable := u\<rparr> \<and> u_snapshot u = u_snapshot (rl_unstable l))"
proof -
  let ?u = "rl_unstable l" and ?i = "lm_Index mark"
  note uinv = log_repr_uinv [OF r] and wf = log_repr_wf [OF r]
  have ack: "ack_in_order mark ?u"
    using st unstable_invD(3) [OF uinv]
    by (auto simp: raftLog_stableTo_def unstable_stableTo_def ack_in_order_def bind_eq_Some_conv
        split: if_splits option.splits)
  obtain u' where u': "unstable_stableTo mark ?u = Some u'" "unstable_inv u'"
    using unstable_stableTo_inv [OF uinv ack] by blast
  with st have l': "l' = l\<lparr>rl_unstable := u'\<rparr>" by (simp add: raftLog_stableTo_def)
  show ?thesis using uinv ack
  proof (cases rule: unstable_stableTo_cases)
    case 1
    with u'(1) l' have "l' = l" by simp
    with r show ?thesis by (intro conjI exI [of _ ?u]) simp_all
  next
    case 2
    let ?p = "id_index (u_prev ?u)"
    have il: "in_log L ?i"
      using 2(3,4) wf unstable_invD(1) [OF uinv] log_repr_last [OF r] log_repr_prev [OF r]
      by (auto simp: in_log_iff raftLog_lastIndex_def)
    have "u_logSlice u' = log_suffix L ?i"
      using u'(1) 2(4,5) log_repr_suffix [OF r] log_suffix_suffix [OF wf log_repr_prev_le_last [OF r] il]
      by auto
    moreover have "durable cd (rl_storage l) L ?i" using d 2(1,2) by (simp add: raftLog_accTerm_def)
    ultimately have "log_repr cd l' L"
      using log_repr_intro [of l' L ?i cd] l' u' 2(1,5) wf il by auto
    with l' u'(1) 2(5) show ?thesis by auto
  qed
qed

lemma newLogWithSize_inv:
  assumes st: "storage_log cd st S" and mx: "0 < mx"
  shows "\<exists>l. newLogWithSize st mx = Some l \<and>
    log_inv cd l (S\<lparr>ls_term := id_term (logSlice_lastEntryID S)\<rparr>) \<and> rl_storage l = st \<and>
    rl_committed l = prev_index S \<and> rl_applied l = prev_index S"
proof -
  note S = storage_logD(1) [OF st]
  let ?id = "logSlice_lastEntryID S" and ?U = "\<lparr>ls_term = id_term (logSlice_lastEntryID S),
    ls_prev = logSlice_lastEntryID S, ls_entries = []\<rparr>"
  have i: "\<lparr>id_term = id_term ?id, id_index = logSlice_lastIndex S\<rparr> = ?id"
    using lastIndex_lastEntryID [OF S] by (cases ?id) simp
  note full = lastEntryID_prefix_full [OF S, of ?U]
  have t: "st_Term st (logSlice_lastIndex S) = Some (Inr (id_term ?id))"
    using storage_logD(4) [OF st in_log_last [OF S]] by (simp add: id_at_last [OF S])
  have inv: "unstable_inv (newUnstable ?id)"
    using lastIndex_lastEntryID [OF S] lastIndex_less_max [OF S] by (intro newUnstable_inv) simp
  have j: "log_join S ?U = S\<lparr>ls_term := id_term ?id\<rparr>" using full(4) by simp
  define l where "l = \<lparr>rl_storage = st, rl_unstable = newUnstable ?id, rl_committed = prev_index S,
    rl_applying = prev_index S, rl_applied = prev_index S, rl_maxApplyingEntsSize = mx,
    rl_applyingEntsSize = 0, rl_applyingEntsPaused = False\<rparr>"
  have "log_repr cd l (S\<lparr>ls_term := id_term ?id\<rparr>)"
    unfolding log_repr_def l_def using inv st full(2,3) j by (auto simp: newUnstable_def)
  then have "log_inv cd l (S\<lparr>ls_term := id_term ?id\<rparr>)"
    using mx prev_le_last [OF S] by (simp add: log_inv_def l_def logSlice_lastIndex_def)
  then show ?thesis
    using storage_logD(2,3) [OF st] t i by (auto simp: newLogWithSize_def l_def)
qed

lemma raftLog_restore_cases:
  assumes inv: "log_inv cd l L" and s: "snapshot_valid s" "snapshot_lastIndex s < MaxUint64"
    and c: "rl_committed l < snapshot_lastIndex s"
  obtains "raftLog_restore s l = (l, False)"
  | l' L' where "raftLog_restore s l = (l', True)" "log_inv cd l' L'" "ls_prev L' = snapshot_lastEntryID s"
    "ls_entries L' = []" "rl_committed l' = snapshot_lastIndex s" "rl_applied l' = rl_applied l"
proof -
  have ix: "id_index (snapshot_lastEntryID s) = snapshot_lastIndex s"
    by (simp add: snapshot_lastEntryID_def snapshot_lastIndex_def)
  obtain u ok where u: "unstable_restore s (rl_unstable l) = (u, ok)" by force
  have ui: "unstable_inv u"
    using unstable_restore_inv [OF log_repr_uinv [OF log_invD(1) [OF inv]] s] u by simp
  show thesis
  proof (cases ok)
    case False
    with u have "u = rl_unstable l" by (auto simp: unstable_restore_def Let_def split: if_splits)
    with u False show thesis using that(1) by (simp add: raftLog_restore_def)
  next
    case True
    with u have us: "u_snapshot u = Some (sn_snap s)" "u_prev u = snapshot_lastEntryID s" "u_entries u = []"
      by (auto simp: unstable_restore_def Let_def split: if_splits)
    let ?l = "l\<lparr>rl_unstable := u, rl_committed := snapshot_lastIndex s\<rparr>"
    have "log_inv cd ?l (u_logSlice u)"
      using log_invD [OF inv] us ui c ix by (auto simp: log_inv_def log_repr_def logSlice_lastIndex_def)
    then show thesis
      using that(2) [of ?l "u_logSlice u"] u True us ix by (simp add: raftLog_restore_def Let_def)
  qed
qed

lemma raftLog_snapshot_stored:
  assumes inv: "log_inv cd l L" and sn: "u_snapshot (rl_unstable l) = Some s"
    and d: "durable cd (rl_storage l) L (snap_index s)"
  shows "log_repr cd (raftLog_stableSnapTo (snap_index s) l) L"
proof -
  note r = log_invD(1) [OF inv]
  have L: "L = u_logSlice (rl_unstable l)" using r sn by (simp add: log_repr_def)
  have p: "prev_index L = snap_index s"
    using unstable_invD(3) [OF log_repr_uinv [OF r]] sn L by (simp add: snap_id_def)
  show ?thesis
    by (rule log_repr_intro [of _ _ "snap_index s"])
      (use d sn L p log_repr_wf [OF r] unstable_stableSnapTo_inv [OF log_repr_uinv [OF r], of "snap_index s"] in
        \<open>auto simp: raftLog_stableSnapTo_def unstable_stableSnapTo_def log_suffix_def id_at_def
          log_pos_def in_log_def\<close>)
qed

section \<open>The life of a log\<close>

text \<open>
  The steps of a log and of the storage under it. The storage may be written at any
  time, as long as it keeps what has been acknowledged, and compacted up to the
  applied index.
\<close>

inductive log_step :: "codec \<Rightarrow> raftLog \<Rightarrow> raftLog \<Rightarrow> bool" for cd where
  maybeAppend: "slice_wf a \<Longrightarrow> raftLog_maybeAppend a l = Some (l', ok) \<Longrightarrow> log_step cd l l'"
| append: "slice_wf a \<Longrightarrow> raftLog_append a l = (l', ok) \<Longrightarrow> log_step cd l l'"
| commitTo: "raftLog_commitTo mark l = Some l' \<Longrightarrow> log_step cd l l'"
| acceptApplying: "rl_applying l \<le> i \<Longrightarrow> raftLog_acceptApplying i sz allow l = Some l' \<Longrightarrow> log_step cd l l'"
| appliedTo: "raftLog_appliedTo i sz l = Some l' \<Longrightarrow> log_step cd l l'"
| acceptUnstable: "log_step cd l (raftLog_acceptUnstable l)"
| restore: "snapshot_valid s \<Longrightarrow> snapshot_lastIndex s < MaxUint64 \<Longrightarrow>
    rl_committed l < snapshot_lastIndex s \<Longrightarrow> raftLog_restore s l = (l', ok) \<Longrightarrow> log_step cd l l'"
| storageWrite: "u_snapshot (rl_unstable l) = None \<longrightarrow>
      (\<forall>L. log_repr cd l L \<longrightarrow> durable cd st L (id_index (u_prev (rl_unstable l)))) \<Longrightarrow>
    log_step cd l (l\<lparr>rl_storage := st\<rparr>)"
| storageCompact: "u_snapshot (rl_unstable l) = None \<Longrightarrow> i \<le> rl_applied l \<Longrightarrow>
    i \<le> id_index (u_prev (rl_unstable l)) \<Longrightarrow>
    \<forall>L. log_repr cd l L \<longrightarrow> in_log L i \<and> durable cd st (log_suffix L i) (id_index (u_prev (rl_unstable l))) \<Longrightarrow>
    log_step cd l (l\<lparr>rl_storage := st\<rparr>)"
| stableTo: "u_snapshot (rl_unstable l) = None \<and> lm_Term mark = raftLog_accTerm l \<longrightarrow>
      (\<forall>L. log_repr cd l L \<longrightarrow> durable cd (rl_storage l) L (lm_Index mark)) \<Longrightarrow>
    raftLog_stableTo mark l = Some l' \<Longrightarrow> log_step cd l l'"
| appliedSnap: "u_snapshot (rl_unstable l) = Some s \<Longrightarrow>
    \<forall>L. log_repr cd l L \<longrightarrow> durable cd (rl_storage l) L (snap_index s) \<Longrightarrow>
    raftLog_appliedTo (snap_index s) 0 (raftLog_stableSnapTo (snap_index s) l) = Some l' \<Longrightarrow> log_step cd l l'"

text \<open>Later states know at least as much as committed, and agree on what both still hold.\<close>

definition log_extends :: "raftLog \<times> logSlice \<Rightarrow> raftLog \<times> logSlice \<Rightarrow> bool" where
  "log_extends x y \<longleftrightarrow>
     (case x of (l, L) \<Rightarrow> case y of (l', L') \<Rightarrow>
        rl_committed l \<le> rl_committed l' \<and> rl_applied l \<le> rl_applied l' \<and> prev_index L \<le> prev_index L' \<and>
        (\<forall>j. in_log L j \<and> in_log L' j \<and> j \<le> rl_committed l \<longrightarrow> id_at L' j = id_at L j))"

lemma log_extends_refl [simp]: "log_extends (l, L) (l, L)"
  by (simp add: log_extends_def)

lemma log_extends_same:
  "rl_committed l \<le> rl_committed l' \<Longrightarrow> rl_applied l \<le> rl_applied l' \<Longrightarrow> log_extends (l, L) (l', L)"
  by (simp add: log_extends_def)

lemma log_extends_trans:
  assumes x: "log_extends (l, L) (l1, L1)" and y: "log_extends (l1, L1) (l2, L2)"
    and i: "log_inv cd l L" "log_inv cd l1 L1" "log_inv cd l2 L2"
  shows "log_extends (l, L) (l2, L2)"
proof -
  note wf = log_repr_wf [OF log_invD(1) [OF i(1)]] log_repr_wf [OF log_invD(1) [OF i(2)]]
    log_repr_wf [OF log_invD(1) [OF i(3)]]
  have c: "rl_committed l \<le> rl_committed l1" "rl_committed l1 \<le> logSlice_lastIndex L1"
      "prev_index L1 \<le> prev_index L2"
    using x y log_invD(4) [OF i(2)] by (simp_all add: log_extends_def)
  have "in_log L1 j" if "in_log L2 j" "j \<le> rl_committed l" for j
    using that c wf(2,3) by (auto simp: in_log_iff)
  then show ?thesis
    using x y unfolding log_extends_def by (auto intro: order_trans)
qed

lemma log_extends_join:
  assumes inv: "log_inv cd l L" and a: "slice_wf a" and h: "has_id L (ls_prev a)"
    and c: "rl_committed l \<le> prev_index a" and acc: "accepts L a"
  shows "log_inv cd (l\<lparr>rl_unstable := appended (rl_unstable l) a\<rparr>) (log_join L a) \<and>
    log_extends (l, L) (l\<lparr>rl_unstable := appended (rl_unstable l) a\<rparr>, log_join L a)"
proof -
  note d = log_invD [OF inv] and L = log_repr_wf [OF log_invD(1) [OF inv]]
  have i: "in_log L (prev_index a)" "id_at L (prev_index a) = ls_prev a" using h by (simp_all add: has_id_def)
  note j = log_join_wf [OF L a i] and e = id_at_join(1) [OF L i]
  have "rl_committed l \<le> logSlice_lastIndex (log_join L a)"
    using c j(2) prev_le_last [OF a] by simp
  moreover have "u_snapshot (appended (rl_unstable l) a) = u_snapshot (rl_unstable l)"
    by (simp add: appended_def)
  ultimately show ?thesis
    using log_repr_appended [OF d(1) a h acc] d e c
    by (auto simp: log_inv_def log_extends_def)
qed

lemma maybeAppend_step:
  assumes inv: "log_inv cd l L" and a: "slice_wf a" and m: "raftLog_maybeAppend a l = Some (l', ok)"
  shows "\<exists>L'. log_inv cd l' L' \<and> log_extends (l, L) (l', L') \<and> ls_prev L' = ls_prev L \<and>
    (if ok then \<forall>j. in_log a j \<longrightarrow> has_id L' (id_at a j) else l' = l \<and> L' = L)"
  using log_invD(1) [OF inv] a
proof (cases rule: raftLog_maybeAppend_cases)
  case mismatch
  with m inv show ?thesis by auto
next
  case known
  with m inv show ?thesis by auto
next
  case (rest k)
  let ?a = "log_suffix a k"
  note L = log_repr_wf [OF log_invD(1) [OF inv]] and sa = log_suffix_wf [OF a rest(1)]
  have c: "\<not> k < rl_committed l" using rest(5) m by auto
  have p: "prev_index ?a = k" using id_at_index [OF a rest(1)] by (simp add: log_suffix_def)
  have h: "has_id L (ls_prev ?a)" using rest(1,4) by (simp add: log_suffix_def)
  show ?thesis
  proof (cases "accepts L ?a")
    case False
    with m rest(5) c inv show ?thesis by auto
  next
    case True
    then have l': "l' = l\<lparr>rl_unstable := appended (rl_unstable l) ?a\<rparr>" "ok"
      using m rest(5) c by auto
    have "has_id (log_join L ?a) (id_at a j)" if j: "in_log a j" for j
    proof (cases "j \<le> k")
      case True
      note hj = rest(4) [OF j True]
      then show ?thesis
        using has_id_join(2) [OF L sa h, of j] True p id_at_index [OF a j] by (simp add: has_id_def)
    next
      case False
      then show ?thesis
        using has_id_join(1) [OF L sa h, of j] id_at_suffix [OF a rest(1) j] by simp
    qed
    with log_extends_join [OF inv sa h _ True] c p l' show ?thesis by (auto simp: not_less)
  qed
qed

lemma append_step:
  assumes inv: "log_inv cd l L" and a: "slice_wf a" and m: "raftLog_append a l = (l', ok)"
  shows "\<exists>L'. log_inv cd l' L' \<and> log_extends (l, L) (l', L')"
proof (cases "ls_term L \<le> ls_term a \<and> ls_prev a = logSlice_lastEntryID L")
  case True
  note L = log_repr_wf [OF log_invD(1) [OF inv]]
  have p: "prev_index a = logSlice_lastIndex L" using True lastIndex_lastEntryID [OF L] by simp
  then have "accepts L a" using True by (auto simp: accepts_def)
  moreover have "has_id L (ls_prev a)" using True has_id_last [OF L] by simp
  ultimately show ?thesis
    using log_extends_join [OF inv a] p log_invD(4) [OF inv] m True
      raftLog_append_cases [OF log_invD(1) [OF inv], of a] by auto
next
  case False
  with m inv raftLog_append_cases [OF log_invD(1) [OF inv], of a] show ?thesis by auto
qed

lemma positions_step:
  assumes inv: "log_inv cd l L"
  shows "raftLog_commitTo mark l = Some l' \<Longrightarrow> log_inv cd l' L \<and> log_extends (l, L) (l', L)"
    and "raftLog_appliedTo i sz l = Some l' \<Longrightarrow> log_inv cd l' L \<and> log_extends (l, L) (l', L)"
    and "rl_applying l \<le> i \<Longrightarrow> raftLog_acceptApplying i sz allow l = Some l' \<Longrightarrow>
      log_inv cd l' L \<and> log_extends (l, L) (l', L)"
proof -
  show "log_inv cd l' L \<and> log_extends (l, L) (l', L)" if c: "raftLog_commitTo mark l = Some l'"
  proof (cases "lm_Index mark \<le> logSlice_lastIndex L")
    case True
    then have "l' = l\<lparr>rl_committed := max (rl_committed l) (lm_Index mark)\<rparr>"
      using raftLog_commitTo_inv(1) [OF inv, of mark] c by (simp split: if_splits)
    then show ?thesis using raftLog_commitTo_inv(2) [OF inv True] by (simp add: log_extends_same)
  next
    case False
    then have "rl_committed l < lm_Index mark" using log_invD(4) [OF inv] by simp
    with c raftLog_commitTo_inv(1) [OF inv, of mark] False show ?thesis by (simp add: not_le)
  qed
  show "log_inv cd l' L \<and> log_extends (l, L) (l', L)" if c: "raftLog_appliedTo i sz l = Some l'"
  proof -
    have "rl_applied l \<le> i" "i \<le> rl_committed l"
      using c by (auto simp: raftLog_appliedTo_def bind_assert_iff not_less)
    then show ?thesis using raftLog_appliedTo_inv [OF inv, of i sz] c by (auto intro!: log_extends_same)
  qed
  show "log_inv cd l' L \<and> log_extends (l, L) (l', L)"
    if "rl_applying l \<le> i" and c: "raftLog_acceptApplying i sz allow l = Some l'"
  proof -
    have "i \<le> rl_committed l" using c by (auto simp: raftLog_acceptApplying_def bind_assert_iff not_less)
    then show ?thesis
      using raftLog_acceptApplying_inv [OF inv that(1), of sz allow] c by (auto intro!: log_extends_same)
  qed
qed

lemma restore_step:
  assumes inv: "log_inv cd l L" and s: "snapshot_valid s" "snapshot_lastIndex s < MaxUint64"
    and c: "rl_committed l < snapshot_lastIndex s" and r: "raftLog_restore s l = (l', ok)"
  shows "\<exists>L'. log_inv cd l' L' \<and> log_extends (l, L) (l', L')"
  using inv s c
proof (cases rule: raftLog_restore_cases)
  case 1
  with r inv show ?thesis by auto
next
  case (2 l1 L')
  have "id_index (snapshot_lastEntryID s) = snapshot_lastIndex s"
    by (simp add: snapshot_lastEntryID_def snapshot_lastIndex_def)
  then have p: "prev_index L' = snapshot_lastIndex s" using 2(3) by simp
  then have "\<not> (in_log L' j \<and> j \<le> rl_committed l)" for j
    using c by (auto simp: in_log_def word_le_nat_alt word_less_nat_alt)
  then have "log_extends (l, L) (l1, L')"
    using 2(5,6) p c log_invD(5) [OF inv] by (auto simp: log_extends_def)
  with 2(1,2) r show ?thesis by auto
qed

lemma storage_step:
  assumes inv: "log_inv cd l L"
  shows "u_snapshot (rl_unstable l) \<noteq> None \<or> durable cd st L (id_index (u_prev (rl_unstable l))) \<Longrightarrow>
      log_inv cd (l\<lparr>rl_storage := st\<rparr>) L"
    and "u_snapshot (rl_unstable l) = None \<Longrightarrow> i \<le> rl_applied l \<Longrightarrow> i \<le> id_index (u_prev (rl_unstable l)) \<Longrightarrow>
      in_log L i \<Longrightarrow> durable cd st (log_suffix L i) (id_index (u_prev (rl_unstable l))) \<Longrightarrow>
      log_inv cd (l\<lparr>rl_storage := st\<rparr>) (log_suffix L i) \<and>
      log_extends (l, L) (l\<lparr>rl_storage := st\<rparr>, log_suffix L i)"
proof -
  note d = log_invD [OF inv] and L = log_repr_wf [OF log_invD(1) [OF inv]]
  show "log_inv cd (l\<lparr>rl_storage := st\<rparr>) L"
    if "u_snapshot (rl_unstable l) \<noteq> None \<or> durable cd st L (id_index (u_prev (rl_unstable l)))"
  proof -
    have "log_repr cd (l\<lparr>rl_storage := st\<rparr>) L"
      using that d(1) raftLog_write_repr [OF d(1)]
      by (cases "u_snapshot (rl_unstable l)") (auto simp: log_repr_def)
    with inv show ?thesis by (simp add: log_inv_def)
  qed
  assume n: "u_snapshot (rl_unstable l) = None" and i: "i \<le> rl_applied l" "i \<le> id_index (u_prev (rl_unstable l))"
    "in_log L i" and st: "durable cd st (log_suffix L i) (id_index (u_prev (rl_unstable l)))"
  have "prev_index (log_suffix L i) = i" using id_at_index [OF L i(3)] by (simp add: log_suffix_def)
  moreover have "id_at (log_suffix L i) j = id_at L j" if "in_log L j" "in_log (log_suffix L i) j" for j
    using id_at_suffix(2) [OF L i(3) that(1)] that(2) calculation log_suffix_wf [OF L i(3)]
    by (simp add: in_log_iff)
  ultimately show "log_inv cd (l\<lparr>rl_storage := st\<rparr>) (log_suffix L i) \<and>
      log_extends (l, L) (l\<lparr>rl_storage := st\<rparr>, log_suffix L i)"
    using raftLog_compact_repr [OF d(1) n i(3,2) st] d i(1,3) L log_suffix_last(1) [OF L i(3)]
    by (auto simp: log_inv_def log_extends_def in_log_iff)
qed

lemma appliedSnap_step:
  assumes inv: "log_inv cd l L" and sn: "u_snapshot (rl_unstable l) = Some s"
    and d: "durable cd (rl_storage l) L (snap_index s)"
    and ap: "raftLog_appliedTo (snap_index s) 0 (raftLog_stableSnapTo (snap_index s) l) = Some l'"
  shows "log_inv cd l' L \<and> log_extends (l, L) (l', L)"
proof -
  note r = log_invD(1) [OF inv]
  let ?l = "raftLog_stableSnapTo (snap_index s) l"
  have rep: "log_repr cd ?l L" by (rule raftLog_snapshot_stored [OF inv sn d])
  have p: "prev_index L = snap_index s"
    using unstable_invD(3) [OF log_repr_uinv [OF r]] sn r by (simp add: log_repr_def snap_id_def)
  have i: "rl_applied l \<le> snap_index s" "snap_index s \<le> rl_committed l"
    using ap by (auto simp: raftLog_appliedTo_def bind_assert_iff not_less raftLog_stableSnapTo_def)
  show ?thesis
    using ap i p rep log_invD [OF inv]
    by (auto simp: raftLog_appliedTo_def log_inv_def log_extends_def log_repr_positions Let_def
        raftLog_stableSnapTo_def max_def word_gt_0 bind_assert_iff split: if_splits)
qed

lemma acceptUnstable_step:
  assumes inv: "log_inv cd l L"
  shows "log_inv cd (raftLog_acceptUnstable l) L"
  using inv unstable_acceptInProgress_inv [OF log_repr_uinv [OF log_invD(1) [OF inv]]]
  by (auto simp: log_inv_def log_repr_def raftLog_acceptUnstable_def unstable_acceptInProgress_def)

lemma log_step_inv:
  assumes "log_step cd l l'" and inv: "log_inv cd l L"
  shows "\<exists>L'. log_inv cd l' L' \<and> log_extends (l, L) (l', L')"
  using assms(1)
proof cases
  case (maybeAppend a ok)
  then show ?thesis using maybeAppend_step [OF inv] by blast
next
  case (append a ok)
  then show ?thesis using append_step [OF inv] by blast
next
  case (storageWrite st)
  then show ?thesis using storage_step(1) [OF inv, of st] log_invD(1) [OF inv]
    by (auto intro!: exI [of _ L] log_extends_same)
next
  case (storageCompact i st)
  then show ?thesis using storage_step(2) [OF inv] log_invD(1) [OF inv] by blast
next
  case (stableTo mark)
  have "log_repr cd l' L \<and> (\<exists>u. l' = l\<lparr>rl_unstable := u\<rparr> \<and> u_snapshot u = u_snapshot (rl_unstable l))"
    using stableTo log_invD(1) [OF inv] by (intro raftLog_stableTo_repr) auto
  with inv show ?thesis
    by (intro exI [of _ L]) (auto simp: log_inv_def log_extends_def)
next
  case (appliedSnap s)
  then show ?thesis using appliedSnap_step [OF inv] log_invD(1) [OF inv] by blast
next
  case acceptUnstable
  then show ?thesis using acceptUnstable_step [OF inv]
    by (auto intro!: exI [of _ L] log_extends_same simp: raftLog_acceptUnstable_def)
qed (use positions_step [OF inv] restore_step [OF inv] in blast)+

lemma log_steps_inv:
  assumes "(log_step cd)\<^sup>*\<^sup>* l l'" and inv: "log_inv cd l L"
  shows "\<exists>L'. log_inv cd l' L' \<and> log_extends (l, L) (l', L')"
  using assms(1)
proof (induction rule: rtranclp_induct)
  case base
  with inv show ?case by auto
next
  case (step l1 l2)
  then show ?case using log_step_inv log_extends_trans inv by metis
qed

section \<open>An example log\<close>

text \<open>Two stable entries and one unstable entry of a later term, used to exercise properties.\<close>

definition ex_entry :: "u64 \<Rightarrow> u64 \<Rightarrow> Entry" where
  "ex_entry t i = Entry_zero\<lparr>e_Term := t, e_Index := i\<rparr>"

definition ex_memory :: MemoryStorage where
  "ex_memory = NewMemoryStorage\<lparr>ms_ents := [Entry_zero, ex_entry 1 1, ex_entry 1 2]\<rparr>"

definition ex_storage :: Storage where
  "ex_storage = MemoryStorage_Storage (fixed_codec 10) ex_memory"

definition ex_slice :: logSlice where
  "ex_slice = \<lparr>ls_term = 2, ls_prev = \<lparr>id_term = 0, id_index = 0\<rparr>,
     ls_entries = [ex_entry 1 1, ex_entry 1 2, ex_entry 2 3]\<rparr>"

definition ex_log :: raftLog where
  "ex_log = \<lparr>rl_storage = ex_storage,
     rl_unstable = \<lparr>u_snapshot = None,
       u_logSlice = \<lparr>ls_term = 2, ls_prev = \<lparr>id_term = 1, id_index = 2\<rparr>, ls_entries = [ex_entry 2 3]\<rparr>,
       u_snapshotInProgress = False, u_entryInProgress = 2\<rparr>,
     rl_committed = 3, rl_applying = 1, rl_applied = 0, rl_maxApplyingEntsSize = 100,
     rl_applyingEntsSize = 10, rl_applyingEntsPaused = False\<rparr>"

lemmas ex_simps = ex_entry_def ex_memory_def ex_storage_def ex_slice_def ex_log_def Entry_zero_def

lemma ex_memory_inv: "ms_inv ex_memory"
  by (simp add: ms_inv_iff ms_offset_def ex_simps)

lemma ex_storage_log: "storage_log (fixed_codec 10) ex_storage (ms_log ex_memory)"
  unfolding ex_storage_def by (rule memory.provides_log [OF ex_memory_inv])

lemma ex_log_inv: "log_inv (fixed_codec 10) ex_log ex_slice"
proof -
  have wf: "slice_wf ex_slice" by (rule slice_wfI) (simp_all add: ex_simps)
  have u: "unstable_inv (rl_unstable ex_log)"
    by (simp add: unstable_inv_def slice_wf_def logSlice_valid_contig logSlice_lastIndex_def ex_simps)
  have "ls_prev (ms_log ex_memory) = ls_prev ex_slice" "in_log (ms_log ex_memory) 2"
      "take (log_pos ex_slice 2) (ls_entries (ms_log ex_memory)) = take (log_pos ex_slice 2) (ls_entries ex_slice)"
    by (simp_all add: in_log_def log_pos_def ex_simps pbEntryID_def)
  then have d: "durable (fixed_codec 10) (rl_storage ex_log) ex_slice 2"
    using ex_storage_log unfolding durable_def by (intro exI [of _ "ms_log ex_memory"]) (simp add: ex_log_def)
  have "log_repr (fixed_codec 10) ex_log ex_slice"
    by (rule log_repr_intro [OF u _ wf, of 2])
      (use d in \<open>simp_all add: ex_simps in_log_def log_suffix_def id_at_def log_pos_def pbEntryID_def\<close>)
  then show ?thesis by (simp add: log_inv_def logSlice_lastIndex_def ex_simps)
qed

lemma ex_sized: "sized_entries (fixed_codec 10) (ls_entries ex_slice)"
  by (simp add: sized_entries_def fixed_codec_def ex_simps)

section \<open>Properties\<close>

text \<open>
  Property C5: what is committed stays. For every log opened on a storage that keeps its
  contract, along every sequence of appends, truncating appends, commits, applications,
  restored snapshots, storage writes and compactions: the commit index never decreases,
  and an index that was committed keeps its term as long as it can be read.
\<close>

theorem raftLog_committed_is_final:
  assumes "storage_log cd st S" and "0 < mx" and "newLogWithSize st mx = Some l0"
    and "(log_step cd)\<^sup>*\<^sup>* l0 l" and "(log_step cd)\<^sup>*\<^sup>* l l'"
  shows "rl_committed l \<le> rl_committed l' \<and>
    (\<forall>j t t'. j \<le> rl_committed l \<and> raftLog_term l j = Some (Inr t) \<and> raftLog_term l' j = Some (Inr t') \<longrightarrow> t' = t)"
proof -
  obtain L0 where "log_inv cd l0 L0" using newLogWithSize_inv [OF assms(1,2)] assms(3) by auto
  from log_steps_inv [OF assms(4) this] obtain L where L: "log_inv cd l L" by blast
  from log_steps_inv [OF assms(5) this]
  obtain L' where L': "log_inv cd l' L'" "log_extends (l, L) (l', L')" by blast
  have "t' = t" if "j \<le> rl_committed l" "raftLog_term l j = Some (Inr t)" "raftLog_term l' j = Some (Inr t')" for j t t'
    using that L'(2) raftLog_term_eq [OF log_invD(1) [OF L], of j] raftLog_term_eq [OF log_invD(1) [OF L'(1)], of j]
    by (auto simp: log_extends_def term_result_def log_term_def split: if_splits)
  with L'(2) show ?thesis by (auto simp: log_extends_def)
qed

theorem raftLog_committed_is_final_witness:
  "\<exists>l0 l l'. newLogWithSize ex_storage 100 = Some l0 \<and> (log_step (fixed_codec 10))\<^sup>*\<^sup>* l0 l \<and>
     raftLog_commitTo \<lparr>lm_Term = 1, lm_Index = 2\<rparr> l = Some l' \<and>
     rl_committed l = 1 \<and> rl_committed l \<le> rl_committed l' \<and>
     (\<forall>t'. raftLog_term l' 1 = Some (Inr t') \<longrightarrow> t' = 1)"
proof -
  obtain l0 where l0: "newLogWithSize ex_storage 100 = Some l0" "rl_committed l0 = 0"
      "log_inv (fixed_codec 10) l0 ((ms_log ex_memory)\<lparr>ls_term := id_term (logSlice_lastEntryID (ms_log ex_memory))\<rparr>)"
    using newLogWithSize_inv [OF ex_storage_log, of 100] by (auto simp: ex_simps)
  let ?L = "(ms_log ex_memory)\<lparr>ls_term := id_term (logSlice_lastEntryID (ms_log ex_memory))\<rparr>"
  have last: "logSlice_lastIndex ?L = 2" by (simp add: logSlice_lastIndex_def ex_simps)
  define l where "l = l0\<lparr>rl_committed := 1\<rparr>"
  define l' where "l' = l0\<lparr>rl_committed := 2\<rparr>"
  have c: "raftLog_commitTo \<lparr>lm_Term = 1, lm_Index = 1\<rparr> l0 = Some l"
      "raftLog_commitTo \<lparr>lm_Term = 1, lm_Index = 2\<rparr> l = Some l'"
    using log_repr_last [OF log_invD(1) [OF l0(3)]] last l0(2)
    by (simp_all add: raftLog_commitTo_def l_def l'_def raftLog_lastIndex_def)
  have r: "log_repr (fixed_codec 10) l ?L"
    using log_invD(1) [OF l0(3)] by (simp add: l_def log_repr_positions)
  have t: "term_result ?L 1 = Inr 1"
    by (simp add: term_result_def log_term_def in_log_def id_at_def log_pos_def ex_simps)
  have s: "(log_step (fixed_codec 10))\<^sup>*\<^sup>* l0 l" "(log_step (fixed_codec 10))\<^sup>*\<^sup>* l l'"
    using c by (auto intro: log_step.commitTo)
  have "raftLog_term l 1 = Some (Inr 1)"
    using raftLog_term_eq [OF r, of 1] t by simp
  moreover have "rl_committed l = 1" by (simp add: l_def)
  ultimately have "rl_committed l \<le> rl_committed l' \<and> (\<forall>t'. raftLog_term l' 1 = Some (Inr t') \<longrightarrow> t' = 1)"
    using raftLog_committed_is_final [OF ex_storage_log _ l0(1) s] by fastforce
  with \<open>rl_committed l = 1\<close> l0(1) s(1) c(2) show ?thesis by blast
qed

text \<open>
  Property C8: the positions of a log stay in order. In every reachable state applied,
  applying, committed and the last index follow each other, the first index is at most
  one above the commit index, the last entry can be identified, and the application
  budget is positive unless application is paused.
\<close>

theorem raftLog_positions_ordered:
  assumes "storage_log cd st S" and "0 < mx" and "newLogWithSize st mx = Some l0"
    and "(log_step cd)\<^sup>*\<^sup>* l0 l"
  shows "rl_applied l \<le> rl_applying l \<and> rl_applying l \<le> rl_committed l \<and>
    rl_committed l \<le> raftLog_lastIndex l \<and>
    (\<exists>fi. raftLog_firstIndex l = Some fi \<and> fi \<le> rl_committed l + 1) \<and>
    (\<exists>t. raftLog_lastEntryID l = Some \<lparr>id_term = t, id_index = raftLog_lastIndex l\<rparr> \<and> t \<le> raftLog_accTerm l) \<and>
    (rl_applyingEntsPaused l \<or> rl_applyingEntsSize l < rl_maxApplyingEntsSize l)"
proof -
  obtain L0 where "log_inv cd l0 L0" using newLogWithSize_inv [OF assms(1,2)] assms(3) by auto
  from log_steps_inv [OF assms(4) this] obtain L where L: "log_inv cd l L" by blast
  note d = log_invD [OF L] and r = log_invD(1) [OF L] and wf = log_repr_wf [OF log_invD(1) [OF L]]
  have "rl_committed l < MaxUint64" using d(4) lastIndex_less_max [OF wf] by simp
  note u = unat_succ_u64 [OF this] unat_succ_u64 [OF slice_wf_prev_less [OF wf]]
  have "prev_index L + 1 \<le> rl_committed l + 1" using d(5) u by (simp add: word_le_nat_alt)
  moreover have "logSlice_lastEntryID L = \<lparr>id_term = id_term (logSlice_lastEntryID L), id_index = logSlice_lastIndex L\<rparr>"
    using lastIndex_lastEntryID [OF wf] by (cases "logSlice_lastEntryID L") simp
  moreover have "id_term (logSlice_lastEntryID L) \<le> raftLog_accTerm l"
    using slice_wfD(2) [OF wf] log_repr_accTerm [OF r] by (simp add: raftLog_accTerm_def lastEntryID_last_id)
  ultimately show ?thesis
    using d(2-4,7) log_repr_first [OF r] log_repr_last [OF r] raftLog_lastEntryID_eq [OF r] by auto
qed

theorem raftLog_positions_ordered_witness:
  "\<exists>l0. newLogWithSize ex_storage 100 = Some l0 \<and> rl_applied l0 \<le> rl_applying l0 \<and>
     rl_committed l0 \<le> raftLog_lastIndex l0"
proof -
  obtain l0 where "newLogWithSize ex_storage 100 = Some l0"
    using newLogWithSize_inv [OF ex_storage_log, of 100] by auto
  with raftLog_positions_ordered [OF ex_storage_log _ this, of l0] show ?thesis by auto
qed

text \<open>
  Property C6: \<open>slice\<close> is equivalent to cutting the wanted range out of one list. Although
  it reads a part from storage, a part from the unstable log and applies the size limit in
  two steps, for entries with a non-empty encoding the result is the range of the
  represented log cut once by \<open>limitSize\<close>; a compacted start gives \<open>ErrCompacted\<close>.
\<close>

theorem raftLog_slice_equivalent:
  assumes "log_repr cd l L" and "lo \<le> hi" and "hi \<le> raftLog_lastIndex l + 1"
    and "sized_entries cd (log_range L lo hi)"
  shows "raftLog_slice cd lo hi maxSize l =
    Some (if lo \<le> id_index (ls_prev L) then Inl ErrCompacted
          else Inr (limitSize cd (log_range L lo hi) maxSize))"
  using raftLog_slice_eq [OF assms(1,2) _ assms(4)] assms(3) log_repr_last [OF assms(1)] by simp

theorem raftLog_slice_equivalent_witness:
  "raftLog_slice (fixed_codec 10) 2 4 25 ex_log = Some (Inr [ex_entry 1 2, ex_entry 2 3]) \<and>
   raftLog_slice (fixed_codec 10) 2 4 15 ex_log = Some (Inr [ex_entry 1 2])"
proof -
  have "raftLog_lastIndex ex_log = 3" by (simp add: raftLog_lastIndex_def logSlice_lastIndex_def ex_simps)
  then show ?thesis
    using raftLog_slice_equivalent [OF log_invD(1) [OF ex_log_inv], of 2 4 25]
      raftLog_slice_equivalent [OF log_invD(1) [OF ex_log_inv], of 2 4 15]
      sized_entries_log_range [OF ex_sized, of 2 4]
    by (simp add: ex_simps log_range_def log_pos_def limitSize_def fixed_codec_def)
qed

text \<open>
  Property C9: \<open>scan\<close> ends. On an existing range it passes consecutive, non-empty pages that
  together are exactly the range to the callback, each within the page size or a single
  entry, and returns what the callback made of them, whatever the callback is.
\<close>

theorem raftLog_scan_terminates:
  assumes "log_repr cd l L" and "id_index (ls_prev L) < lo" and "lo \<le> hi"
    and "hi \<le> raftLog_lastIndex l + 1" and "sized_entries cd (log_range L lo hi)"
  shows "\<exists>pages. concat pages = log_range L lo hi \<and>
    list_all (\<lambda>p. p \<noteq> [] \<and> (length p = 1 \<or> sizes cd p \<le> unat pageSize)) pages \<and>
    raftLog_scan cd l hi pageSize v lo s = feed v pages s"
  using raftLog_scan_pages [OF assms(1-3) _ assms(5), of pageSize v] assms(4) log_repr_last [OF assms(1)]
  by auto

theorem raftLog_scan_terminates_witness:
  "raftLog_scan (fixed_codec 10) ex_log 4 20 (\<lambda>p s. Some (s @ p, None)) 1 [] =
     Some ([ex_entry 1 1, ex_entry 1 2, ex_entry 2 3], None)"
proof -
  let ?v = "\<lambda>p s. Some (s @ p, None)"
  have f: "feed ?v pages s = Some (s @ concat pages, None)" for pages and s :: "Entry list"
    by (induction pages arbitrary: s) simp_all
  have "raftLog_lastIndex ex_log = 3" by (simp add: raftLog_lastIndex_def logSlice_lastIndex_def ex_simps)
  moreover have "log_range ex_slice 1 4 = [ex_entry 1 1, ex_entry 1 2, ex_entry 2 3]"
    by (simp add: ex_simps log_range_def log_pos_def)
  moreover have "id_index (ls_prev ex_slice) < 1" by (simp add: ex_slice_def)
  ultimately show ?thesis
    using raftLog_scan_terminates [OF log_invD(1) [OF ex_log_inv], of 1 4 20 ?v "[]"]
      sized_entries_log_range [OF ex_sized, of 1 4] f by auto
qed

text \<open>
  Property C7: \<open>maybeAppend\<close> makes the log consistent with the appended slice. It panics only
  when the slice conflicts with a committed entry. If it returns true, every entry of the
  slice is in the log; if it returns false, nothing changed. Either way all indexes up to
  the commit index keep their terms.
\<close>

theorem raftLog_maybeAppend_makes_consistent:
  assumes "log_inv cd l L" and "slice_wf a"
  shows "case raftLog_maybeAppend a l of
      None \<Rightarrow> \<exists>i. id_index (ls_prev a) < i \<and> i \<le> rl_committed l \<and> i \<le> logSlice_lastIndex a \<and>
        raftLog_matchTerm l (id_at a i) = Some False
    | Some (l', ok) \<Rightarrow>
        (if ok
         then \<exists>L'. log_inv cd l' L' \<and>
           (\<forall>i. in_log a i \<longrightarrow> raftLog_matchTerm l' (id_at a i) = Some True) \<and>
           (\<forall>i. in_log L i \<and> i \<le> rl_committed l \<longrightarrow> raftLog_matchTerm l' (id_at L i) = Some True)
         else l' = l)"
proof -
  note r = log_invD(1) [OF assms(1)]
  have mt: "log_inv cd l1 L1 \<Longrightarrow> raftLog_matchTerm l1 i = Some (has_id L1 i)" for l1 L1 i
    using raftLog_matchTerm_eq [OF log_invD(1)] by (simp add: has_id_def)
  show ?thesis
  proof (cases "raftLog_maybeAppend a l")
    case None
    from r assms(2) show ?thesis
    proof (cases rule: raftLog_maybeAppend_cases)
      case (rest m)
      have m: "id_index (ls_prev a) \<le> m" "m < rl_committed l"
        using rest(1,5) None assms(2) by (auto simp: in_log_iff split: if_splits)
      have "id_index (ls_prev a) < m + 1" "m + 1 \<le> rl_committed l" "m + 1 \<le> logSlice_lastIndex a"
        using m rest(2) unat_succ_u64 [OF rest(2)] by (simp_all add: word_less_nat_alt word_le_nat_alt)
      with rest(3) mt [OF assms(1)] have "\<exists>i. id_index (ls_prev a) < i \<and> i \<le> rl_committed l \<and>
          i \<le> logSlice_lastIndex a \<and> raftLog_matchTerm l (id_at a i) = Some False"
        by (intro exI [of _ "m + 1"]) simp
      with None show ?thesis by simp
    qed (use None in simp_all)
  next
    case (Some p)
    obtain l' ok where p: "p = (l', ok)" by force
    obtain L' where L': "log_inv cd l' L'" "log_extends (l, L) (l', L')" "ls_prev L' = ls_prev L"
        "if ok then \<forall>j. in_log a j \<longrightarrow> has_id L' (id_at a j) else l' = l \<and> L' = L"
      using maybeAppend_step [OF assms] Some p by blast
    have "has_id L' (id_at L i)" if "in_log L i" "i \<le> rl_committed l" for i
    proof -
      have "in_log L' i"
        using that L'(2,3) log_invD(4) [OF L'(1)] log_repr_wf [OF log_invD(1) [OF L'(1)]] log_repr_wf [OF r]
        by (auto simp: in_log_iff log_extends_def)
      with that L'(2) id_at_index [OF log_repr_wf [OF r] that(1)] show ?thesis
        by (auto simp: has_id_def log_extends_def)
    qed
    with L' mt [OF L'(1)] have "if ok then \<exists>L'. log_inv cd l' L' \<and>
        (\<forall>i. in_log a i \<longrightarrow> raftLog_matchTerm l' (id_at a i) = Some True) \<and>
        (\<forall>i. in_log L i \<and> i \<le> rl_committed l \<longrightarrow> raftLog_matchTerm l' (id_at L i) = Some True)
      else l' = l"
      by (cases ok) auto
    with Some p show ?thesis by simp
  qed
qed

theorem raftLog_maybeAppend_makes_consistent_witness:
  "let a = \<lparr>ls_term = 3, ls_prev = \<lparr>id_term = 2, id_index = 3\<rparr>, ls_entries = [ex_entry 3 4]\<rparr> in
   \<exists>l'. raftLog_maybeAppend a ex_log = Some (l', True) \<and>
     raftLog_matchTerm l' \<lparr>id_term = 3, id_index = 4\<rparr> = Some True"
proof -
  define a where "a = \<lparr>ls_term = 3, ls_prev = \<lparr>id_term = 2, id_index = 3\<rparr>, ls_entries = [ex_entry 3 4]\<rparr>"
  have wf: "slice_wf a" by (rule slice_wfI) (simp_all add: a_def ex_simps)
  have i: "in_log a 4" "id_at a 4 = \<lparr>id_term = 3, id_index = 4\<rparr>"
    by (simp_all add: a_def in_log_def id_at_def log_pos_def ex_simps pbEntryID_def)
  have "raftLog_maybeAppend a ex_log = Some (ex_log\<lparr>rl_unstable := (rl_unstable ex_log)\<lparr>u_logSlice :=
      \<lparr>ls_term = 3, ls_prev = \<lparr>id_term = 1, id_index = 2\<rparr>, ls_entries = [ex_entry 2 3, ex_entry 3 4]\<rparr>\<rparr>\<rparr>, True)"
    by (simp add: raftLog_maybeAppend_def raftLog_match_def raftLog_matchTerm_def raftLog_term_def
        unstable_maybeTerm_def logSlice_termAt_def logSlice_lastIndex_def logSlice_lastEntryID_def
        raftLog_firstIndex_def unstable_maybeFirstIndex_def raftLog_lastIndex_def slice_at_def pbEntryID_def
        logSlice_forward_def slice_from_def unstable_truncateAndAppend_def ex_simps a_def
        MemoryStorage_Storage_def MemoryStorage_FirstIndex_def MemoryStorage_firstIndex_def ms_offset_def)
  moreover from raftLog_maybeAppend_makes_consistent [OF ex_log_inv wf] this
  have "raftLog_matchTerm (ex_log\<lparr>rl_unstable := (rl_unstable ex_log)\<lparr>u_logSlice :=
      \<lparr>ls_term = 3, ls_prev = \<lparr>id_term = 1, id_index = 2\<rparr>, ls_entries = [ex_entry 2 3, ex_entry 3 4]\<rparr>\<rparr>\<rparr>)
      (id_at a 4) = Some True"
    using i(1) by auto
  ultimately show ?thesis unfolding Let_def a_def [symmetric] using i(2) by auto
qed

text \<open>
  Property C26: \<open>findConflictByTerm\<close> returns the largest candidate. The guess is at most the
  given index; everything between the guess and that index is in the log with a larger
  term; and the guess itself has a term of at most the given one, or is not in the log,
  or is zero. The returned term is that of the guess, or zero if it is unknown.
\<close>

theorem raftLog_findConflictByTerm_is_max_guess:
  assumes "log_repr cd l L"
  shows "\<exists>g t. raftLog_findConflictByTerm l index term = Some (g, t) \<and> g \<le> index \<and>
    (\<forall>j. g < j \<and> j \<le> index \<longrightarrow> (\<exists>t'. log_term L j = Some t' \<and> term < t')) \<and>
    (case log_term L g of Some t' \<Rightarrow> t = t' \<and> t \<le> term \<or> g = 0 \<and> t = 0 | None \<Rightarrow> t = 0)"
proof -
  obtain p where "raftLog_findConflictByTerm l index term = Some p" "conflict_guess L index term p"
    using raftLog_findConflictByTerm_eq [OF assms] by blast
  then show ?thesis
    by (cases p) (auto simp: conflict_guess_def log_term_def)
qed

theorem raftLog_findConflictByTerm_is_max_guess_witness:
  "\<exists>t. raftLog_findConflictByTerm ex_log 3 1 = Some (2, t)"
proof -
  obtain g t where g: "raftLog_findConflictByTerm ex_log 3 1 = Some (g, t)" "g \<le> 3"
      "\<forall>j. g < j \<and> j \<le> 3 \<longrightarrow> (\<exists>t'. log_term ex_slice j = Some t' \<and> 1 < t')"
      "case log_term ex_slice g of Some t' \<Rightarrow> t = t' \<and> t \<le> 1 \<or> g = 0 \<and> t = 0 | None \<Rightarrow> t = 0"
    using raftLog_findConflictByTerm_is_max_guess [OF log_invD(1) [OF ex_log_inv], of 3 1] by blast
  have t: "log_term ex_slice 2 = Some 1" "log_term ex_slice 3 = Some 2"
    by (simp_all add: log_term_def in_log_def id_at_def log_pos_def ex_simps pbEntryID_def)
  have "\<not> g < 2" using g(3) t(1) by force
  moreover have "g \<noteq> 3" using g(4) t(2) by (auto simp: word_le_nat_alt)
  then have "unat g \<noteq> 3" by (simp add: word_unat_eq_iff)
  ultimately have "unat g = unat (2::u64)" using g(2) by (simp add: word_less_nat_alt word_le_nat_alt)
  then have "g = 2" by (simp only: word_unat_eq_iff)
  with g(1) show ?thesis by auto
qed

text \<open>
  Property C25: committed entries are handed out completely and in order. \<open>nextCommittedEnts\<close>
  never panics; unless it is paused or a snapshot is pending, it returns the entries
  from \<open>applying + 1\<close> to the last appliable index, cut to the remaining budget; and
  \<open>hasNextCommittedEnts\<close> tells exactly whether that is non-empty.
\<close>

theorem raftLog_nextCommittedEnts_complete:
  assumes "log_inv cd l L" and "sized_entries cd (ls_entries L)"
  shows "\<exists>ents. raftLog_nextCommittedEnts cd allow l = Some ents \<and>
    raftLog_hasNextCommittedEnts allow l = (ents \<noteq> []) \<and>
    ents = (if rl_applyingEntsPaused l \<or> raftLog_hasNextOrInProgressSnapshot l then []
      else limitSize cd (log_range L (rl_applying l + 1) (raftLog_maxAppliableIndex allow l + 1))
        (rl_maxApplyingEntsSize l - rl_applyingEntsSize l))"
  using raftLog_nextCommittedEnts_eq [OF assms, of allow] raftLog_hasNextCommittedEnts_eq [OF assms, of allow]
  by (auto simp: raftLog_hasNextOrInProgressSnapshot_def)

theorem raftLog_nextCommittedEnts_complete_witness:
  "raftLog_nextCommittedEnts (fixed_codec 10) True ex_log = Some [ex_entry 1 2, ex_entry 2 3] \<and>
   raftLog_nextCommittedEnts (fixed_codec 10) False ex_log = Some [ex_entry 1 2]"
  using raftLog_nextCommittedEnts_complete [OF ex_log_inv ex_sized, of True]
    raftLog_nextCommittedEnts_complete [OF ex_log_inv ex_sized, of False]
  by (simp add: raftLog_maxAppliableIndex_def ex_simps log_range_def log_pos_def limitSize_def
      fixed_codec_def raftLog_hasNextOrInProgressSnapshot_def)

end
