(* ===== verification/Inflights.thy ===== *)
theory Inflights
  imports Raft_Prelude
begin

text \<open>
  The ring buffer of in-flight append messages, \<open>tracker/inflights.go\<close>, and its
  refinement of a plain queue: the contract \<open>inflight_window\<close> says what the
  callers may rely on, \<open>Inflights_inv\<close> is the representation invariant and
  \<open>Inflights_contents\<close> the abstraction function. The \<open>int\<close> fields hold sizes and
  positions and are natural numbers; the byte totals wrap at 64 bits.
\<close>

section \<open>The ring buffer\<close>

record inflight =
  i_index :: u64
  i_bytes :: u64

record Inflights =
  in_start :: nat
  in_count :: nat
  in_bytes :: u64
  in_size :: nat
  in_maxBytes :: u64
  in_buffer :: "inflight list"

definition inflight_zero :: inflight where
  "inflight_zero = \<lparr>i_index = 0, i_bytes = 0\<rparr>"

definition NewInflights :: "nat \<Rightarrow> u64 \<Rightarrow> Inflights" where
  "NewInflights sz maxBytes =
     \<lparr>in_start = 0, in_count = 0, in_bytes = 0, in_size = sz, in_maxBytes = maxBytes,
      in_buffer = []\<rparr>"

definition Inflights_Clone :: "Inflights \<Rightarrow> Inflights" where
  "Inflights_Clone ins = ins\<lparr>in_buffer := [] @ in_buffer ins\<rparr>"

definition Inflights_Full :: "Inflights \<Rightarrow> bool" where
  "Inflights_Full ins \<longleftrightarrow>
     in_count ins = in_size ins \<or> (in_maxBytes ins \<noteq> 0 \<and> in_maxBytes ins \<le> in_bytes ins)"

definition Inflights_Count :: "Inflights \<Rightarrow> nat" where
  "Inflights_Count ins = in_count ins"

definition Inflights_grow :: "Inflights \<Rightarrow> Inflights" where
  "Inflights_grow ins =
     (let doubled = length (in_buffer ins) * 2;
          newSize = (if doubled = 0 then 1
                     else if in_size ins < doubled then in_size ins else doubled)
      in ins\<lparr>in_buffer := take newSize (in_buffer ins) @
               replicate (newSize - length (in_buffer ins)) inflight_zero\<rparr>)"

definition Inflights_Add :: "u64 \<Rightarrow> u64 \<Rightarrow> Inflights \<Rightarrow> Inflights go" where
  "Inflights_Add index bytes ins = do {
     assertTrue (\<not> Inflights_Full ins);
     let nxt = in_start ins + in_count ins;
     let nxt = (if in_size ins \<le> nxt then nxt - in_size ins else nxt);
     let ins = (if length (in_buffer ins) \<le> nxt then Inflights_grow ins else ins);
     buffer \<leftarrow> put_go (in_buffer ins) nxt \<lparr>i_index = index, i_bytes = bytes\<rparr>;
     Some (ins\<lparr>in_buffer := buffer, in_count := in_count ins + 1,
               in_bytes := in_bytes ins + bytes\<rparr>)
   }"

text \<open>
  The loop of \<open>FreeLE\<close>: \<open>n\<close> is \<open>in.count - i\<close>, the number of entries not yet
  visited. It returns the final \<open>idx\<close>, \<open>i\<close> and \<open>bytes\<close>.
\<close>

fun FreeLE_loop :: "u64 \<Rightarrow> nat \<Rightarrow> inflight list \<Rightarrow> nat \<Rightarrow> nat \<Rightarrow> nat \<Rightarrow> u64 \<Rightarrow> (nat \<times> nat \<times> u64) go" where
  "FreeLE_loop to sz buffer 0 idx i bytes = Some (idx, i, bytes)"
| "FreeLE_loop to sz buffer (Suc n) idx i bytes = do {
     e \<leftarrow> at_go buffer idx;
     if to < i_index e then Some (idx, i, bytes)
     else FreeLE_loop to sz buffer n
            (if sz \<le> idx + 1 then idx + 1 - sz else idx + 1) (i + 1) (bytes + i_bytes e)
   }"

definition Inflights_FreeLE :: "u64 \<Rightarrow> Inflights \<Rightarrow> Inflights go" where
  "Inflights_FreeLE to ins =
     (if in_count ins = 0 then Some ins
      else do {
        first \<leftarrow> at_go (in_buffer ins) (in_start ins);
        if to < i_index first then Some ins
        else do {
          (idx, i, bytes) \<leftarrow>
            FreeLE_loop to (in_size ins) (in_buffer ins) (in_count ins) (in_start ins) 0 0;
          let count = in_count ins - i;
          Some (ins\<lparr>in_count := count, in_bytes := in_bytes ins - bytes,
                    in_start := (if count = 0 then 0 else idx)\<rparr>)
        }
      })"

definition Inflights_reset :: "Inflights \<Rightarrow> Inflights" where
  "Inflights_reset ins = ins\<lparr>in_start := 0, in_count := 0, in_bytes := 0\<rparr>"

section \<open>The invariant and the abstraction\<close>

definition ring_pos :: "nat \<Rightarrow> nat \<Rightarrow> nat \<Rightarrow> nat" where
  "ring_pos sz start k = (if sz \<le> start + k then start + k - sz else start + k)"

definition Inflights_contents :: "Inflights \<Rightarrow> inflight list" where
  "Inflights_contents ins =
     map (\<lambda>k. in_buffer ins ! ring_pos (in_size ins) (in_start ins) k) [0..<in_count ins]"

definition Inflights_inv :: "Inflights \<Rightarrow> bool" where
  "Inflights_inv ins \<longleftrightarrow>
     in_count ins \<le> in_size ins \<and>
     length (in_buffer ins) \<le> in_size ins \<and>
     (if in_count ins = 0 then in_start ins = 0 else in_start ins < in_size ins) \<and>
     (\<forall>k \<in> {0..<in_count ins}. ring_pos (in_size ins) (in_start ins) k < length (in_buffer ins)) \<and>
     in_bytes ins = sum_list (map i_bytes (Inflights_contents ins))"

lemma Inflights_invD:
  assumes "Inflights_inv ins"
  shows "in_count ins \<le> in_size ins" and "length (in_buffer ins) \<le> in_size ins"
    and "in_count ins = 0 \<Longrightarrow> in_start ins = 0"
    and "0 < in_count ins \<Longrightarrow> in_start ins < in_size ins"
    and "k < in_count ins \<Longrightarrow> ring_pos (in_size ins) (in_start ins) k < length (in_buffer ins)"
    and "in_bytes ins = sum_list (map i_bytes (Inflights_contents ins))"
  using assms by (auto simp: Inflights_inv_def split: if_splits)

lemma length_Inflights_contents [simp]: "length (Inflights_contents ins) = in_count ins"
  by (simp add: Inflights_contents_def)

lemma ring_pos_inj:
  assumes "start < sz" and "k < sz" and "j < sz" and "k \<noteq> j"
  shows "ring_pos sz start k \<noteq> ring_pos sz start j"
  using assms by (auto simp: ring_pos_def)

lemma ring_pos_step:
  assumes "start < sz" and "k < sz"
  shows "ring_pos sz start (Suc k) = ring_pos sz (if sz \<le> start + 1 then start + 1 - sz else start + 1) k"
  using assms by (auto simp: ring_pos_def)


subsection \<open>Adding a message\<close>

lemma Inflights_grow_room:
  assumes "length (in_buffer ins) < in_size ins"
  shows "length (in_buffer ins) < length (in_buffer (Inflights_grow ins))"
    and "length (in_buffer (Inflights_grow ins)) \<le> in_size ins"
    and "k < length (in_buffer ins) \<Longrightarrow> in_buffer (Inflights_grow ins) ! k = in_buffer ins ! k"
  using assms by (auto simp: Inflights_grow_def Let_def nth_append)

lemma Inflights_grow_fields [simp]:
  "in_start (Inflights_grow ins) = in_start ins"
  "in_count (Inflights_grow ins) = in_count ins"
  "in_bytes (Inflights_grow ins) = in_bytes ins"
  "in_size (Inflights_grow ins) = in_size ins"
  "in_maxBytes (Inflights_grow ins) = in_maxBytes ins"
  by (simp_all add: Inflights_grow_def Let_def)

text \<open>The next position lies in the buffer, or is the one that \<open>grow\<close> makes available.\<close>

lemma Inflights_next_pos:
  assumes "Inflights_inv ins" and "in_count ins < in_size ins"
  defines "p \<equiv> ring_pos (in_size ins) (in_start ins) (in_count ins)"
  shows "p \<le> length (in_buffer ins)" and "p < in_size ins"
proof -
  note inv = Inflights_invD [OF assms(1)]
  show "p < in_size ins"
    using assms(2) inv(3,4) by (cases "in_count ins = 0") (auto simp: p_def ring_pos_def)
  show "p \<le> length (in_buffer ins)"
  proof (cases "in_count ins = 0")
    case True
    with inv(3) assms(2) show ?thesis by (simp add: p_def ring_pos_def)
  next
    case False
    then obtain k where "in_count ins = Suc k" by (cases "in_count ins") auto
    with inv(4) inv(5) [of k] inv(5) [of 0] assms(2) show ?thesis
      by (auto simp: p_def ring_pos_def split: if_splits)
  qed
qed

lemma Inflights_Add_ok:
  assumes inv: "Inflights_inv ins" and "\<not> Inflights_Full ins"
  shows "\<exists>ins'. Inflights_Add index bytes ins = Some ins' \<and> Inflights_inv ins' \<and>
    Inflights_contents ins' = Inflights_contents ins @ [\<lparr>i_index = index, i_bytes = bytes\<rparr>] \<and>
    in_size ins' = in_size ins \<and> in_maxBytes ins' = in_maxBytes ins"
proof -
  let ?p = "ring_pos (in_size ins) (in_start ins) (in_count ins)"
    and ?e = "\<lparr>i_index = index, i_bytes = bytes\<rparr>"
  define g where "g = (if length (in_buffer ins) \<le> ?p then Inflights_grow ins else ins)"
  note invD = Inflights_invD [OF inv]
  have c: "in_count ins < in_size ins"
    using assms invD(1) by (simp add: Inflights_Full_def)
  note p = Inflights_next_pos [OF inv c]
  have g: "?p < length (in_buffer g)" "length (in_buffer g) \<le> in_size ins"
      "\<And>k. k < length (in_buffer ins) \<Longrightarrow> in_buffer g ! k = in_buffer ins ! k"
      "length (in_buffer ins) \<le> length (in_buffer g)"
    using p invD(2) Inflights_grow_room [of ins] by (auto simp: g_def)
  have gf: "in_start g = in_start ins" "in_count g = in_count ins" "in_bytes g = in_bytes ins"
      "in_size g = in_size ins" "in_maxBytes g = in_maxBytes ins"
    by (simp_all add: g_def)
  define r where "r = g\<lparr>in_buffer := (in_buffer g)[?p := ?e], in_count := in_count g + 1,
    in_bytes := in_bytes g + bytes\<rparr>"
  have add: "Inflights_Add index bytes ins = Some r"
    using assms(2) g(1) gf by (simp add: Inflights_Add_def put_go_def r_def g_def ring_pos_def Let_def)
  have start: "in_start ins < in_size ins"
    using invD(3,4) c by (cases "in_count ins = 0") auto
  have old: "(in_buffer g)[?p := ?e] ! ring_pos (in_size ins) (in_start ins) k =
      in_buffer ins ! ring_pos (in_size ins) (in_start ins) k" if "k < in_count ins" for k
    using that c start g(3) [OF invD(5) [OF that]] ring_pos_inj [OF start, of k "in_count ins"]
    by simp
  have con: "Inflights_contents r = Inflights_contents ins @ [?e]"
    using old g(1) by (simp add: Inflights_contents_def r_def gf)
  have rf: "in_count r = Suc (in_count ins)" "in_start r = in_start ins" "in_size r = in_size ins"
      "length (in_buffer r) = length (in_buffer g)" "in_bytes r = in_bytes ins + bytes"
    by (simp_all add: r_def gf)
  have "ring_pos (in_size ins) (in_start ins) k < length (in_buffer g)" if "k \<le> in_count ins" for k
    using that g(1,4) invD(5) [of k] by (cases "k = in_count ins") auto
  then have "Inflights_inv r"
    using c g(2) start by (simp add: Inflights_inv_def rf con invD(6) less_Suc_eq_le)
  with add con gf show ?thesis by (simp add: r_def)
qed


subsection \<open>Freeing acknowledged messages\<close>

abbreviation window :: "nat \<Rightarrow> inflight list \<Rightarrow> nat \<Rightarrow> nat \<Rightarrow> inflight list" where
  "window sz buffer start n \<equiv> map (\<lambda>k. buffer ! ring_pos sz start k) [0..<n]"

lemma window_Suc:
  assumes "start < sz" and "n < sz"
  shows "window sz buffer start (Suc n) =
    buffer ! start # window sz buffer (if sz \<le> start + 1 then start + 1 - sz else start + 1) n"
proof -
  have "window sz buffer start (Suc n) =
      buffer ! ring_pos sz start 0 # map (\<lambda>k. buffer ! ring_pos sz start (Suc k)) [0..<n]"
    by (rule map_upt_Suc)
  also have "map (\<lambda>k. buffer ! ring_pos sz start (Suc k)) [0..<n] =
      window sz buffer (if sz \<le> start + 1 then start + 1 - sz else start + 1) n"
    using assms by (intro map_cong) (simp_all add: ring_pos_step)
  finally show ?thesis using assms(1) by (simp add: ring_pos_def)
qed

lemma FreeLE_loop_eq:
  assumes "start < sz" and "n \<le> sz" and "\<And>k. k < n \<Longrightarrow> ring_pos sz start k < length buffer"
  shows "FreeLE_loop to sz buffer n start i bytes =
    (let t = takeWhile (\<lambda>e. i_index e \<le> to) (window sz buffer start n)
     in Some (ring_pos sz start (length t), i + length t, bytes + sum_list (map i_bytes t)))"
  using assms unfolding Let_def
proof (induction n arbitrary: start i bytes)
  case 0
  then show ?case by (simp add: ring_pos_def)
next
  case (Suc n)
  let ?s = "if sz \<le> start + 1 then start + 1 - sz else start + 1"
  let ?t = "takeWhile (\<lambda>e. i_index e \<le> to) (window sz buffer ?s n)"
  have at: "at_go buffer start = Some (buffer ! start)"
    using Suc.prems(1) Suc.prems(3) [of 0] by (simp add: at_go_def ring_pos_def)
  have w: "window sz buffer start (Suc n) = buffer ! start # window sz buffer ?s n"
    using Suc.prems by (intro window_Suc) simp_all
  have len: "length ?t \<le> n"
    using length_takeWhile_le [of _ "window sz buffer ?s n"] by simp
  have step: "ring_pos sz start (Suc (length ?t)) = ring_pos sz ?s (length ?t)"
    using Suc.prems(1,2) len by (intro ring_pos_step) simp_all
  have IH: "FreeLE_loop to sz buffer n ?s (i + 1) (bytes + i_bytes (buffer ! start)) =
      Some (ring_pos sz ?s (length ?t), i + 1 + length ?t,
            bytes + i_bytes (buffer ! start) + sum_list (map i_bytes ?t))"
  proof (rule Suc.IH)
    show "?s < sz" "n \<le> sz" using Suc.prems(1,2) by auto
    fix k assume "k < n"
    then show "ring_pos sz ?s k < length buffer"
      using Suc.prems(3) [of "Suc k"] Suc.prems(1,2) by (simp add: ring_pos_step)
  qed
  show ?case
  proof (cases "to < i_index (buffer ! start)")
    case True
    with at w Suc.prems(1) show ?thesis by (simp add: ring_pos_def)
  next
    case False
    with at w IH step show ?thesis by (simp add: not_less ac_simps)
  qed
qed

lemma ring_pos_add:
  assumes "start < sz" and "j + k < sz"
  shows "ring_pos sz (ring_pos sz start j) k = ring_pos sz start (j + k)"
  using assms by (auto simp: ring_pos_def)

lemma drop_window:
  assumes "start < sz" and "n \<le> sz" and "j \<le> n"
  shows "drop j (window sz buffer start n) = window sz buffer (ring_pos sz start j) (n - j)"
proof (rule nth_equalityI)
  fix i assume "i < length (drop j (window sz buffer start n))"
  then show "drop j (window sz buffer start n) ! i = window sz buffer (ring_pos sz start j) (n - j) ! i"
    using assms by (simp add: ring_pos_add)
qed (use assms in simp)

text \<open>Dropping the first \<open>j\<close> messages, as the tail of \<open>FreeLE\<close> does.\<close>

lemma Inflights_freed_inv:
  assumes inv: "Inflights_inv ins" and j: "j \<le> in_count ins"
  defines "r \<equiv> ins\<lparr>in_count := in_count ins - j,
      in_bytes := in_bytes ins - sum_list (map i_bytes (take j (Inflights_contents ins))),
      in_start := (if in_count ins - j = 0 then 0
        else ring_pos (in_size ins) (in_start ins) j)\<rparr>"
  shows "Inflights_inv r" and "Inflights_contents r = drop j (Inflights_contents ins)"
proof -
  note invD = Inflights_invD [OF inv]
  have pos: "ring_pos (in_size ins) (ring_pos (in_size ins) (in_start ins) j) k < length (in_buffer ins)"
    if "k < in_count ins - j" for k
    using that invD(1) invD(4) invD(5) [of "j + k"] by (simp add: ring_pos_add)
  show con: "Inflights_contents r = drop j (Inflights_contents ins)"
    using drop_window [OF invD(4) invD(1) j] j
    by (cases "in_count ins = j") (auto simp: Inflights_contents_def r_def)
  have "in_bytes ins - sum_list (map i_bytes (take j (Inflights_contents ins))) =
      sum_list (map i_bytes (drop j (Inflights_contents ins)))"
    unfolding invD(6)
    by (metis add_diff_cancel_left' append_take_drop_id map_append sum_list_append)
  moreover have "0 < in_count ins \<Longrightarrow> ring_pos (in_size ins) (in_start ins) j < in_size ins"
    using invD(1,4) j by (auto simp: ring_pos_def)
  ultimately show "Inflights_inv r"
    using con invD(1,2) pos j unfolding Inflights_inv_def r_def by auto
qed

lemma Inflights_FreeLE_ok:
  assumes inv: "Inflights_inv ins"
  shows "\<exists>ins'. Inflights_FreeLE to ins = Some ins' \<and> Inflights_inv ins' \<and>
    Inflights_contents ins' = dropWhile (\<lambda>e. i_index e \<le> to) (Inflights_contents ins) \<and>
    in_size ins' = in_size ins \<and> in_maxBytes ins' = in_maxBytes ins"
proof (cases "in_count ins = 0")
  case True
  with inv show ?thesis by (simp add: Inflights_FreeLE_def Inflights_contents_def)
next
  case False
  note invD = Inflights_invD [OF inv]
  let ?w = "Inflights_contents ins"
  let ?t = "takeWhile (\<lambda>e. i_index e \<le> to) ?w"
  have start: "in_start ins < in_size ins" using False invD(4) by simp
  have first: "at_go (in_buffer ins) (in_start ins) = Some (in_buffer ins ! in_start ins)"
    using False invD(5) [of 0] start by (simp add: at_go_def ring_pos_def)
  have hd: "?w = in_buffer ins ! in_start ins # tl ?w"
    using False start by (cases "in_count ins")
      (simp_all add: Inflights_contents_def map_upt_Suc ring_pos_def del: upt_Suc)
  have loop: "FreeLE_loop to (in_size ins) (in_buffer ins) (in_count ins) (in_start ins) 0 0 =
      Some (ring_pos (in_size ins) (in_start ins) (length ?t), length ?t, sum_list (map i_bytes ?t))"
    using FreeLE_loop_eq [OF start invD(1) invD(5)] by (simp add: Inflights_contents_def Let_def)
  have len: "length ?t \<le> in_count ins"
    using length_takeWhile_le [of _ ?w] by simp
  have rest: "dropWhile (\<lambda>e. i_index e \<le> to) ?w = drop (length ?t) ?w"
      "take (length ?t) ?w = ?t"
    by (simp_all add: dropWhile_eq_drop takeWhile_eq_take [symmetric])
  show ?thesis
  proof (cases "to < i_index (in_buffer ins ! in_start ins)")
    case True
    with hd have "dropWhile (\<lambda>e. i_index e \<le> to) ?w = ?w" by (metis dropWhile.simps(2) not_less)
    with True False first inv show ?thesis by (simp add: Inflights_FreeLE_def)
  next
    case ack: False
    show ?thesis
      using False ack first loop Inflights_freed_inv [OF inv len] rest
      by (simp add: Inflights_FreeLE_def Let_def)
  qed
qed


section \<open>The contract of the window\<close>

text \<open>
  The callers' view: a queue of messages with a limit on its length and a soft
  limit on its total bytes. A caller adds only to a window that is not full.
\<close>

datatype window_op = AddOp u64 u64 | AckOp u64 | ResetOp

definition queue_full :: "nat \<Rightarrow> u64 \<Rightarrow> inflight list \<Rightarrow> bool" where
  "queue_full sz maxBytes q \<longleftrightarrow>
     length q = sz \<or> (maxBytes \<noteq> 0 \<and> maxBytes \<le> sum_list (map i_bytes q))"

fun queue_step :: "nat \<Rightarrow> u64 \<Rightarrow> window_op \<Rightarrow> inflight list \<Rightarrow> inflight list" where
  "queue_step sz maxBytes (AddOp index bytes) q =
     (if queue_full sz maxBytes q then q else q @ [\<lparr>i_index = index, i_bytes = bytes\<rparr>])"
| "queue_step sz maxBytes (AckOp to) q = dropWhile (\<lambda>e. i_index e \<le> to) q"
| "queue_step sz maxBytes ResetOp q = []"

fun window_step :: "('s \<Rightarrow> bool) \<Rightarrow> (u64 \<Rightarrow> u64 \<Rightarrow> 's \<Rightarrow> 's go) \<Rightarrow> (u64 \<Rightarrow> 's \<Rightarrow> 's go) \<Rightarrow>
    ('s \<Rightarrow> 's) \<Rightarrow> window_op \<Rightarrow> 's \<Rightarrow> 's go" where
  "window_step full add free reset (AddOp index bytes) s =
     (if full s then Some s else add index bytes s)"
| "window_step full add free reset (AckOp to) s = free to s"
| "window_step full add free reset ResetOp s = Some (reset s)"

locale inflight_window =
  fixes inv :: "'s \<Rightarrow> bool"
    and contents :: "'s \<Rightarrow> inflight list"
    and limits :: "'s \<Rightarrow> nat \<times> u64"
    and full :: "'s \<Rightarrow> bool"
    and add :: "u64 \<Rightarrow> u64 \<Rightarrow> 's \<Rightarrow> 's go"
    and free :: "u64 \<Rightarrow> 's \<Rightarrow> 's go"
    and reset :: "'s \<Rightarrow> 's"
  assumes full_iff:
      "inv s \<Longrightarrow> full s \<longleftrightarrow> queue_full (fst (limits s)) (snd (limits s)) (contents s)"
    and add_ok: "inv s \<Longrightarrow> \<not> full s \<Longrightarrow> \<exists>s'. add index bytes s = Some s' \<and> inv s' \<and>
      contents s' = contents s @ [\<lparr>i_index = index, i_bytes = bytes\<rparr>] \<and> limits s' = limits s"
    and free_ok: "inv s \<Longrightarrow> \<exists>s'. free to s = Some s' \<and> inv s' \<and>
      contents s' = dropWhile (\<lambda>e. i_index e \<le> to) (contents s) \<and> limits s' = limits s"
    and reset_ok: "inv s \<Longrightarrow> inv (reset s) \<and> contents (reset s) = [] \<and> limits (reset s) = limits s"
    and bounded: "inv s \<Longrightarrow> length (contents s) \<le> fst (limits s)"
begin

lemma step_refines:
  assumes "inv s"
  shows "\<exists>s'. window_step full add free reset w s = Some s' \<and> inv s' \<and> limits s' = limits s \<and>
    contents s' = queue_step (fst (limits s)) (snd (limits s)) w (contents s)"
proof (cases w)
  case (AddOp index bytes)
  then show ?thesis
    using assms add_ok [OF assms, of index bytes] by (auto simp: full_iff [OF assms])
next
  case (AckOp to)
  then show ?thesis using free_ok [OF assms, of to] by auto
next
  case ResetOp
  then show ?thesis using reset_ok [OF assms] by simp
qed

lemma run_refines:
  assumes "inv s"
  shows "\<exists>s'. foldM (window_step full add free reset) ws s = Some s' \<and> inv s' \<and>
    limits s' = limits s \<and>
    contents s' = fold (queue_step (fst (limits s)) (snd (limits s))) ws (contents s)"
  using assms
proof (induction ws arbitrary: s)
  case Nil
  then show ?case by simp
next
  case (Cons w ws)
  obtain t where t: "window_step full add free reset w s = Some t" "inv t" "limits t = limits s"
      "contents t = queue_step (fst (limits s)) (snd (limits s)) w (contents s)"
    using step_refines [OF Cons.prems] by blast
  with Cons.IH [OF t(2)] show ?case by simp
qed

lemma run_bounded:
  assumes "inv s" and "foldM (window_step full add free reset) ws s = Some s'"
  shows "length (contents s') \<le> fst (limits s)"
  using run_refines [OF assms(1), of ws] assms(2) bounded by fastforce

end

lemma Inflights_reset_ok:
  "Inflights_inv ins \<Longrightarrow> Inflights_inv (Inflights_reset ins)"
  "Inflights_contents (Inflights_reset ins) = []"
  by (simp_all add: Inflights_inv_def Inflights_reset_def Inflights_contents_def)

lemma NewInflights_ok [simp]:
  "Inflights_inv (NewInflights sz maxBytes)"
  "Inflights_contents (NewInflights sz maxBytes) = []"
  by (simp_all add: Inflights_inv_def NewInflights_def Inflights_contents_def)

lemma Inflights_Full_iff:
  "Inflights_inv ins \<Longrightarrow>
     Inflights_Full ins \<longleftrightarrow> queue_full (in_size ins) (in_maxBytes ins) (Inflights_contents ins)"
  by (simp add: Inflights_Full_def queue_full_def Inflights_invD(6))

interpretation ring: inflight_window Inflights_inv Inflights_contents
  "\<lambda>ins. (in_size ins, in_maxBytes ins)" Inflights_Full Inflights_Add Inflights_FreeLE Inflights_reset
proof (unfold_locales, goal_cases)
  case (1 s)
  then show ?case by (simp add: Inflights_Full_iff)
next
  case (2 s index bytes)
  then show ?case using Inflights_Add_ok [of s index bytes] by auto
next
  case (3 s to)
  then show ?case using Inflights_FreeLE_ok [of s to] by auto
next
  case (4 s)
  then show ?case using Inflights_reset_ok by (simp add: Inflights_reset_def)
next
  case (5 s)
  then show ?case by (simp add: Inflights_invD(1))
qed

section \<open>Properties\<close>

text \<open>
  Property C14: the growing ring buffer is a queue. Whatever sequence of guarded
  additions, acknowledgements and resets is applied to a new \<open>Inflights\<close>, no
  operation panics, the live window of the buffer holds exactly the messages a
  plain list would hold, its byte total is theirs, and it never exceeds the
  configured size.
\<close>

theorem Inflights_refines_queue:
  "\<exists>ins. foldM (window_step Inflights_Full Inflights_Add Inflights_FreeLE Inflights_reset) ws
      (NewInflights sz maxBytes) = Some ins \<and>
    Inflights_contents ins = fold (queue_step sz maxBytes) ws [] \<and>
    Inflights_Count ins = length (fold (queue_step sz maxBytes) ws []) \<and>
    in_bytes ins = sum_list (map i_bytes (fold (queue_step sz maxBytes) ws [])) \<and>
    Inflights_Count ins \<le> sz"
proof -
  have lim: "in_size (NewInflights sz maxBytes) = sz" "in_maxBytes (NewInflights sz maxBytes) = maxBytes"
    by (simp_all add: NewInflights_def)
  obtain ins where ins: "foldM (window_step Inflights_Full Inflights_Add Inflights_FreeLE Inflights_reset)
        ws (NewInflights sz maxBytes) = Some ins"
      "Inflights_inv ins" "in_size ins = sz"
      "Inflights_contents ins = fold (queue_step sz maxBytes) ws []"
    using ring.run_refines [OF NewInflights_ok(1), of ws sz maxBytes] lim by auto
  with Inflights_invD(1,6) [OF ins(2)] length_Inflights_contents [of ins] show ?thesis
    by (auto simp: Inflights_Count_def)
qed

end
