(* ===== verification/Tracker_Progress.thy ===== *)
theory Tracker_Progress
  imports Inflights
begin

text \<open>
  A leader's view of one follower, \<open>tracker/progress.go\<close> and \<open>tracker/state.go\<close>.
  The transitions of a \<open>Progress\<close> are spread over the leader's code; the relation
  \<open>progress_step\<close> collects them with the conditions under which the leader
  performs them, and \<open>Progress_inv\<close> is the invariant its comments promise.
\<close>

section \<open>The state and its operations\<close>

datatype Progress_StateType = StateProbe | StateReplicate | StateSnapshot

record Progress =
  pr_Match :: u64
  pr_Next :: u64
  pr_SentCommit :: u64
  pr_MatchCommit :: u64
  pr_State :: Progress_StateType
  pr_PendingSnapshot :: u64
  pr_RecentActive :: bool
  pr_MsgAppProbesPaused :: bool
  pr_Inflights :: Inflights
  pr_IsLearner :: bool

definition Progress_ResetState :: "Progress_StateType \<Rightarrow> Progress \<Rightarrow> Progress" where
  "Progress_ResetState state pr =
     pr\<lparr>pr_MsgAppProbesPaused := False, pr_PendingSnapshot := 0, pr_State := state,
        pr_Inflights := Inflights_reset (pr_Inflights pr)\<rparr>"

definition Progress_BecomeProbe :: "Progress \<Rightarrow> Progress" where
  "Progress_BecomeProbe pr =
     (let pr' =
        (if pr_State pr = StateSnapshot
         then let pendingSnapshot = pr_PendingSnapshot pr;
                  pr = Progress_ResetState StateProbe pr
              in pr\<lparr>pr_Next := max (pr_Match pr + 1) (pendingSnapshot + 1)\<rparr>
         else let pr = Progress_ResetState StateProbe pr
              in pr\<lparr>pr_Next := pr_Match pr + 1\<rparr>)
      in pr'\<lparr>pr_SentCommit := min (pr_SentCommit pr') (pr_Next pr' - 1)\<rparr>)"

definition Progress_BecomeReplicate :: "Progress \<Rightarrow> Progress" where
  "Progress_BecomeReplicate pr =
     (let pr = Progress_ResetState StateReplicate pr in pr\<lparr>pr_Next := pr_Match pr + 1\<rparr>)"

definition Progress_BecomeSnapshot :: "u64 \<Rightarrow> Progress \<Rightarrow> Progress" where
  "Progress_BecomeSnapshot snapshoti pr =
     (Progress_ResetState StateSnapshot pr)
       \<lparr>pr_PendingSnapshot := snapshoti, pr_Next := snapshoti + 1, pr_SentCommit := snapshoti\<rparr>"

definition Progress_SentEntries :: "nat \<Rightarrow> u64 \<Rightarrow> Progress \<Rightarrow> Progress go" where
  "Progress_SentEntries entries bytes pr = do {
     pr \<leftarrow> (if pr_State pr = StateReplicate \<and> 0 < entries then do {
              let pr = pr\<lparr>pr_Next := pr_Next pr + of_nat entries\<rparr>;
              ins \<leftarrow> Inflights_Add (pr_Next pr - 1) bytes (pr_Inflights pr);
              Some (pr\<lparr>pr_Inflights := ins\<rparr>)
            } else Some pr);
     Some (pr\<lparr>pr_MsgAppProbesPaused := True\<rparr>)
   }"

definition Progress_CanSendEntries :: "u64 \<Rightarrow> Progress \<Rightarrow> bool" where
  "Progress_CanSendEntries lastIndex pr \<longleftrightarrow>
     pr_Next pr \<le> lastIndex \<and>
     (pr_State pr = StateProbe \<or> \<not> Inflights_Full (pr_Inflights pr))"

definition Progress_CanBumpCommit :: "u64 \<Rightarrow> Progress \<Rightarrow> bool" where
  "Progress_CanBumpCommit index pr \<longleftrightarrow>
     pr_SentCommit pr < index \<and> pr_SentCommit pr < pr_Next pr - 1"

definition Progress_IsFollowerCommitStale :: "u64 \<Rightarrow> Progress \<Rightarrow> bool" where
  "Progress_IsFollowerCommitStale index pr \<longleftrightarrow>
     pr_MatchCommit pr < index \<and> pr_MatchCommit pr + 1 < pr_Next pr"

definition Progress_MaybeUpdateSentCommit :: "u64 \<Rightarrow> Progress \<Rightarrow> Progress" where
  "Progress_MaybeUpdateSentCommit commit pr =
     (if pr_SentCommit pr < commit then pr\<lparr>pr_SentCommit := commit\<rparr> else pr)"

definition Progress_MaybeUpdate :: "u64 \<Rightarrow> Progress \<Rightarrow> Progress \<times> bool" where
  "Progress_MaybeUpdate n pr =
     (if n \<le> pr_Match pr then (pr, False)
      else (pr\<lparr>pr_Match := n, pr_Next := max (pr_Next pr) (n + 1)\<rparr>, True))"

definition Progress_MaybeUpdateMatchCommit :: "u64 \<Rightarrow> Progress \<Rightarrow> Progress" where
  "Progress_MaybeUpdateMatchCommit commit pr =
     (if pr_MatchCommit pr < commit
      then pr\<lparr>pr_MatchCommit := commit, pr_SentCommit := max (pr_SentCommit pr) commit\<rparr>
      else pr)"

definition Progress_MaybeDecrTo :: "u64 \<Rightarrow> u64 \<Rightarrow> Progress \<Rightarrow> Progress \<times> bool" where
  "Progress_MaybeDecrTo rejected matchHint pr =
     (if pr_State pr = StateReplicate then
        if rejected \<le> pr_Match pr then (pr, False)
        else
          let pr = pr\<lparr>pr_Next := pr_Match pr + 1\<rparr>;
              pr = pr\<lparr>pr_SentCommit := min (pr_SentCommit pr) (pr_Next pr - 1)\<rparr>
          in (pr, True)
      else if pr_Next pr - 1 \<noteq> rejected then (pr, False)
      else
        let pr = pr\<lparr>pr_Next := max (min rejected (matchHint + 1)) (pr_Match pr + 1)\<rparr>;
            pr = pr\<lparr>pr_SentCommit := min (pr_SentCommit pr) (pr_Next pr - 1)\<rparr>;
            pr = pr\<lparr>pr_MsgAppProbesPaused := False\<rparr>
        in (pr, True))"

definition Progress_IsPaused :: "Progress \<Rightarrow> bool" where
  "Progress_IsPaused pr =
     (case pr_State pr of
        StateProbe \<Rightarrow> pr_MsgAppProbesPaused pr
      | StateReplicate \<Rightarrow> pr_MsgAppProbesPaused pr \<and> Inflights_Full (pr_Inflights pr)
      | StateSnapshot \<Rightarrow> True)"

definition Progress_ShouldSendMsgApp :: "u64 \<Rightarrow> u64 \<Rightarrow> bool \<Rightarrow> Progress \<Rightarrow> bool" where
  "Progress_ShouldSendMsgApp lastIndex commit advanceCommit pr =
     (case pr_State pr of
        StateProbe \<Rightarrow> \<not> pr_MsgAppProbesPaused pr
      | StateReplicate \<Rightarrow>
          if Progress_CanSendEntries lastIndex pr then True
          else if pr_Match pr < lastIndex \<and> \<not> pr_MsgAppProbesPaused pr then True
          else if Progress_CanBumpCommit commit pr then True
          else if advanceCommit
          then Progress_IsFollowerCommitStale commit pr \<and> \<not> pr_MsgAppProbesPaused pr
          else False
      | StateSnapshot \<Rightarrow> False)"

lemmas Progress_defs =
  Progress_ResetState_def Progress_BecomeProbe_def Progress_BecomeReplicate_def
  Progress_BecomeSnapshot_def Progress_MaybeUpdateSentCommit_def Progress_MaybeUpdate_def
  Progress_MaybeUpdateMatchCommit_def Progress_MaybeDecrTo_def Let_def

section \<open>The invariant\<close>

definition Progress_inv :: "Progress \<Rightarrow> bool" where
  "Progress_inv pr \<longleftrightarrow>
     pr_Match pr < pr_Next pr \<and>
     Inflights_inv (pr_Inflights pr) \<and>
     (pr_State pr \<noteq> StateReplicate \<longrightarrow> Inflights_contents (pr_Inflights pr) = []) \<and>
     (pr_State pr = StateSnapshot \<longrightarrow> pr_PendingSnapshot pr < MaxUint64)"

text \<open>
  The life of the \<open>Progress\<close> of one peer, paired with the last index of the log of the
  node that keeps it. Each rule is one of the assignments and calls of \<open>raft.go\<close> and
  \<open>confchange.go\<close> that change a \<open>Progress\<close>:

  \<^item> \<open>step_reset\<close>, \<open>reset\<close>: the log may have been rewritten since the last leadership;
  \<^item> \<open>step_init\<close> and \<open>step_learner\<close>, \<open>initProgress\<close> and the changes of \<open>IsLearner\<close>;
  \<^item> \<open>step_own_append\<close>, \<open>appendEntry\<close> on the leader's own \<open>Progress\<close>, and
    \<open>step_append\<close>, the same call seen from the \<open>Progress\<close> of another peer;
  \<^item> \<open>step_snapshot\<close>, \<open>maybeSendSnapshot\<close>, which \<open>maybeSendAppend\<close> calls when the entry
    before \<open>Next\<close> is compacted;
  \<^item> \<open>step_sent\<close>, \<open>maybeSendAppend\<close>: the entries come from the log, starting at \<open>Next\<close>;
  \<^item> \<open>step_update\<close>, \<open>step_free\<close>, \<open>step_decr\<close> and \<open>step_match_commit\<close>, the handling of
    \<open>MsgAppResp\<close>, and the remaining rules the other handlers of \<open>stepLeader\<close>.

  Two guards are not tests of the code but what it relies on. A snapshot covers the
  compacted prefix (the comment of \<open>Storage.FirstIndex\<close>: older entries have been
  incorporated into the latest snapshot) and is a snapshot of this log, so it ends
  within it. A follower acknowledges only entries of the leader's log. That
  \<open>maybeSendAppend\<close> and \<open>appendEntry\<close> perform steps of the relation is shown in
  \<open>Raft_Core\<close>.
\<close>

inductive progress_step :: "u64 \<times> Progress \<Rightarrow> u64 \<times> Progress \<Rightarrow> bool" where
  step_reset: "lst' < MaxUint64 \<Longrightarrow> progress_step (lst, pr)
    (lst', \<lparr>pr_Match = (if own then lst' else 0), pr_Next = lst' + 1, pr_SentCommit = 0,
      pr_MatchCommit = 0, pr_State = StateProbe, pr_PendingSnapshot = 0, pr_RecentActive = False,
      pr_MsgAppProbesPaused = False, pr_Inflights = NewInflights sz maxBytes,
      pr_IsLearner = pr_IsLearner pr\<rparr>)"
| step_init: "progress_step (lst, pr)
    (lst, \<lparr>pr_Match = 0, pr_Next = max lst 1, pr_SentCommit = 0,
      pr_MatchCommit = 0, pr_State = StateProbe, pr_PendingSnapshot = 0, pr_RecentActive = True,
      pr_MsgAppProbesPaused = False, pr_Inflights = NewInflights sz maxBytes,
      pr_IsLearner = isLearner\<rparr>)"
| step_learner: "progress_step (lst, pr) (lst, pr\<lparr>pr_IsLearner := isLearner\<rparr>)"
| step_own_append: "lst \<le> lst' \<Longrightarrow> lst' < MaxUint64 \<Longrightarrow>
    progress_step (lst, pr) (lst', pr\<lparr>pr_Next := lst' + 1\<rparr>)"
| step_append: "lst \<le> lst' \<Longrightarrow> lst' < MaxUint64 \<Longrightarrow> progress_step (lst, pr) (lst', pr)"
| step_probe: "progress_step (lst, pr) (lst, Progress_BecomeProbe pr)"
| step_replicate: "progress_step (lst, pr) (lst, Progress_BecomeReplicate pr)"
| step_snapshot: "pr_Next pr - 1 < compacted \<Longrightarrow> compacted \<le> snapshoti \<Longrightarrow> snapshoti \<le> lst \<Longrightarrow>
    progress_step (lst, pr) (lst, Progress_BecomeSnapshot snapshoti pr)"
| step_sent: "(if n = 0 then True else Progress_CanSendEntries lst pr) \<Longrightarrow>
    unat (pr_Next pr) + n \<le> unat lst + 1 \<Longrightarrow>
    Progress_SentEntries n bytes pr = Some pr' \<Longrightarrow> progress_step (lst, pr) (lst, pr')"
| step_sent_commit: "progress_step (lst, pr) (lst, Progress_MaybeUpdateSentCommit commit pr)"
| step_update: "n \<le> lst \<Longrightarrow> progress_step (lst, pr) (lst, fst (Progress_MaybeUpdate n pr))"
| step_match_commit: "progress_step (lst, pr) (lst, Progress_MaybeUpdateMatchCommit commit pr)"
| step_decr: "progress_step (lst, pr) (lst, fst (Progress_MaybeDecrTo rejected matchHint pr))"
| step_free: "Inflights_FreeLE to (pr_Inflights pr) = Some ins \<Longrightarrow>
    progress_step (lst, pr) (lst, pr\<lparr>pr_Inflights := ins\<rparr>)"
| step_paused: "progress_step (lst, pr) (lst, pr\<lparr>pr_MsgAppProbesPaused := paused\<rparr>)"
| step_active: "progress_step (lst, pr) (lst, pr\<lparr>pr_RecentActive := active\<rparr>)"
| step_failed_snapshot: "progress_step (lst, pr) (lst, pr\<lparr>pr_PendingSnapshot := 0\<rparr>)"

text \<open>The invariant relative to the log: nothing beyond its end is sent or awaited.\<close>

definition Progress_within :: "u64 \<Rightarrow> Progress \<Rightarrow> bool" where
  "Progress_within lst pr \<longleftrightarrow>
     Progress_inv pr \<and> lst < MaxUint64 \<and> pr_Next pr \<le> lst + 1 \<and>
     (pr_State pr = StateSnapshot \<longrightarrow> pr_PendingSnapshot pr \<le> lst)"

lemma Progress_ResetState_inv:
  "Progress_inv pr \<Longrightarrow> st \<noteq> StateSnapshot \<Longrightarrow> Progress_inv (Progress_ResetState st pr)"
  by (auto simp: Progress_inv_def Progress_ResetState_def Inflights_reset_ok)

lemma Progress_BecomeProbe_inv [wf_intros]:
  assumes "Progress_inv pr" shows "Progress_inv (Progress_BecomeProbe pr)"
proof -
  have "pr_Match pr < pr_Match pr + 1"
    using assms by (auto simp: Progress_inv_def intro: word_less_succ)
  with assms show ?thesis
    by (auto simp: Progress_inv_def Progress_BecomeProbe_def Progress_ResetState_def Let_def
        Inflights_reset_ok less_max_iff_disj)
qed

lemma Progress_BecomeReplicate_inv [wf_intros]:
  assumes "Progress_inv pr" shows "Progress_inv (Progress_BecomeReplicate pr)"
  using assms by (auto simp: Progress_inv_def Progress_BecomeReplicate_def Progress_ResetState_def
      Let_def Inflights_reset_ok intro: word_less_succ)

lemma Progress_BecomeSnapshot_inv [wf_intros]:
  assumes "Progress_inv pr" and "pr_Match pr \<le> snapshoti" and "snapshoti < MaxUint64"
  shows "Progress_inv (Progress_BecomeSnapshot snapshoti pr)"
  using assms word_less_succ [OF assms(3)]
  by (auto simp: Progress_inv_def Progress_BecomeSnapshot_def Progress_ResetState_def
      Inflights_reset_ok)

lemma Progress_MaybeUpdateSentCommit_inv [wf_intros]:
  "Progress_inv pr \<Longrightarrow> Progress_inv (Progress_MaybeUpdateSentCommit commit pr)"
  by (simp add: Progress_inv_def Progress_MaybeUpdateSentCommit_def)

lemma Progress_MaybeUpdateMatchCommit_inv [wf_intros]:
  "Progress_inv pr \<Longrightarrow> Progress_inv (Progress_MaybeUpdateMatchCommit commit pr)"
  by (simp add: Progress_inv_def Progress_MaybeUpdateMatchCommit_def)

lemma Progress_MaybeUpdate_inv [wf_intros]:
  assumes "Progress_inv pr" and "n < MaxUint64"
  shows "Progress_inv (fst (Progress_MaybeUpdate n pr))"
  using assms word_less_succ [OF assms(2)]
  by (auto simp: Progress_inv_def Progress_MaybeUpdate_def less_max_iff_disj)

lemma Progress_MaybeDecrTo_inv [wf_intros]:
  assumes "Progress_inv pr"
  shows "Progress_inv (fst (Progress_MaybeDecrTo rejected matchHint pr))"
proof -
  have "pr_Match pr < pr_Match pr + 1"
    using assms by (auto simp: Progress_inv_def intro: word_less_succ)
  with assms show ?thesis
    by (auto simp: Progress_inv_def Progress_MaybeDecrTo_def Let_def less_max_iff_disj)
qed

lemma Progress_FreeLE_inv [wf_intros]:
  assumes "Progress_inv pr" and "Inflights_FreeLE to (pr_Inflights pr) = Some ins"
  shows "Progress_inv (pr\<lparr>pr_Inflights := ins\<rparr>)"
  using assms Inflights_FreeLE_ok [of "pr_Inflights pr" to] by (auto simp: Progress_inv_def)

text \<open>Sending does not panic when \<open>CanSendEntries\<close> has allowed it.\<close>

lemma Progress_SentEntries_ok:
  assumes "Progress_inv pr"
    and "if n = 0 then True else Progress_CanSendEntries lastIndex pr"
    and "unat (pr_Next pr) + n \<le> unat lastIndex + 1" and "lastIndex < MaxUint64"
  shows "\<exists>pr'. Progress_SentEntries n bytes pr = Some pr' \<and> Progress_inv pr' \<and>
    pr_MsgAppProbesPaused pr' \<and> pr_State pr' = pr_State pr \<and> pr_Match pr' = pr_Match pr \<and>
    pr_Next pr' = (if pr_State pr = StateReplicate then pr_Next pr + of_nat n else pr_Next pr)"
proof (cases "pr_State pr = StateReplicate \<and> 0 < n")
  case False
  with assms(1) show ?thesis
    by (auto simp: Progress_SentEntries_def Progress_inv_def)
next
  case True
  with assms(2) have "\<not> Inflights_Full (pr_Inflights pr)"
    by (auto simp: Progress_CanSendEntries_def)
  then obtain ins where ins:
      "Inflights_Add (pr_Next pr + of_nat n - 1) bytes (pr_Inflights pr) = Some ins" "Inflights_inv ins"
    using assms(1) Inflights_Add_ok [of "pr_Inflights pr"] by (metis Progress_inv_def)
  have "unat lastIndex + 1 < 2 ^ 64"
    using assms(4) by (simp add: word_less_nat_alt unat_MaxUint64)
  then have "pr_Next pr \<le> pr_Next pr + of_nat n"
    using assms(3) by (simp add: word_le_nat_alt unat_add_u64 unat_of_nat_u64)
  then have "pr_Match pr < pr_Next pr + of_nat n"
    using assms(1) by (auto simp: Progress_inv_def)
  with True ins assms(1) show ?thesis
    by (auto simp: Progress_SentEntries_def Progress_inv_def Let_def)
qed

text \<open>What a genuine rejection does to the position of the next probe.\<close>

lemma Progress_MaybeDecrTo_Next:
  assumes "Progress_inv pr" and "Progress_MaybeDecrTo rejected matchHint pr = (pr', True)"
  shows "pr_Match pr' < pr_Next pr'" and "pr_Match pr' = pr_Match pr"
    and "pr_Next pr' \<le> pr_Next pr"
    and "pr_Match pr + 1 < pr_Next pr \<Longrightarrow> pr_Next pr' < pr_Next pr"
    and "pr_SentCommit pr' < pr_Next pr'"
proof -
  have m: "pr_Match pr < pr_Next pr" using assms(1) by (simp add: Progress_inv_def)
  have l: "pr_Match pr < pr_Match pr + 1" "pr_Match pr + 1 \<le> pr_Next pr"
    using word_less_succ [OF m] word_succ_le [OF m] by simp_all
  note n = word_pred_less [OF m]
  show "pr_Match pr' < pr_Next pr'" "pr_Match pr' = pr_Match pr" "pr_Next pr' \<le> pr_Next pr"
      "pr_Match pr + 1 < pr_Next pr \<Longrightarrow> pr_Next pr' < pr_Next pr"
    using assms(2) l n
    by (auto simp: Progress_MaybeDecrTo_def Let_def less_max_iff_disj max_def min_def
        split: if_splits)
  then show "pr_SentCommit pr' < pr_Next pr'"
    using assms(2) word_pred_less [of "pr_Match pr'" "pr_Next pr'"]
    by (auto simp: Progress_MaybeDecrTo_def Let_def min_less_iff_disj split: if_splits)
qed

subsection \<open>Staying within the log\<close>

lemma Progress_withinD:
  assumes "Progress_within lst pr"
  shows "Progress_inv pr" and "lst < MaxUint64" and "pr_Next pr \<le> lst + 1"
    and "pr_State pr = StateSnapshot \<Longrightarrow> pr_PendingSnapshot pr \<le> lst"
    and "pr_Match pr < pr_Next pr" and "pr_Match pr \<le> lst"
proof -
  have "pr_Match pr < lst + 1"
    using assms by (auto simp: Progress_within_def Progress_inv_def)
  then show "pr_Match pr \<le> lst"
    using word_pred_ge [of "pr_Match pr" "lst + 1"] by simp
qed (use assms in \<open>auto simp: Progress_within_def Progress_inv_def\<close>)

lemma word_succ_mono: "(m::u64) \<le> n \<Longrightarrow> n < MaxUint64 \<Longrightarrow> m + 1 \<le> n + 1"
  by (simp add: word_le_nat_alt unat_succ_u64 [of _ MaxUint64] le_less_trans)

lemma Progress_within_append:
  assumes "Progress_within lst pr" and "lst \<le> lst'" and "lst' < MaxUint64"
  shows "Progress_within lst' pr" and "Progress_within lst' (pr\<lparr>pr_Next := lst' + 1\<rparr>)"
proof -
  note w = Progress_withinD [OF assms(1)]
  have n: "pr_Next pr \<le> lst' + 1"
    using w(3) word_succ_mono [OF assms(2,3)] by (rule order_trans)
  have p: "pr_State pr = StateSnapshot \<Longrightarrow> pr_PendingSnapshot pr \<le> lst'"
    using w(4) assms(2) by (auto intro: order_trans)
  show "Progress_within lst' pr" "Progress_within lst' (pr\<lparr>pr_Next := lst' + 1\<rparr>)"
    using w(1) n p assms(3) by (auto simp: Progress_within_def Progress_inv_def)
qed

lemma Progress_within_flags:
  "Progress_within lst (pr\<lparr>pr_IsLearner := b\<rparr>) = Progress_within lst pr"
  "Progress_within lst (pr\<lparr>pr_MsgAppProbesPaused := b\<rparr>) = Progress_within lst pr"
  "Progress_within lst (pr\<lparr>pr_RecentActive := b\<rparr>) = Progress_within lst pr"
  by (simp_all add: Progress_within_def Progress_inv_def)

lemma Progress_within_probe:
  assumes "Progress_within lst pr" shows "Progress_within lst (Progress_BecomeProbe pr)"
proof -
  note w = Progress_withinD [OF assms]
  have "pr_Match pr + 1 \<le> lst + 1" using w(6,2) by (rule word_succ_mono)
  moreover have "pr_PendingSnapshot pr + 1 \<le> lst + 1" if "pr_State pr = StateSnapshot"
    using w(4) [OF that] w(2) by (rule word_succ_mono)
  ultimately show ?thesis
    using w(2) Progress_BecomeProbe_inv [OF w(1)] by (auto simp: Progress_within_def Progress_defs)
qed

lemma Progress_within_snapshot:
  assumes "Progress_within lst pr" and "pr_Next pr - 1 < compacted" and "compacted \<le> snapshoti" and "snapshoti \<le> lst"
  shows "Progress_within lst (Progress_BecomeSnapshot snapshoti pr)"
proof -
  note w = Progress_withinD [OF assms(1)]
  have "pr_Match pr \<le> snapshoti"
    using word_pred_ge [OF w(5)] assms(2,3) by (meson le_less_trans less_imp_le order_trans)
  moreover have "snapshoti < MaxUint64" using assms(4) w(2) by (rule le_less_trans)
  ultimately have "Progress_inv (Progress_BecomeSnapshot snapshoti pr)"
    by (rule Progress_BecomeSnapshot_inv [OF w(1)])
  with assms(4) w(2) word_succ_mono [OF assms(4) w(2)] show ?thesis
    by (auto simp: Progress_within_def Progress_defs)
qed

lemma Progress_within_sent:
  assumes "Progress_within lst pr" and "if n = 0 then True else Progress_CanSendEntries lst pr"
    and "unat (pr_Next pr) + n \<le> unat lst + 1" and "Progress_SentEntries n bytes pr = Some pr'"
  shows "Progress_within lst pr'"
proof -
  note w = Progress_withinD [OF assms(1)]
  have l: "unat (lst + 1) = unat lst + 1" using w(2) by (rule unat_succ_u64)
  then have "pr_Next pr + of_nat n \<le> lst + 1"
    using assms(3) u64_less [of "lst + 1"] by (simp add: word_le_nat_alt unat_add_u64 unat_of_nat_u64)
  moreover have "pr_PendingSnapshot pr' = pr_PendingSnapshot pr"
    using assms(4) by (auto simp: Progress_SentEntries_def Let_def bind_eq_Some_conv split: if_splits)
  ultimately show ?thesis
    using w Progress_SentEntries_ok [OF w(1) assms(2,3) w(2), of bytes] assms(4)
    by (auto simp: Progress_within_def)
qed

lemma Progress_within_update:
  assumes "Progress_within lst pr" and "n \<le> lst"
  shows "Progress_within lst (fst (Progress_MaybeUpdate n pr))"
proof -
  note w = Progress_withinD [OF assms(1)]
  have "Progress_inv (fst (Progress_MaybeUpdate n pr))"
    using w(1) le_less_trans [OF assms(2) w(2)] by (rule Progress_MaybeUpdate_inv)
  with w word_succ_mono [OF assms(2) w(2)] show ?thesis
    by (auto simp: Progress_within_def Progress_MaybeUpdate_def)
qed

lemma Progress_within_decr:
  assumes "Progress_within lst pr"
  shows "Progress_within lst (fst (Progress_MaybeDecrTo rejected matchHint pr))"
proof (cases "Progress_MaybeDecrTo rejected matchHint pr")
  case (Pair pr' genuine)
  note w = Progress_withinD [OF assms]
  have "pr_Next pr' \<le> pr_Next pr"
    using Progress_MaybeDecrTo_Next(3) [OF w(1), of rejected matchHint pr'] Pair
    by (cases genuine) (auto simp: Progress_MaybeDecrTo_def Let_def split: if_splits)
  moreover have "pr_State pr' = pr_State pr" "pr_PendingSnapshot pr' = pr_PendingSnapshot pr"
    using Pair by (auto simp: Progress_MaybeDecrTo_def Let_def split: if_splits)
  ultimately show ?thesis
    using w Pair Progress_MaybeDecrTo_inv [OF w(1), of rejected matchHint]
    by (auto simp: Progress_within_def)
qed

lemma progress_step_within:
  assumes "progress_step (lst, pr) (lst', pr')" and "Progress_within lst pr"
  shows "Progress_within lst' pr'"
proof -
  note w = Progress_withinD [OF assms(2)]
  show ?thesis
    using assms(1)
  proof (cases rule: progress_step.cases)
    case step_reset
    then show ?thesis
      using word_less_succ [of lst' MaxUint64] by (auto simp: Progress_within_def Progress_inv_def intro: le_less_trans [of 0 lst'])
  next
    case step_init
    then show ?thesis
      using w(2) word_less_succ [of lst MaxUint64] word_succ_mono [of 0 lst]
      by (auto simp: Progress_within_def Progress_inv_def less_max_iff_disj)
  next
    case step_replicate
    then show ?thesis
      using w(2) Progress_BecomeReplicate_inv [OF w(1)] word_succ_mono [OF w(6,2)]
      by (auto simp: Progress_within_def Progress_defs)
  next
    case step_sent_commit
    then show ?thesis
      using w Progress_MaybeUpdateSentCommit_inv [OF w(1)] by (auto simp: Progress_within_def Progress_defs)
  next
    case step_match_commit
    then show ?thesis
      using w Progress_MaybeUpdateMatchCommit_inv [OF w(1)] by (auto simp: Progress_within_def Progress_defs)
  next
    case step_free
    then show ?thesis
      using w Progress_FreeLE_inv [OF w(1)] by (auto simp: Progress_within_def)
  next
    case step_failed_snapshot
    then show ?thesis using w le_less_trans [OF word_zero_le w(2)] by (auto simp: Progress_within_def Progress_inv_def)
  qed (use assms(2) in \<open>auto simp: Progress_within_flags
      intro: Progress_within_append Progress_within_probe Progress_within_snapshot
        Progress_within_sent Progress_within_update Progress_within_decr\<close>)
qed

lemma progress_steps_within:
  "progress_step\<^sup>*\<^sup>* s s' \<Longrightarrow> Progress_within (fst s) (snd s) \<Longrightarrow> Progress_within (fst s') (snd s')"
  by (induction rule: rtranclp_induct) (auto intro: progress_step_within)

section \<open>Properties\<close>

text \<open>
  Property C15: along every sequence of changes that a node makes to the \<open>Progress\<close>
  of a peer or to its own, appends to its log included, \<open>Match < Next\<close> holds and
  \<open>Next\<close> is at most one past the end of the log, the window of in-flight messages
  is well formed and empty outside \<open>StateReplicate\<close>, and sending entries of the log
  that \<open>CanSendEntries\<close> allows never panics on a full window. The changes are those
  of \<open>progress_step\<close>: a snapshot is sent only to a peer whose next entry is not
  available, and covers the compacted prefix of the log but not more than the log,
  and acknowledgements are for entries of the log.
\<close>

theorem Progress_reachable_inv:
  assumes "Progress_within lst pr" and "progress_step\<^sup>*\<^sup>* (lst, pr) (lst', pr')"
  shows "pr_Match pr' < pr_Next pr' \<and> pr_Next pr' \<le> lst' + 1 \<and> Inflights_inv (pr_Inflights pr') \<and>
    (pr_State pr' = StateReplicate \<or> Inflights_Count (pr_Inflights pr') = 0) \<and>
    (Progress_CanSendEntries lst' pr' \<and> unat (pr_Next pr') + n \<le> unat lst' + 1 \<longrightarrow>
       (\<exists>pr''. Progress_SentEntries n bytes pr' = Some pr''))"
proof -
  have w: "Progress_within lst' pr'" using progress_steps_within [OF assms(2)] assms(1) by simp
  note inv = Progress_withinD(1) [OF w]
  have "pr_State pr' = StateReplicate \<or> Inflights_Count (pr_Inflights pr') = 0"
    using inv by (metis Inflights_Count_def Progress_inv_def length_Inflights_contents list.size(3))
  moreover have "\<exists>pr''. Progress_SentEntries n bytes pr' = Some pr''"
    if "Progress_CanSendEntries lst' pr'" "unat (pr_Next pr') + n \<le> unat lst' + 1"
    using Progress_SentEntries_ok [OF inv _ that(2) Progress_withinD(2) [OF w], of bytes, simplified that(1)] by auto
  ultimately show ?thesis using inv Progress_withinD(3) [OF w] by (simp add: Progress_inv_def)
qed

theorem Progress_reachable_inv_witness:
  "\<exists>pr pr'. progress_step\<^sup>*\<^sup>* (10, pr) (12, pr') \<and> pr_Match pr = 3 \<and> pr_State pr' = StateSnapshot \<and>
     pr_PendingSnapshot pr' = 9 \<and> pr_Match pr' < pr_Next pr' \<and> pr_Next pr' \<le> 12 + 1"
proof -
  let ?pr = "\<lparr>pr_Match = 3, pr_Next = 5, pr_SentCommit = 2,
      pr_MatchCommit = 2, pr_State = StateProbe, pr_PendingSnapshot = 0, pr_RecentActive = True,
      pr_MsgAppProbesPaused = True, pr_Inflights = NewInflights 4 0, pr_IsLearner = False\<rparr>"
  have "progress_step (10, ?pr) (12, ?pr)" by (rule step_append) simp_all
  moreover have "progress_step (12, ?pr) (12, Progress_BecomeSnapshot 9 ?pr)"
    by (rule step_snapshot [of _ 7]) simp_all
  ultimately have run: "progress_step\<^sup>*\<^sup>* (10, ?pr) (12, Progress_BecomeSnapshot 9 ?pr)" by simp
  have "Progress_within 10 ?pr" by (simp add: Progress_within_def Progress_inv_def)
  note Progress_reachable_inv [OF this run]
  moreover have "pr_Match ?pr = 3" "pr_State (Progress_BecomeSnapshot 9 ?pr) = StateSnapshot"
      "pr_PendingSnapshot (Progress_BecomeSnapshot 9 ?pr) = 9"
    by (simp_all add: Progress_BecomeSnapshot_def Progress_ResetState_def)
  ultimately show ?thesis using run by blast
qed

text \<open>
  Property C22: a rejection that \<open>MaybeDecrTo\<close> accepts keeps \<open>Match\<close>, never moves
  \<open>Next\<close> up, keeps it above \<open>Match\<close>, moves it strictly down whenever there is
  room, and brings the in-flight commit index below it. Probing a follower can
  therefore be rejected only finitely often before \<open>Next\<close> reaches \<open>Match + 1\<close>.
\<close>

theorem Progress_MaybeDecrTo_lowers_Next:
  assumes "Progress_inv pr" and "Progress_MaybeDecrTo rejected matchHint pr = (pr', True)"
  shows "pr_Match pr' = pr_Match pr \<and> pr_Match pr' < pr_Next pr' \<and>
    pr_SentCommit pr' < pr_Next pr' \<and>
    (if pr_Next pr = pr_Match pr + 1 then pr_Next pr' = pr_Next pr
     else pr_Next pr' < pr_Next pr)"
proof -
  note d = Progress_MaybeDecrTo_Next [OF assms]
  have m: "pr_Match pr < pr_Next pr" using assms(1) by (simp add: Progress_inv_def)
  have "pr_Match pr + 1 \<le> pr_Next pr'"
    using word_succ_le [OF d(1)] d(2) by simp
  with d word_succ_le [OF m] show ?thesis by auto
qed

theorem Progress_MaybeDecrTo_lowers_Next_witness:
  "pr_Next (fst (Progress_MaybeDecrTo 8 4 \<lparr>pr_Match = 3, pr_Next = 9, pr_SentCommit = 2,
      pr_MatchCommit = 2, pr_State = StateProbe, pr_PendingSnapshot = 0, pr_RecentActive = True,
      pr_MsgAppProbesPaused = True, pr_Inflights = NewInflights 4 0, pr_IsLearner = False\<rparr>)) < 9"
proof -
  let ?pr = "\<lparr>pr_Match = 3, pr_Next = 9, pr_SentCommit = 2,
      pr_MatchCommit = 2, pr_State = StateProbe, pr_PendingSnapshot = 0, pr_RecentActive = True,
      pr_MsgAppProbesPaused = True, pr_Inflights = NewInflights 4 0, pr_IsLearner = False\<rparr>"
  have "Progress_inv ?pr" by (simp add: Progress_inv_def)
  moreover have "snd (Progress_MaybeDecrTo 8 4 ?pr)" by (simp add: Progress_MaybeDecrTo_def Let_def)
  ultimately show ?thesis
    using Progress_MaybeDecrTo_lowers_Next [of ?pr 8 4 "fst (Progress_MaybeDecrTo 8 4 ?pr)"]
    by (simp add: prod_eq_iff)
qed

text \<open>
  Property C24: the comment on \<open>Next\<close> promises \<open>Next == PendingSnapshot + 1\<close> while
  a snapshot is pending. A rejection for exactly the pending index is not treated
  as stale in \<open>StateSnapshot\<close>: it lowers \<open>Next\<close> to the pending index or below and
  leaves \<open>PendingSnapshot\<close> and the state as they are.
\<close>

theorem Progress_MaybeDecrTo_in_snapshot:
  assumes "pr_State pr = StateSnapshot" and "pr_Next pr = pr_PendingSnapshot pr + 1"
    and "pr_Match pr < pr_PendingSnapshot pr"
  shows "\<exists>pr'. Progress_MaybeDecrTo (pr_PendingSnapshot pr) matchHint pr = (pr', True) \<and>
    pr_State pr' = StateSnapshot \<and> pr_PendingSnapshot pr' = pr_PendingSnapshot pr \<and>
    pr_Next pr' \<le> pr_PendingSnapshot pr'"
  using assms word_succ_le [OF assms(3)]
  by (auto simp: Progress_MaybeDecrTo_def Let_def)

theorem Progress_MaybeDecrTo_in_snapshot_witness:
  "\<exists>pr'. Progress_MaybeDecrTo 8 4 \<lparr>pr_Match = 3, pr_Next = 9, pr_SentCommit = 8,
      pr_MatchCommit = 2, pr_State = StateSnapshot, pr_PendingSnapshot = 8, pr_RecentActive = True,
      pr_MsgAppProbesPaused = True, pr_Inflights = NewInflights 4 0, pr_IsLearner = False\<rparr> = (pr', True) \<and>
    pr_State pr' = StateSnapshot \<and> pr_PendingSnapshot pr' = 8 \<and> pr_Next pr' \<le> pr_PendingSnapshot pr'"
  using Progress_MaybeDecrTo_in_snapshot [of "\<lparr>pr_Match = 3, pr_Next = 9, pr_SentCommit = 8,
      pr_MatchCommit = 2, pr_State = StateSnapshot, pr_PendingSnapshot = 8, pr_RecentActive = True,
      pr_MsgAppProbesPaused = True, pr_Inflights = NewInflights 4 0, pr_IsLearner = False\<rparr>" 4]
  by simp

end
