(* ===== verification/Hlc_Timestamp.thy ===== *)
theory Hlc_Timestamp
  imports Raft_Prelude
begin

text \<open>
  Timestamps of the hybrid logical clock, \<open>src/pkg/util/hlc/timestamp.go\<close>. The wall
  time is an \<open>int64\<close> and the logical component an \<open>int32\<close>; both are integers here
  and every addition of the source wraps explicitly. The order of the source
  (\<open>Less\<close>, \<open>LessEq\<close>) is an instance of the library's linear orders, so that the
  sorting of timestamps in the quorum code is the library's \<open>sort\<close>.
\<close>

section \<open>Signed machine integers\<close>

definition wrap_int64 :: "int \<Rightarrow> int" where
  "wrap_int64 x = (x + 2 ^ 63) mod 2 ^ 64 - 2 ^ 63"

definition wrap_int32 :: "int \<Rightarrow> int" where
  "wrap_int32 x = (x + 2 ^ 31) mod 2 ^ 32 - 2 ^ 31"

abbreviation MaxInt64 :: int where "MaxInt64 \<equiv> 2 ^ 63 - 1"
abbreviation MaxInt32 :: int where "MaxInt32 \<equiv> 2 ^ 31 - 1"

lemma wrap_int64_id [simp]: "- (2 ^ 63) \<le> x \<Longrightarrow> x \<le> MaxInt64 \<Longrightarrow> wrap_int64 x = x"
  by (simp add: wrap_int64_def)

lemma wrap_int32_id [simp]: "- (2 ^ 31) \<le> x \<Longrightarrow> x \<le> MaxInt32 \<Longrightarrow> wrap_int32 x = x"
  by (simp add: wrap_int32_def)

section \<open>The type and its order\<close>

datatype Timestamp = Timestamp (WallTime: int) (Logical: int)

definition MaxTimestamp :: Timestamp where
  "MaxTimestamp = Timestamp MaxInt64 MaxInt32"

definition MinTimestamp :: Timestamp where
  "MinTimestamp = Timestamp 0 1"

definition Timestamp_EqOrdering :: "Timestamp \<Rightarrow> Timestamp \<Rightarrow> bool" where
  "Timestamp_EqOrdering t s \<longleftrightarrow> WallTime t = WallTime s \<and> Logical t = Logical s"

definition Timestamp_Less :: "Timestamp \<Rightarrow> Timestamp \<Rightarrow> bool" where
  "Timestamp_Less t s \<longleftrightarrow>
     WallTime t < WallTime s \<or> (WallTime t = WallTime s \<and> Logical t < Logical s)"

definition Timestamp_LessEq :: "Timestamp \<Rightarrow> Timestamp \<Rightarrow> bool" where
  "Timestamp_LessEq t s \<longleftrightarrow>
     WallTime t < WallTime s \<or> (WallTime t = WallTime s \<and> Logical t \<le> Logical s)"

definition Timestamp_After :: "Timestamp \<Rightarrow> Timestamp \<Rightarrow> bool" where
  "Timestamp_After t s \<longleftrightarrow> \<not> Timestamp_LessEq t s"

definition Timestamp_Compare :: "Timestamp \<Rightarrow> Timestamp \<Rightarrow> int" where
  "Timestamp_Compare t s =
     (if WallTime t > WallTime s then 1
      else if WallTime t < WallTime s then - 1
      else if Logical t > Logical s then 1
      else if Logical t < Logical s then - 1
      else 0)"

definition Timestamp_IsEmpty :: "Timestamp \<Rightarrow> bool" where
  "Timestamp_IsEmpty t \<longleftrightarrow> t = Timestamp 0 0"

definition Timestamp_IsSet :: "Timestamp \<Rightarrow> bool" where
  "Timestamp_IsSet t \<longleftrightarrow> \<not> Timestamp_IsEmpty t"

section \<open>Arithmetic\<close>

definition Timestamp_Add :: "Timestamp \<Rightarrow> int \<Rightarrow> int \<Rightarrow> Timestamp" where
  "Timestamp_Add t wallTime logical =
     Timestamp (wrap_int64 (WallTime t + wallTime)) (wrap_int32 (Logical t + logical))"

definition Timestamp_Next :: "Timestamp \<Rightarrow> Timestamp go" where
  "Timestamp_Next t =
     (if Logical t = MaxInt32 then
        (if WallTime t = MaxInt64 then None
         else Some (Timestamp (wrap_int64 (WallTime t + 1)) 0))
      else Some (Timestamp (WallTime t) (wrap_int32 (Logical t + 1))))"

definition Timestamp_Prev :: "Timestamp \<Rightarrow> Timestamp go" where
  "Timestamp_Prev t =
     (if Logical t > 0 then Some (Timestamp (WallTime t) (wrap_int32 (Logical t - 1)))
      else if WallTime t > 0 then Some (Timestamp (wrap_int64 (WallTime t - 1)) MaxInt32)
      else None)"

definition Timestamp_FloorPrev :: "Timestamp \<Rightarrow> Timestamp go" where
  "Timestamp_FloorPrev t =
     (if Logical t > 0 then Some (Timestamp (WallTime t) (wrap_int32 (Logical t - 1)))
      else if WallTime t > 0 then Some (Timestamp (wrap_int64 (WallTime t - 1)) 0)
      else None)"

definition Timestamp_WallNext :: "Timestamp \<Rightarrow> Timestamp" where
  "Timestamp_WallNext t = Timestamp (wrap_int64 (WallTime t + 1)) 0"

definition Timestamp_WallPrev :: "Timestamp \<Rightarrow> Timestamp" where
  "Timestamp_WallPrev t = Timestamp (wrap_int64 (WallTime t - 1)) 0"

text \<open>\<open>Forward\<close> and \<open>Backward\<close> write their receiver: the new receiver is returned.\<close>

definition Timestamp_Forward :: "Timestamp \<Rightarrow> Timestamp \<Rightarrow> Timestamp \<times> bool" where
  "Timestamp_Forward t s = (if Timestamp_Less t s then (s, True) else (t, False))"

definition Timestamp_Backward :: "Timestamp \<Rightarrow> Timestamp \<Rightarrow> Timestamp" where
  "Timestamp_Backward t s = (if Timestamp_Less s t then s else t)"

section \<open>The linear order\<close>

instantiation Timestamp :: linorder
begin

definition less_eq_Timestamp :: "Timestamp \<Rightarrow> Timestamp \<Rightarrow> bool" where
  "less_eq_Timestamp t s \<longleftrightarrow> Timestamp_LessEq t s"

definition less_Timestamp :: "Timestamp \<Rightarrow> Timestamp \<Rightarrow> bool" where
  "less_Timestamp t s \<longleftrightarrow> Timestamp_Less t s"

instance
  by standard
    (auto simp: less_eq_Timestamp_def less_Timestamp_def Timestamp_LessEq_def Timestamp_Less_def
      intro: Timestamp.expand)

end

lemmas Timestamp_order_defs =
  less_eq_Timestamp_def less_Timestamp_def Timestamp_LessEq_def Timestamp_Less_def

lemma Timestamp_Compare_order:
  "Timestamp_Compare t s < 0 \<longleftrightarrow> t < s"
  "Timestamp_Compare t s = 0 \<longleftrightarrow> t = s"
  "0 < Timestamp_Compare t s \<longleftrightarrow> s < t"
  by (auto simp: Timestamp_Compare_def Timestamp_order_defs intro: Timestamp.expand)

lemma Timestamp_Backward_min: "Timestamp_Backward t s = min t s"
  by (auto simp: Timestamp_Backward_def min_def Timestamp_order_defs intro: Timestamp.expand)

lemma Timestamp_Forward_max: "fst (Timestamp_Forward t s) = max t s"
  by (auto simp: Timestamp_Forward_def max_def Timestamp_order_defs intro: Timestamp.expand)

section \<open>Clock readings\<close>

text \<open>A reading of a clock: a non-negative wall time and logical component in range.\<close>

definition Timestamp_valid :: "Timestamp \<Rightarrow> bool" where
  "Timestamp_valid t \<longleftrightarrow>
     0 \<le> WallTime t \<and> WallTime t \<le> MaxInt64 \<and> 0 \<le> Logical t \<and> Logical t \<le> MaxInt32"

lemma Timestamp_Next_Some:
  assumes "Timestamp_valid t" and "t \<noteq> MaxTimestamp"
  obtains t' where "Timestamp_Next t = Some t'" and "Timestamp_valid t'" and "t < t'"
    and "\<And>s. Timestamp_valid s \<Longrightarrow> t < s \<Longrightarrow> t' \<le> s"
proof (cases "Logical t = MaxInt32")
  case True
  with assms have "WallTime t < MaxInt64"
    by (cases t) (auto simp: MaxTimestamp_def Timestamp_valid_def)
  show thesis
  proof (rule that)
    show "Timestamp_Next t = Some (Timestamp (WallTime t + 1) 0)"
      using True assms \<open>WallTime t < MaxInt64\<close>
      by (auto simp: Timestamp_Next_def Timestamp_valid_def)
  qed (use True assms \<open>WallTime t < MaxInt64\<close> in
    \<open>auto simp: Timestamp_valid_def Timestamp_order_defs\<close>)
next
  case False
  show thesis
  proof (rule that)
    show "Timestamp_Next t = Some (Timestamp (WallTime t) (Logical t + 1))"
      using False assms by (auto simp: Timestamp_Next_def Timestamp_valid_def)
  qed (use False assms in \<open>auto simp: Timestamp_valid_def Timestamp_order_defs\<close>)
qed

lemma Timestamp_le_Max: "Timestamp_valid t \<Longrightarrow> t \<le> MaxTimestamp"
  by (auto simp: Timestamp_valid_def MaxTimestamp_def Timestamp_order_defs)

lemma Timestamp_Prev_Next:
  assumes "Timestamp_valid t" and "Timestamp_Next t = Some t'"
  shows "Timestamp_Prev t' = Some t"
  using assms
  by (cases t)
    (auto simp: Timestamp_Next_def Timestamp_Prev_def Timestamp_valid_def split: if_splits)

lemma Timestamp_FloorPrev_less:
  assumes "Timestamp_valid t" and "Timestamp_FloorPrev t = Some t'"
  shows "t' < t \<and> Timestamp_valid t'"
  using assms
  by (cases t)
    (auto simp: Timestamp_FloorPrev_def Timestamp_valid_def Timestamp_order_defs split: if_splits)

text \<open>
  Below the maximal timestamp, \<open>Next\<close> returns the immediate
  successor in the order of the clock readings, and \<open>Prev\<close> undoes it.
\<close>

lemma Timestamp_Next_is_successor:
  assumes "Timestamp_valid t" and "t \<noteq> MaxTimestamp"
  shows "\<exists>t'. Timestamp_Next t = Some t' \<and> Timestamp_valid t' \<and> Timestamp_Less t t' \<and>
    (\<forall>s. Timestamp_valid s \<and> Timestamp_Less t s \<longrightarrow> Timestamp_LessEq t' s) \<and>
    Timestamp_Prev t' = Some t"
proof -
  obtain t' where t': "Timestamp_Next t = Some t'" "Timestamp_valid t'" "t < t'"
    "\<And>s. Timestamp_valid s \<Longrightarrow> t < s \<Longrightarrow> t' \<le> s"
    using Timestamp_Next_Some [OF assms] by metis
  then show ?thesis
    using Timestamp_Prev_Next [OF assms(1) t'(1)]
    by (auto simp: less_eq_Timestamp_def less_Timestamp_def)
qed

end
