(* ===== verification/Quorum.thy ===== *)
theory Quorum
  imports Raftpb Hlc_Timestamp
begin

text \<open>
  Quorum decisions, \<open>src/pkg/raft/quorum\<close>: majority configurations, joint
  configurations and the configuration of a raft group. The locale
  \<open>quorum_system\<close> is the contract the rest of raft relies on: decisions that need a
  quorum overlap in a voter. Both kinds of configuration are instances of it.
\<close>

section \<open>Majority configurations\<close>

type_synonym MajorityConfig = idset
type_synonym Index = u64

text \<open>\<open>AckedIndexer\<close>: the index a voter has acknowledged, if it has reported.\<close>

type_synonym AckedIndexer = "PeerID \<Rightarrow> Index option"

datatype VoteResult = VotePending | VoteLost | VoteWon

definition MajorityConfig_Slice :: "MajorityConfig \<Rightarrow> PeerID list" where
  "MajorityConfig_Slice c = ranged c"

text \<open>
  The loop that fills the slice of observed values from the right: \<open>i\<close> is the number
  of slots that are still zero, so the next value goes to slot \<open>i - 1\<close>.
\<close>

fun fill_from_right :: "(PeerID \<Rightarrow> 'a option) \<Rightarrow> PeerID list \<Rightarrow> nat \<Rightarrow> 'a list \<Rightarrow> 'a list" where
  "fill_from_right l [] i srt = srt"
| "fill_from_right l (p # ps) i srt =
     (case l p of
        Some v \<Rightarrow> fill_from_right l ps (i - 1) (srt[i - 1 := v])
      | None \<Rightarrow> fill_from_right l ps i srt)"

text \<open>\<open>CommittedIndex\<close>, with the order of iteration over the map as an argument.\<close>

definition committed_index_over :: "PeerID list \<Rightarrow> AckedIndexer \<Rightarrow> Index" where
  "committed_index_over ps l =
     (let n = length ps in
      if n = 0 then MaxUint64
      else let srt = sort (fill_from_right l ps n (replicate n 0));
               pos = n - (n div 2 + 1)
           in srt ! pos)"

definition MajorityConfig_CommittedIndex :: "MajorityConfig \<Rightarrow> AckedIndexer \<Rightarrow> Index" where
  "MajorityConfig_CommittedIndex c l = committed_index_over (ranged c) l"

text \<open>The counting loop of \<open>VoteResult\<close>: the yes votes and the missing votes.\<close>

fun count_votes :: "(PeerID, bool) fmap \<Rightarrow> PeerID list \<Rightarrow> nat \<times> nat \<Rightarrow> nat \<times> nat" where
  "count_votes votes [] cnt = cnt"
| "count_votes votes (p # ps) (votedCnt, missing) =
     (case fmlookup votes p of
        None \<Rightarrow> count_votes votes ps (votedCnt, missing + 1)
      | Some v \<Rightarrow> count_votes votes ps (if v then votedCnt + 1 else votedCnt, missing))"

definition MajorityConfig_VoteResult :: "MajorityConfig \<Rightarrow> (PeerID, bool) fmap \<Rightarrow> VoteResult" where
  "MajorityConfig_VoteResult c votes =
     (if map_len c = 0 then VoteWon
      else
        let (votedCnt, missing) = count_votes votes (ranged c) (0, 0);
            q = map_len c div 2 + 1
        in if q \<le> votedCnt then VoteWon
           else if q \<le> votedCnt + missing then VotePending
           else VoteLost)"

definition MajorityConfig_LeadSupportExpiration ::
    "MajorityConfig \<Rightarrow> (PeerID, Timestamp) fmap \<Rightarrow> Timestamp" where
  "MajorityConfig_LeadSupportExpiration c supported =
     (if map_len c = 0 then MaxTimestamp
      else
        let n = map_len c;
            srt = sort (fill_from_right (fmlookup supported) (ranged c) n
                    (replicate n (Timestamp 0 0)));
            pos = n - (n div 2 + 1)
        in srt ! pos)"

section \<open>Joint configurations\<close>

type_synonym JointConfig = "MajorityConfig \<times> MajorityConfig"

definition JointConfig_IDs :: "JointConfig \<Rightarrow> PeerID fset" where
  "JointConfig_IDs c = keys (fst c) |\<union>| keys (snd c)"

definition JointConfig_CommittedIndex :: "JointConfig \<Rightarrow> AckedIndexer \<Rightarrow> Index" where
  "JointConfig_CommittedIndex c l =
     (let idx0 = MajorityConfig_CommittedIndex (fst c) l;
          idx1 = MajorityConfig_CommittedIndex (snd c) l
      in if idx0 < idx1 then idx0 else idx1)"

definition JointConfig_VoteResult :: "JointConfig \<Rightarrow> (PeerID, bool) fmap \<Rightarrow> VoteResult" where
  "JointConfig_VoteResult c votes =
     (let r1 = MajorityConfig_VoteResult (fst c) votes;
          r2 = MajorityConfig_VoteResult (snd c) votes
      in if r1 = r2 then r1
         else if r1 = VoteLost \<or> r2 = VoteLost then VoteLost
         else VotePending)"

definition JointConfig_LeadSupportExpiration ::
    "JointConfig \<Rightarrow> (PeerID, Timestamp) fmap \<Rightarrow> Timestamp" where
  "JointConfig_LeadSupportExpiration c supported =
     Timestamp_Backward (MajorityConfig_LeadSupportExpiration (fst c) supported)
       (MajorityConfig_LeadSupportExpiration (snd c) supported)"

section \<open>The configuration of a group\<close>

record Config =
  c_Voters :: JointConfig
  c_AutoLeave :: bool
  c_Learners :: idset
  c_LearnersNext :: idset

definition MakeEmptyConfig :: Config where
  "MakeEmptyConfig =
     \<lparr>c_Voters = (Some {||}, None), c_AutoLeave = False, c_Learners = None, c_LearnersNext = None\<rparr>"

text \<open>
  \<open>Clone\<close> builds a new configuration from copies of the four sets; the field
  \<open>AutoLeave\<close> of the result is the zero value.
\<close>

definition Config_Clone :: "Config \<Rightarrow> Config" where
  "Config_Clone c =
     \<lparr>c_Voters = (fst (c_Voters c), snd (c_Voters c)), c_AutoLeave = False,
      c_Learners = c_Learners c, c_LearnersNext = c_LearnersNext c\<rparr>"

definition Config_ConfState :: "Config \<Rightarrow> ConfState" where
  "Config_ConfState c =
     \<lparr>cs_Voters = MajorityConfig_Slice (fst (c_Voters c)),
      cs_Learners = MajorityConfig_Slice (c_Learners c),
      cs_VotersOutgoing = MajorityConfig_Slice (snd (c_Voters c)),
      cs_LearnersNext = MajorityConfig_Slice (c_LearnersNext c),
      cs_AutoLeave = c_AutoLeave c\<rparr>"

section \<open>What a majority decides\<close>

text \<open>A set of peers is a quorum of a configuration when it holds more than half of it.\<close>

definition majority :: "MajorityConfig \<Rightarrow> PeerID set \<Rightarrow> bool" where
  "majority c Q \<longleftrightarrow> card (fset (keys c)) < 2 * card (fset (keys c) \<inter> Q)"

lemma majority_mono: "majority c Q \<Longrightarrow> Q \<subseteq> R \<Longrightarrow> majority c R"
  unfolding majority_def
  by (meson Int_mono card_mono finite_Int finite_fset le_less_trans less_le_trans mult_le_mono2
      order_refl)

lemma majority_meet:
  assumes "majority c Q" and "majority c R"
  shows "\<exists>p. p |\<in>| keys c \<and> p \<in> Q \<and> p \<in> R"
  using majorities_meet [of "fset (keys c)" "fset (keys c) \<inter> Q" "fset (keys c) \<inter> R"] assms
  by (auto simp: majority_def)

lemma length_fill_from_right [simp]: "length (fill_from_right l ps i srt) = length srt"
  by (induction ps arbitrary: i srt) (auto split: option.splits)

text \<open>The slice holds the reported values, and zeros for the voters that did not report.\<close>

lemma mset_fill_from_right:
  assumes "length ps \<le> i" and "i \<le> length srt"
  shows "mset (fill_from_right l ps i srt) =
    mset (take (i - length (List.map_filter l ps)) srt) + mset (drop i srt) +
    mset (List.map_filter l ps)"
  using assms
proof (induction ps arbitrary: i srt)
  case Nil
  then show ?case
    by (simp add: List.map_filter_def mset_append [symmetric] del: mset_append)
next
  case (Cons p ps)
  show ?case
  proof (cases "l p")
    case None
    with Cons show ?thesis by (simp add: List.map_filter_def)
  next
    case (Some v)
    let ?k = "length (List.map_filter l ps)"
    have k: "?k \<le> length ps"
      by (simp add: List.map_filter_def)
    have "mset (fill_from_right l (p # ps) i srt) =
        mset (take (i - 1 - ?k) (srt[i - 1 := v])) + mset (drop (i - 1) (srt[i - 1 := v])) +
        mset (List.map_filter l ps)"
      using Cons Some by simp
    also have "take (i - 1 - ?k) (srt[i - 1 := v]) = take (i - 1 - ?k) srt"
      by (simp add: take_update_swap) (simp add: list_update_beyond)
    also have "drop (i - 1) (srt[i - 1 := v]) = v # drop i srt"
      using Cons.prems by (cases i) (simp_all add: drop_update_swap Cons_nth_drop_Suc [symmetric])
    finally show ?thesis using Some by (simp add: List.map_filter_def)
  qed
qed


lemma length_map_filter_le: "length (List.map_filter l ps) \<le> length ps"
  by (simp add: List.map_filter_def)

lemma mset_with_default:
  "mset (replicate (length ps - length (List.map_filter l ps)) z) + mset (List.map_filter l ps) =
   mset (map (\<lambda>p. case l p of Some v \<Rightarrow> v | None \<Rightarrow> z) ps)"
proof (induction ps)
  case Nil
  then show ?case by (simp add: List.map_filter_def)
next
  case (Cons p ps)
  have "length (p # ps) - length (List.map_filter l ps) =
      Suc (length ps - length (List.map_filter l ps))"
    using length_map_filter_le [of l ps] by simp
  with Cons show ?case
    by (cases "l p") (simp_all add: List.map_filter_def)
qed

lemma sort_fill_from_right:
  fixes z :: "'a::linorder"
  assumes "n = length ps"
  shows "sort (fill_from_right l ps n (replicate n z)) =
    sort (map (\<lambda>p. case l p of Some v \<Rightarrow> v | None \<Rightarrow> z) ps)"
  using mset_fill_from_right [of ps n "replicate n z" l] mset_with_default [of ps l z] assms
  by (simp add: sort_eq_iff_mset)

text \<open>
  The element the code picks is the largest value at or above which a majority
  has reported.
\<close>

lemma quorum_statistic:
  fixes z :: "'a::linorder"
  assumes "distinct ps" and "ps \<noteq> []" and "n = length ps"
  shows "a \<le> sort (fill_from_right l ps n (replicate n z)) ! (n - (n div 2 + 1)) \<longleftrightarrow>
    length ps < 2 * card {p \<in> set ps. a \<le> (case l p of Some v \<Rightarrow> v | None \<Rightarrow> z)}"
proof -
  let ?f = "\<lambda>p. case l p of Some v \<Rightarrow> v | None \<Rightarrow> z"
  have n: "n - (n div 2 + 1) < n" "n - (n - (n div 2 + 1)) = n div 2 + 1"
    using assms by (cases n; simp; linarith)+
  have "a \<le> sort (map ?f ps) ! (n - (n div 2 + 1)) \<longleftrightarrow>
      n div 2 + 1 \<le> length (filter (\<lambda>x. a \<le> x) (map ?f ps))"
    using sort_nth_ge_iff [of "n - (n div 2 + 1)" "map ?f ps" a] n assms(3) by simp
  also have "length (filter (\<lambda>x. a \<le> x) (map ?f ps)) = card {p \<in> set ps. a \<le> ?f p}"
    using assms(1) by (simp add: filter_map length_filter_card comp_def)
  finally show ?thesis
    using assms(3) by (simp add: sort_fill_from_right) linarith
qed

lemma ranged_eq_Nil [simp]: "ranged c = [] \<longleftrightarrow> keys c = {||}"
  by (metis length_0_conv length_ranged map_len_eq_0)

lemma fset_eq_empty [simp]: "fset A = {} \<longleftrightarrow> A = {||}"
  by (metis bot_fset.rep_eq fset_inject)

lemma MajorityConfig_CommittedIndex_iff:
  assumes "keys c \<noteq> {||}"
  shows "i \<le> MajorityConfig_CommittedIndex c l \<longleftrightarrow>
    majority c {p. i \<le> (case l p of Some v \<Rightarrow> v | None \<Rightarrow> 0)}"
proof -
  have "{p \<in> set (ranged c). i \<le> (case l p of Some v \<Rightarrow> v | None \<Rightarrow> 0)} =
      fset (keys c) \<inter> {p. i \<le> (case l p of Some v \<Rightarrow> v | None \<Rightarrow> 0)}" by auto
  then show ?thesis
    using quorum_statistic [of "ranged c" "length (ranged c)" i l 0] assms
    by (simp add: MajorityConfig_CommittedIndex_def committed_index_over_def majority_def
        length_ranged map_len_card Let_def)
qed

lemma committed_index_over_order:
  assumes "distinct ps" and "set ps = fset (keys c)"
  shows "committed_index_over ps l = MajorityConfig_CommittedIndex c l"
proof -
  have m: "mset ps = mset (ranged c)"
    using assms by (metis distinct_ranged set_eq_iff_mset_eq_distinct set_ranged)
  then have "sort (map f ps) = sort (map f (ranged c))" for f :: "PeerID \<Rightarrow> Index"
    by (metis mset_map sort_eq_iff_mset)
  moreover have "length ps = length (ranged c)"
    using m by (metis size_mset)
  ultimately show ?thesis
    by (simp add: committed_index_over_def MajorityConfig_CommittedIndex_def
        sort_fill_from_right Let_def)
qed

lemma MajorityConfig_LeadSupportExpiration_iff:
  assumes "keys c \<noteq> {||}"
  shows "t \<le> MajorityConfig_LeadSupportExpiration c supported \<longleftrightarrow>
    majority c {p. t \<le> (case fmlookup supported p of Some v \<Rightarrow> v | None \<Rightarrow> Timestamp 0 0)}"
proof -
  have "{p \<in> set (ranged c). t \<le> (case fmlookup supported p of Some v \<Rightarrow> v | None \<Rightarrow> Timestamp 0 0)} =
      fset (keys c) \<inter> {p. t \<le> (case fmlookup supported p of Some v \<Rightarrow> v | None \<Rightarrow> Timestamp 0 0)}"
    by auto
  then show ?thesis
    using quorum_statistic [of "ranged c" "map_len c" t "fmlookup supported" "Timestamp 0 0"] assms
    by (simp add: MajorityConfig_LeadSupportExpiration_def majority_def
        length_ranged map_len_card Let_def)
qed

lemma count_votes_eq:
  "count_votes votes ps (a, b) =
     (a + length (filter (\<lambda>p. fmlookup votes p = Some True) ps),
      b + length (filter (\<lambda>p. fmlookup votes p = None) ps))"
  by (induction ps arbitrary: a b) (auto split: option.splits)

lemma card_yes_missing:
  "card {p \<in> A. fmlookup votes p = Some True} + card {p \<in> A. fmlookup votes p = None} =
   card (A \<inter> {p. fmlookup votes p \<noteq> Some False})" if "finite A"
proof -
  have "A \<inter> {p. fmlookup votes p \<noteq> Some False} =
      {p \<in> A. fmlookup votes p = Some True} \<union> {p \<in> A. fmlookup votes p = None}" by auto
  then show ?thesis using that by (subst card_Un_disjoint [symmetric]) auto
qed

lemma MajorityConfig_VoteResult_cases:
  assumes "keys c \<noteq> {||}"
  shows "MajorityConfig_VoteResult c votes =
    (if majority c {p. fmlookup votes p = Some True} then VoteWon
     else if majority c {p. fmlookup votes p \<noteq> Some False} then VotePending
     else VoteLost)"
proof -
  let ?C = "fset (keys c)"
  have yes: "length (filter (\<lambda>p. fmlookup votes p = Some True) (ranged c)) =
      card (?C \<inter> {p. fmlookup votes p = Some True})"
    by (simp add: length_filter_card Int_def)
  have open_votes: "card (?C \<inter> {p. fmlookup votes p = Some True}) +
      length (filter (\<lambda>p. fmlookup votes p = None) (ranged c)) =
      card (?C \<inter> {p. fmlookup votes p \<noteq> Some False})"
    using card_yes_missing [of ?C votes] by (simp add: length_filter_card Int_def)
  have maj: "Suc (card ?C div 2) \<le> k \<longleftrightarrow> card ?C < 2 * k" for k by linarith
  show ?thesis
    using assms
    by (simp add: MajorityConfig_VoteResult_def count_votes_eq Let_def map_len_card majority_def
        open_votes yes maj)
qed

lemma MajorityConfig_VoteResult_empty:
  "keys c = {||} \<Longrightarrow> MajorityConfig_VoteResult c votes = VoteWon"
  by (simp add: MajorityConfig_VoteResult_def)

lemma MajorityConfig_VoteWon_iff:
  "MajorityConfig_VoteResult c votes = VoteWon \<longleftrightarrow>
     keys c = {||} \<or> majority c {p. fmlookup votes p = Some True}"
  by (cases "keys c = {||}")
    (auto simp: MajorityConfig_VoteResult_empty MajorityConfig_VoteResult_cases)


subsection \<open>Votes that are still open\<close>

text \<open>The ballots of \<open>votes\<close>, with every missing member of \<open>ps\<close> voting \<open>b\<close>.\<close>

definition complete_votes :: "bool \<Rightarrow> PeerID fset \<Rightarrow> (PeerID, bool) fmap \<Rightarrow> (PeerID, bool) fmap" where
  "complete_votes b ps votes =
     fmap_of_list (map (\<lambda>p. (p, b)) (sorted_list_of_fset ps)) ++\<^sub>f votes"

lemma lookup_complete_votes:
  "fmlookup (complete_votes b ps votes) p =
     (case fmlookup votes p of Some x \<Rightarrow> Some x | None \<Rightarrow> if p |\<in>| ps then Some b else None)"
  by (auto simp: complete_votes_def fmlookup_of_list map_of_map_restrict fmlookup_dom_iff
      restrict_map_def split: option.splits)

lemma complete_votes_extends: "votes \<subseteq>\<^sub>f complete_votes b ps votes"
  by (auto simp: fmsubset_alt_def fmpred_iff lookup_complete_votes)

lemma majority_cong:
  "(\<And>p. p |\<in>| keys c \<Longrightarrow> p \<in> Q \<longleftrightarrow> p \<in> R) \<Longrightarrow> majority c Q = majority c R"
  unfolding majority_def by (rule arg_cong2 [where f = "(<)"], simp, rule arg_cong [where f = "\<lambda>A. 2 * card A"], auto)

lemma majority_member: "majority c Q \<Longrightarrow> \<exists>p. p |\<in>| keys c \<and> p \<in> Q"
  using majority_meet [of c Q Q] by auto

lemma MajorityConfig_VoteResult_complete:
  assumes "keys c |\<subseteq>| ps"
  shows "MajorityConfig_VoteResult c (complete_votes True ps votes) =
      (if MajorityConfig_VoteResult c votes = VoteLost then VoteLost else VoteWon)"
    and "MajorityConfig_VoteResult c (complete_votes False ps votes) =
      (if MajorityConfig_VoteResult c votes = VoteWon then VoteWon else VoteLost)"
proof -
  let ?T = "complete_votes True ps votes" and ?F = "complete_votes False ps votes"
  have m: "p |\<in>| keys c \<Longrightarrow> p |\<in>| ps" for p using assms by auto
  have "majority c {p. fmlookup ?T p = Some True} = majority c {p. fmlookup votes p \<noteq> Some False}"
    "majority c {p. fmlookup ?T p \<noteq> Some False} = majority c {p. fmlookup votes p \<noteq> Some False}"
    "majority c {p. fmlookup ?F p = Some True} = majority c {p. fmlookup votes p = Some True}"
    "majority c {p. fmlookup ?F p \<noteq> Some False} = majority c {p. fmlookup votes p = Some True}"
    by (rule majority_cong; auto simp: lookup_complete_votes dest: m split: option.splits)+
  moreover have "majority c {p. fmlookup votes p = Some True} \<Longrightarrow>
      majority c {p. fmlookup votes p \<noteq> Some False}"
    by (rule majority_mono) auto
  ultimately show
    "MajorityConfig_VoteResult c ?T =
      (if MajorityConfig_VoteResult c votes = VoteLost then VoteLost else VoteWon)"
    "MajorityConfig_VoteResult c ?F =
      (if MajorityConfig_VoteResult c votes = VoteWon then VoteWon else VoteLost)"
    by (cases "keys c = {||}"; simp add: MajorityConfig_VoteResult_empty
        MajorityConfig_VoteResult_cases)+
qed

lemma fmsubset_lookup: "u \<subseteq>\<^sub>f v \<Longrightarrow> fmlookup u p = Some x \<Longrightarrow> fmlookup v p = Some x"
  by (auto simp: fmsubset_alt_def fmpred_iff)

lemma MajorityConfig_VoteResult_mono:
  assumes "u \<subseteq>\<^sub>f v"
  shows "MajorityConfig_VoteResult c u = VoteWon \<Longrightarrow> MajorityConfig_VoteResult c v = VoteWon"
    and "MajorityConfig_VoteResult c u = VoteLost \<Longrightarrow> MajorityConfig_VoteResult c v = VoteLost"
proof -
  have 1: "majority c {p. fmlookup u p = Some True} \<Longrightarrow> majority c {p. fmlookup v p = Some True}"
    by (erule majority_mono) (use fmsubset_lookup [OF assms] in auto)
  have 2: "majority c {p. fmlookup v p \<noteq> Some False} \<Longrightarrow> majority c {p. fmlookup u p \<noteq> Some False}"
    by (erule majority_mono) (use fmsubset_lookup [OF assms] in auto)
  have 3: "majority c {p. fmlookup v p = Some True} \<Longrightarrow> majority c {p. fmlookup v p \<noteq> Some False}"
    by (erule majority_mono) auto
  from 1 show "MajorityConfig_VoteResult c u = VoteWon \<Longrightarrow> MajorityConfig_VoteResult c v = VoteWon"
    by (auto simp: MajorityConfig_VoteWon_iff)
  from 2 3 show "MajorityConfig_VoteResult c u = VoteLost \<Longrightarrow> MajorityConfig_VoteResult c v = VoteLost"
    by (cases "keys c = {||}") (auto simp: MajorityConfig_VoteResult_empty
        MajorityConfig_VoteResult_cases split: if_splits)
qed

lemma JointConfig_VoteResult_iff:
  "JointConfig_VoteResult c votes = VoteWon \<longleftrightarrow>
     MajorityConfig_VoteResult (fst c) votes = VoteWon \<and>
     MajorityConfig_VoteResult (snd c) votes = VoteWon"
  "JointConfig_VoteResult c votes = VoteLost \<longleftrightarrow>
     MajorityConfig_VoteResult (fst c) votes = VoteLost \<or>
     MajorityConfig_VoteResult (snd c) votes = VoteLost"
  by (auto simp: JointConfig_VoteResult_def Let_def)

lemma JointConfig_VoteResult_mono:
  assumes "u \<subseteq>\<^sub>f v"
  shows "JointConfig_VoteResult c u = VoteWon \<Longrightarrow> JointConfig_VoteResult c v = VoteWon"
    and "JointConfig_VoteResult c u = VoteLost \<Longrightarrow> JointConfig_VoteResult c v = VoteLost"
  using MajorityConfig_VoteResult_mono [OF assms] by (auto simp: JointConfig_VoteResult_iff)

lemma JointConfig_VoteResult_complete:
  shows "JointConfig_VoteResult c (complete_votes True (JointConfig_IDs c) votes) = VoteWon \<longleftrightarrow>
      JointConfig_VoteResult c votes \<noteq> VoteLost"
    and "JointConfig_VoteResult c (complete_votes False (JointConfig_IDs c) votes) = VoteLost \<longleftrightarrow>
      JointConfig_VoteResult c votes \<noteq> VoteWon"
  by (simp_all add: JointConfig_VoteResult_iff MajorityConfig_VoteResult_complete
      JointConfig_IDs_def)

subsection \<open>The contract of a quorum system\<close>

text \<open>The acknowledged indexes of \<open>l'\<close> are at least those of \<open>l\<close>.\<close>

definition acks_le :: "AckedIndexer \<Rightarrow> AckedIndexer \<Rightarrow> bool" where
  "acks_le l l' \<longleftrightarrow> (\<forall>p i. l p = Some i \<longrightarrow> (\<exists>j. l' p = Some j \<and> i \<le> j))"

text \<open>
  What elections and commitment rely on: any two deciding sets of voters share
  a member, and neither a decided vote nor a committed index is ever retracted
  by further ballots or acknowledgements.
\<close>

locale quorum_system =
  fixes valid :: "'c \<Rightarrow> bool"
    and vote :: "'c \<Rightarrow> (PeerID, bool) fmap \<Rightarrow> VoteResult"
    and committed :: "'c \<Rightarrow> AckedIndexer \<Rightarrow> Index"
  assumes overlap_votes:
      "valid c \<Longrightarrow> vote c u = VoteWon \<Longrightarrow> vote c v = VoteWon \<Longrightarrow>
       \<exists>p. fmlookup u p = Some True \<and> fmlookup v p = Some True"
    and overlap_acks:
      "valid c \<Longrightarrow> vote c v = VoteWon \<Longrightarrow> 0 < i \<Longrightarrow> i \<le> committed c l \<Longrightarrow>
       \<exists>p j. fmlookup v p = Some True \<and> l p = Some j \<and> i \<le> j"
    and vote_mono: "u \<subseteq>\<^sub>f v \<Longrightarrow> vote c u = VoteWon \<Longrightarrow> vote c v = VoteWon"
    and committed_mono: "acks_le l l' \<Longrightarrow> committed c l \<le> committed c l'"
begin

text \<open>
  If every voter backs at most one candidate, two candidates whose recorded
  grants both win are the same.
\<close>

lemma unique_winner:
  assumes "valid c"
    and "\<And>p. fmlookup u p = Some True \<Longrightarrow> ballot p = Some x"
    and "\<And>p. fmlookup v p = Some True \<Longrightarrow> ballot p = Some y"
    and "vote c u = VoteWon" and "vote c v = VoteWon"
  shows "x = y"
  using overlap_votes [OF assms(1,4,5)] assms(2,3) by (metis option.inject)

text \<open>
  A winner has the vote of a peer that acknowledged any given committed index,
  also when the ballots and the acknowledgements arrived later than the
  decision.
\<close>

lemma winner_hears_committed:
  assumes "valid c" and "vote c u = VoteWon" and "u \<subseteq>\<^sub>f v"
    and "0 < i" and "i \<le> committed c l" and "acks_le l l'"
  shows "\<exists>p j. fmlookup v p = Some True \<and> l' p = Some j \<and> i \<le> j"
  using overlap_acks [OF assms(1) vote_mono [OF assms(3,2)] assms(4), of l']
    committed_mono [OF assms(6), of c] assms(5) by (meson order_trans)

end

lemma MajorityConfig_CommittedIndex_mono:
  assumes "acks_le l l'"
  shows "MajorityConfig_CommittedIndex c l \<le> MajorityConfig_CommittedIndex c l'"
proof (cases "keys c = {||}")
  case True
  then show ?thesis by (simp add: MajorityConfig_CommittedIndex_def committed_index_over_def)
next
  case False
  let ?i = "MajorityConfig_CommittedIndex c l"
  have "majority c {p. ?i \<le> (case l p of Some v \<Rightarrow> v | None \<Rightarrow> 0)}"
    using MajorityConfig_CommittedIndex_iff [OF False, of ?i l] by simp
  then have "majority c {p. ?i \<le> (case l' p of Some v \<Rightarrow> v | None \<Rightarrow> 0)}"
    by (rule majority_mono)
      (use assms in \<open>force simp: acks_le_def split: option.splits\<close>)
  then show ?thesis using MajorityConfig_CommittedIndex_iff [OF False] by blast
qed

lemma majority_acked:
  assumes "0 < i" and "majority c {p. i \<le> (case l p of Some v \<Rightarrow> v | None \<Rightarrow> (0::u64))}"
  shows "majority c {p. \<exists>j. l p = Some j \<and> i \<le> j}"
  using assms(2) by (rule majority_mono) (use assms(1) in \<open>auto split: option.splits\<close>)

lemma MajorityConfig_overlap_acks:
  assumes "keys c \<noteq> {||}" and "MajorityConfig_VoteResult c v = VoteWon" and "0 < i"
    and "i \<le> MajorityConfig_CommittedIndex c l"
  shows "\<exists>p j. fmlookup v p = Some True \<and> l p = Some j \<and> i \<le> j"
  using assms majority_meet [of c "{p. fmlookup v p = Some True}" "{p. \<exists>j. l p = Some j \<and> i \<le> j}"]
    majority_acked [of i c l]
  by (auto simp: MajorityConfig_CommittedIndex_iff MajorityConfig_VoteWon_iff)

interpretation majority_quorums:
  quorum_system "\<lambda>c. keys c \<noteq> {||}" MajorityConfig_VoteResult MajorityConfig_CommittedIndex
proof
  fix c u v
  assume "keys c \<noteq> {||}" "MajorityConfig_VoteResult c u = VoteWon"
    "MajorityConfig_VoteResult c v = VoteWon"
  then show "\<exists>p. fmlookup u p = Some True \<and> fmlookup v p = Some True"
    using majority_meet [of c "{p. fmlookup u p = Some True}" "{p. fmlookup v p = Some True}"]
    by (auto simp: MajorityConfig_VoteWon_iff)
qed (blast intro: MajorityConfig_overlap_acks MajorityConfig_CommittedIndex_mono
    MajorityConfig_VoteResult_mono)+

lemma JointConfig_CommittedIndex_le_iff:
  "i \<le> JointConfig_CommittedIndex c l \<longleftrightarrow>
     i \<le> MajorityConfig_CommittedIndex (fst c) l \<and> i \<le> MajorityConfig_CommittedIndex (snd c) l"
  by (auto simp: JointConfig_CommittedIndex_def Let_def)

interpretation joint_quorums:
  quorum_system "\<lambda>c. JointConfig_IDs c \<noteq> {||}" JointConfig_VoteResult JointConfig_CommittedIndex
proof
  fix c u v
  assume *: "JointConfig_IDs c \<noteq> {||}" "JointConfig_VoteResult c u = VoteWon"
    "JointConfig_VoteResult c v = VoteWon"
  then show "\<exists>p. fmlookup u p = Some True \<and> fmlookup v p = Some True"
    using majority_quorums.overlap_votes [of "fst c" u v] majority_quorums.overlap_votes [of "snd c" u v]
    by (auto simp: JointConfig_IDs_def JointConfig_VoteResult_iff)
next
  fix c v i l
  assume "JointConfig_IDs c \<noteq> {||}" "JointConfig_VoteResult c v = VoteWon" "0 < (i::Index)"
    "i \<le> JointConfig_CommittedIndex c l"
  then show "\<exists>p j. fmlookup v p = Some True \<and> l p = Some j \<and> i \<le> j"
    using majority_quorums.overlap_acks [of "fst c" v i l] majority_quorums.overlap_acks [of "snd c" v i l]
    unfolding JointConfig_IDs_def JointConfig_VoteResult_iff JointConfig_CommittedIndex_le_iff
    by (metis sup_bot.left_neutral)
next
  fix l l' c
  assume "acks_le l l'"
  then show "JointConfig_CommittedIndex c l \<le> JointConfig_CommittedIndex c l'"
    using majority_quorums.committed_mono [of l l' "fst c"] majority_quorums.committed_mono [of l l' "snd c"]
      JointConfig_CommittedIndex_le_iff [of "JointConfig_CommittedIndex c l" c]
    by (meson order_refl order_trans)
qed (rule JointConfig_VoteResult_mono)


text \<open>
  A reconfigurable quorum system: a change of configuration keeps the contract, and
  a decision taken before it and one taken after it share a voter. This is what
  makes the step from one configuration to the next safe.
\<close>

locale reconfigurable_quorums = quorum_system valid vote committed
  for valid :: "'c \<Rightarrow> bool"
    and vote :: "'c \<Rightarrow> (PeerID, bool) fmap \<Rightarrow> VoteResult"
    and committed :: "'c \<Rightarrow> AckedIndexer \<Rightarrow> Index" +
  fixes change :: "'c \<Rightarrow> 'c \<Rightarrow> bool"
  assumes change_valid: "valid c \<Longrightarrow> change c c' \<Longrightarrow> valid c'"
    and change_votes:
      "valid c \<Longrightarrow> change c c' \<Longrightarrow> vote c u = VoteWon \<Longrightarrow> vote c' v = VoteWon \<Longrightarrow>
       \<exists>p. fmlookup u p = Some True \<and> fmlookup v p = Some True"
    and change_acks_old:
      "valid c \<Longrightarrow> change c c' \<Longrightarrow> vote c' v = VoteWon \<Longrightarrow> 0 < i \<Longrightarrow> i \<le> committed c l \<Longrightarrow>
       \<exists>p j. fmlookup v p = Some True \<and> l p = Some j \<and> i \<le> j"
    and change_acks_new:
      "valid c \<Longrightarrow> change c c' \<Longrightarrow> vote c v = VoteWon \<Longrightarrow> 0 < i \<Longrightarrow> i \<le> committed c' l \<Longrightarrow>
       \<exists>p j. fmlookup v p = Some True \<and> l p = Some j \<and> i \<le> j"
begin

lemma unique_winner_across:
  assumes "valid c" and "change c c'"
    and "\<And>p. fmlookup u p = Some True \<Longrightarrow> ballot p = Some x"
    and "\<And>p. fmlookup v p = Some True \<Longrightarrow> ballot p = Some y"
    and "vote c u = VoteWon" and "vote c' v = VoteWon"
  shows "x = y"
  using change_votes [OF assms(1,2,5,6)] assms(3,4) by (metis option.inject)

lemma reachable_valid: "change\<^sup>*\<^sup>* c c' \<Longrightarrow> valid c \<Longrightarrow> valid c'"
  by (induction rule: rtranclp_induct) (auto intro: change_valid)

text \<open>Neighbouring configurations of a chain of changes protect each other's decisions.\<close>

lemma chain_protects:
  assumes "valid c0" and "change\<^sup>*\<^sup>* c0 c" and "change c c'"
    and "0 < i"
    and "(vote c v = VoteWon \<and> i \<le> committed c' l) \<or> (vote c' v = VoteWon \<and> i \<le> committed c l)"
  shows "\<exists>p j. fmlookup v p = Some True \<and> l p = Some j \<and> i \<le> j"
  using change_acks_old [OF reachable_valid [OF assms(2,1)] assms(3)]
    change_acks_new [OF reachable_valid [OF assms(2,1)] assms(3)] assms(4,5) by blast

end

section \<open>Properties\<close>

text \<open>
  Property C12: in whatever order the voters of a non-empty configuration are
  visited, \<open>CommittedIndex\<close> is the largest index that a majority of them has
  acknowledged: an index is at or below it exactly when more than half of the
  voters report that index or a higher one, voters without a report counting
  as zero.
\<close>

theorem CommittedIndex_is_majority_index:
  assumes "keys c \<noteq> {||}" and "distinct ps" and "set ps = fset (keys c)"
  shows "i \<le> committed_index_over ps l \<longleftrightarrow>
    card (fset (keys c)) <
      2 * card {p \<in> fset (keys c). i \<le> (case l p of Some v \<Rightarrow> v | None \<Rightarrow> 0)}"
  using MajorityConfig_CommittedIndex_iff [OF assms(1), of i l]
    committed_index_over_order [OF assms(2,3)] by (simp add: majority_def Int_def)

theorem CommittedIndex_is_majority_index_witness:
  "5 \<le> committed_index_over [3, 1, 2] (\<lambda>p. if p = 1 then Some 7 else if p = 2 then Some 5 else None)"
proof -
  have "{p \<in> fset (keys (Some {|1, 2, 3|} :: idset)).
      5 \<le> (case (if p = 1 then Some 7 else if p = 2 then Some 5 else None) of
        Some v \<Rightarrow> v | None \<Rightarrow> (0::u64))} = {1, 2}"
    by (auto split: if_splits)
  then show ?thesis
    using CommittedIndex_is_majority_index [of "Some {|1, 2, 3|}" "[3, 1, 2]" 5
      "\<lambda>p. if p = 1 then Some 7 else if p = 2 then Some 5 else None"]
    by auto
qed

text \<open>
  Property C4: in a joint configuration with at least one voter, whoever wins
  an election has the granted vote of a peer that acknowledged any index that
  counts as committed, even when further ballots and acknowledgements arrive
  after both decisions were taken.
\<close>

theorem JointConfig_winner_hears_committed:
  assumes "JointConfig_IDs c \<noteq> {||}"
    and "JointConfig_VoteResult c u = VoteWon" and "u \<subseteq>\<^sub>f v"
    and "0 < i" and "i \<le> JointConfig_CommittedIndex c l" and "acks_le l l'"
  shows "\<exists>p j. fmlookup v p = Some True \<and> l' p = Some j \<and> i \<le> j"
  using joint_quorums.winner_hears_committed [OF assms] .

theorem JointConfig_winner_hears_committed_witness:
  "\<exists>p j. fmlookup (fmap_of_list [(1, True), (2, True)]) (p::PeerID) = Some True \<and>
     (\<lambda>p. if p = 2 \<or> p = 3 then Some 4 else None) p = Some (j::u64) \<and> 4 \<le> j"
  by (rule JointConfig_winner_hears_committed
      [where c = "(Some {|1, 2, 3|}, None)" and u = "fmap_of_list [(1, True), (2, True)]" and
        v = "fmap_of_list [(1, True), (2, True)]" and
        l = "\<lambda>p. if p = 2 \<or> p = 3 then Some 4 else None" and
        l' = "\<lambda>p. if p = 2 \<or> p = 3 then Some 4 else None"])
    (simp_all add: JointConfig_IDs_def JointConfig_VoteResult_def MajorityConfig_VoteResult_def
      JointConfig_CommittedIndex_def MajorityConfig_CommittedIndex_def committed_index_over_def
      acks_le_def map_len_def ranged_def fset_eval fmsubset.rep_eq fmlookup_of_list)

text \<open>
  Property C18: \<open>VoteResult\<close> of a joint configuration reports a pending vote
  exactly when the missing ballots can still decide it either way, and a won
  or lost vote exactly when every completion of the ballots agrees.
\<close>

theorem JointConfig_VoteResult_open:
  "JointConfig_VoteResult c votes =
    (if \<exists>votes'. votes \<subseteq>\<^sub>f votes' \<and> JointConfig_VoteResult c votes' = VoteLost
     then if \<exists>votes'. votes \<subseteq>\<^sub>f votes' \<and> JointConfig_VoteResult c votes' = VoteWon
          then VotePending else VoteLost
     else VoteWon)"
proof -
  let ?T = "complete_votes True (JointConfig_IDs c) votes"
    and ?F = "complete_votes False (JointConfig_IDs c) votes"
  have "(\<exists>v. votes \<subseteq>\<^sub>f v \<and> JointConfig_VoteResult c v = VoteLost) \<longleftrightarrow>
      JointConfig_VoteResult c votes \<noteq> VoteWon"
    using JointConfig_VoteResult_mono(1) JointConfig_VoteResult_complete(2) [of c votes]
      complete_votes_extends [of votes False] by (metis VoteResult.distinct(3))
  moreover have "(\<exists>v. votes \<subseteq>\<^sub>f v \<and> JointConfig_VoteResult c v = VoteWon) \<longleftrightarrow>
      JointConfig_VoteResult c votes \<noteq> VoteLost"
    using JointConfig_VoteResult_mono(2) JointConfig_VoteResult_complete(1) [of c votes]
      complete_votes_extends [of votes True] by (metis VoteResult.distinct(3))
  ultimately show ?thesis by (cases "JointConfig_VoteResult c votes") simp_all
qed


text \<open>
  Property C23: the lead support expiration of a joint configuration is the
  largest timestamp up to which a majority of each non-empty half supports the
  leader, a peer without a promise counting as the empty timestamp.
\<close>

theorem JointConfig_LeadSupportExpiration_is_majority_support:
  assumes "Timestamp_valid t"
  shows "t \<le> JointConfig_LeadSupportExpiration (c1, c2) supported \<longleftrightarrow>
    (\<forall>c \<in> {c1, c2}. keys c = {||} \<or> card (fset (keys c)) <
       2 * card {p \<in> fset (keys c).
         t \<le> (case fmlookup supported p of Some v \<Rightarrow> v | None \<Rightarrow> Timestamp 0 0)})"
proof -
  have "t \<le> MajorityConfig_LeadSupportExpiration c supported \<longleftrightarrow> keys c = {||} \<or>
      majority c {p. t \<le> (case fmlookup supported p of Some v \<Rightarrow> v | None \<Rightarrow> Timestamp 0 0)}" for c
    using MajorityConfig_LeadSupportExpiration_iff [of c t supported] Timestamp_le_Max [OF assms]
    by (cases "keys c = {||}") (simp_all add: MajorityConfig_LeadSupportExpiration_def)
  then show ?thesis
    by (simp add: JointConfig_LeadSupportExpiration_def Timestamp_Backward_min majority_def Int_def)
qed

theorem JointConfig_LeadSupportExpiration_is_majority_support_witness:
  "Timestamp 5 0 \<le> JointConfig_LeadSupportExpiration (Some {|1|}, None) (fmap_of_list [(1, Timestamp 6 0)])"
proof -
  have "{p \<in> fset (keys (Some {|1|} :: idset)). Timestamp 5 0 \<le>
      (case fmlookup (fmap_of_list [(1, Timestamp 6 0)]) p of Some v \<Rightarrow> v | None \<Rightarrow> Timestamp 0 0)} = {1}"
    by (auto simp: Timestamp_order_defs)
  then show ?thesis
    using JointConfig_LeadSupportExpiration_is_majority_support
      [of "Timestamp 5 0" "Some {|1|}" None "fmap_of_list [(1, Timestamp 6 0)]"]
    by (simp add: Timestamp_valid_def)
qed

text \<open>The copy that \<open>Config.Clone\<close> returns has lost the flag \<open>AutoLeave\<close>.\<close>

lemma Config_Clone_drops_AutoLeave: "Config_Clone c = c \<longleftrightarrow> \<not> c_AutoLeave c"
  by (cases c) (simp add: Config_Clone_def)

end
