(* ===== verification/Progress_Tracker.thy ===== *)
theory Progress_Tracker
  imports Tracker_Progress Quorum
begin

text \<open>
  The trackers of a leader and of a candidate, \<open>tracker/progresstracker.go\<close> and
  \<open>tracker/electiontracker.go\<close>. Both hold a pointer to the group configuration of
  the raft instance that owns them; here the configuration is an argument of the
  operations that read it. A nil progress map reads as the empty map.
\<close>

section \<open>The progress tracker\<close>

type_synonym ProgressMap = "(PeerID, Progress) fmap"

record ProgressTracker =
  pt_progress :: ProgressMap

definition MakeProgressTracker :: "ProgressMap \<Rightarrow> ProgressTracker" where
  "MakeProgressTracker progressMap = \<lparr>pt_progress = progressMap\<rparr>"

definition ProgressTracker_Progress :: "ProgressTracker \<Rightarrow> PeerID \<Rightarrow> Progress option" where
  "ProgressTracker_Progress p i = fmlookup (pt_progress p) i"

definition ProgressTracker_MoveProgressMap :: "ProgressTracker \<Rightarrow> ProgressMap \<times> ProgressTracker" where
  "ProgressTracker_MoveProgressMap p = (pt_progress p, p\<lparr>pt_progress := fmempty\<rparr>)"

definition ProgressTracker_Len :: "ProgressTracker \<Rightarrow> nat" where
  "ProgressTracker_Len p = fcard (fmdom (pt_progress p))"

definition matchAckIndexer_AckedIndex :: "ProgressMap \<Rightarrow> AckedIndexer" where
  "matchAckIndexer_AckedIndex l i =
     (case fmlookup l i of None \<Rightarrow> None | Some pr \<Rightarrow> Some (pr_Match pr))"

definition ProgressTracker_Committed :: "Config \<Rightarrow> ProgressTracker \<Rightarrow> u64" where
  "ProgressTracker_Committed config p =
     JointConfig_CommittedIndex (c_Voters config) (matchAckIndexer_AckedIndex (pt_progress p))"

text \<open>
  The ids that \<open>Visit\<close> passes to its closure, in the order of the calls. The
  closures of the callers change the tracker and the rest of the raft state, so a
  caller iterates over these ids and looks the progress up at each of them.
\<close>

definition ProgressTracker_ids :: "ProgressTracker \<Rightarrow> PeerID list" where
  "ProgressTracker_ids p = sorted_list_of_fset (fmdom (pt_progress p))"

definition ProgressTracker_Visit ::
    "(PeerID \<Rightarrow> Progress \<Rightarrow> 's \<Rightarrow> 's go) \<Rightarrow> ProgressTracker \<Rightarrow> 's \<Rightarrow> 's go" where
  "ProgressTracker_Visit f p =
     foldM (\<lambda>i s. fmlookup (pt_progress p) i \<bind> (\<lambda>pr. f i pr s)) (ProgressTracker_ids p)"

definition QuorumActive_votes :: "ProgressTracker \<Rightarrow> (PeerID, bool) fmap go" where
  "QuorumActive_votes p =
     ProgressTracker_Visit (\<lambda>i pr votes.
       Some (if pr_IsLearner pr then votes else fmupd i (pr_RecentActive pr) votes)) p fmempty"

definition ProgressTracker_QuorumActive :: "Config \<Rightarrow> ProgressTracker \<Rightarrow> bool go" where
  "ProgressTracker_QuorumActive config p = do {
     votes \<leftarrow> QuorumActive_votes p;
     Some (JointConfig_VoteResult (c_Voters config) votes = VoteWon)
   }"

definition ProgressTracker_VoterNodes :: "Config \<Rightarrow> PeerID list" where
  "ProgressTracker_VoterNodes config = sorted_list_of_fset (JointConfig_IDs (c_Voters config))"

definition ProgressTracker_LearnerNodes :: "Config \<Rightarrow> PeerID list" where
  "ProgressTracker_LearnerNodes config =
     (if map_len (c_Learners config) = 0 then [] else ranged (c_Learners config))"

section \<open>The election tracker\<close>

record ElectionTracker =
  et_votes :: "(PeerID, bool) fmap"

definition MakeVoteTracker :: ElectionTracker where
  "MakeVoteTracker = \<lparr>et_votes = fmempty\<rparr>"

definition ElectionTracker_RecordVote :: "PeerID \<Rightarrow> bool \<Rightarrow> ElectionTracker \<Rightarrow> ElectionTracker" where
  "ElectionTracker_RecordVote i vote e =
     (case fmlookup (et_votes e) i of
        Some _ \<Rightarrow> e
      | None \<Rightarrow> e\<lparr>et_votes := fmupd i vote (et_votes e)\<rparr>)"

definition ElectionTracker_TallyVotes :: "Config \<Rightarrow> ElectionTracker \<Rightarrow> nat \<times> nat \<times> VoteResult" where
  "ElectionTracker_TallyVotes config e =
     (let counted = filter (\<lambda>i. \<not> has_key (c_Learners config) i)
                      (sorted_list_of_fset (fmdom (et_votes e)));
          granted = length (filter (\<lambda>i. fmlookup (et_votes e) i = Some True) counted);
          rejected = length (filter (\<lambda>i. fmlookup (et_votes e) i = Some False) counted)
      in (granted, rejected, JointConfig_VoteResult (c_Voters config) (et_votes e)))"

definition ElectionTracker_ResetVotes :: "ElectionTracker \<Rightarrow> ElectionTracker" where
  "ElectionTracker_ResetVotes e = e\<lparr>et_votes := fmempty\<rparr>"

section \<open>What the trackers compute\<close>

lemma set_ProgressTracker_ids [simp]:
  "set (ProgressTracker_ids p) = fset (fmdom (pt_progress p))"
  by (simp add: ProgressTracker_ids_def)

lemma distinct_ProgressTracker_ids [simp]: "distinct (ProgressTracker_ids p)"
  by (simp add: ProgressTracker_ids_def)

lemma QuorumActive_votes_fold:
  assumes "set is \<subseteq> fset (fmdom m)"
  shows "\<exists>votes. foldM (\<lambda>i s. fmlookup m i \<bind> (\<lambda>pr.
        Some (if pr_IsLearner pr then s else fmupd i (pr_RecentActive pr) s))) is s = Some votes \<and>
    (\<forall>p. fmlookup votes p =
      (if p \<in> set is then
         (case fmlookup m p of
            Some pr \<Rightarrow> if pr_IsLearner pr then fmlookup s p else Some (pr_RecentActive pr)
          | None \<Rightarrow> fmlookup s p)
       else fmlookup s p))"
  using assms
proof (induction "is" arbitrary: s)
  case Nil
  then show ?case by simp
next
  case (Cons i "is")
  then obtain pr where pr: "fmlookup m i = Some pr"
    by (auto simp: fmlookup_dom_iff)
  let ?s = "if pr_IsLearner pr then s else fmupd i (pr_RecentActive pr) s"
  obtain votes where v: "foldM (\<lambda>i s. fmlookup m i \<bind> (\<lambda>pr.
        Some (if pr_IsLearner pr then s else fmupd i (pr_RecentActive pr) s))) is ?s = Some votes"
    "\<forall>p. fmlookup votes p = (if p \<in> set is then
         (case fmlookup m p of
            Some pr \<Rightarrow> if pr_IsLearner pr then fmlookup ?s p else Some (pr_RecentActive pr)
          | None \<Rightarrow> fmlookup ?s p)
       else fmlookup ?s p)"
    using Cons.IH [of ?s] Cons.prems by auto
  with pr show ?case by (intro exI [of _ votes]) (auto split: option.splits)
qed

lemma QuorumActive_votes_Some:
  obtains votes where "QuorumActive_votes p = Some votes"
    and "\<And>i. fmlookup votes i =
      (case fmlookup (pt_progress p) i of
         Some pr \<Rightarrow> if pr_IsLearner pr then None else Some (pr_RecentActive pr)
       | None \<Rightarrow> None)"
  using QuorumActive_votes_fold [of "ProgressTracker_ids p" "pt_progress p" fmempty]
  by (fastforce simp: QuorumActive_votes_def ProgressTracker_Visit_def fmlookup_dom_iff
      split: option.splits)

lemma ElectionTracker_votes_extend:
  "et_votes e \<subseteq>\<^sub>f et_votes (ElectionTracker_RecordVote i v e)"
  by (auto simp: ElectionTracker_RecordVote_def fmsubset_alt_def fmpred_iff split: option.splits)

lemma fold_RecordVote_lookup:
  "fmlookup (et_votes (fold (\<lambda>(i, v). ElectionTracker_RecordVote i v) xs e)) p =
     (case fmlookup (et_votes e) p of Some v \<Rightarrow> Some v | None \<Rightarrow> map_of xs p)"
  by (induction xs arbitrary: e)
    (auto simp: ElectionTracker_RecordVote_def split: option.splits)

lemma matchAck_update_mono:
  assumes "fmlookup m i = Some pr" and "pr_Match pr \<le> pr_Match pr'"
  shows "acks_le (matchAckIndexer_AckedIndex m) (matchAckIndexer_AckedIndex (fmupd i pr' m))"
  using assms by (auto simp: acks_le_def matchAckIndexer_AckedIndex_def split: option.splits)

lemma ProgressTracker_Committed_mono:
  assumes "fmlookup (pt_progress p) i = Some pr" and "pr_Match pr \<le> pr_Match pr'"
  shows "ProgressTracker_Committed config p \<le>
    ProgressTracker_Committed config (p\<lparr>pt_progress := fmupd i pr' (pt_progress p)\<rparr>)"
  using joint_quorums.committed_mono [OF matchAck_update_mono [OF assms]]
  by (simp add: ProgressTracker_Committed_def)

lemma Progress_MaybeUpdate_Match: "pr_Match pr \<le> pr_Match (fst (Progress_MaybeUpdate n pr))"
  by (auto simp: Progress_MaybeUpdate_def)

section \<open>Properties\<close>

text \<open>
  Property C19: a candidate's tally is the decision of the configuration on the
  first ballot received from each peer: recording ballots in any sequence leaves
  the map in which later ballots of a peer are ignored, and once the tally has
  decided, no further ballot changes the decision.
\<close>

theorem ElectionTracker_first_ballot_counts:
  "snd (snd (ElectionTracker_TallyVotes config
      (fold (\<lambda>(i, v). ElectionTracker_RecordVote i v) xs MakeVoteTracker))) =
    JointConfig_VoteResult (c_Voters config) (fmap_of_list xs) \<and>
   (snd (snd (ElectionTracker_TallyVotes config e)) = VotePending \<or>
    snd (snd (ElectionTracker_TallyVotes config (ElectionTracker_RecordVote i v e))) =
      snd (snd (ElectionTracker_TallyVotes config e)))"
proof -
  have "et_votes (fold (\<lambda>(i, v). ElectionTracker_RecordVote i v) xs MakeVoteTracker) = fmap_of_list xs"
    by (rule fmap_ext) (simp add: fold_RecordVote_lookup fmlookup_of_list MakeVoteTracker_def)
  moreover have "JointConfig_VoteResult c (et_votes e) = VotePending \<or>
      JointConfig_VoteResult c (et_votes (ElectionTracker_RecordVote i v e)) =
      JointConfig_VoteResult c (et_votes e)" for c
    using JointConfig_VoteResult_mono [OF ElectionTracker_votes_extend [of e i v], of c]
    by (cases "JointConfig_VoteResult c (et_votes e)") simp_all
  ultimately show ?thesis by (simp add: ElectionTracker_TallyVotes_def Let_def)
qed

text \<open>
  Property C20: \<open>QuorumActive\<close> never panics and holds exactly when, in each
  non-empty half of the configuration, more than half of the voters have a
  progress that is recently active and not marked as a learner.
\<close>

theorem ProgressTracker_QuorumActive_iff:
  "ProgressTracker_QuorumActive config p =
     (let active = (\<lambda>c. keys c = {||} \<or> card (fset (keys c)) <
            2 * card {i \<in> fset (keys c). \<exists>pr. fmlookup (pt_progress p) i = Some pr \<and>
                        \<not> pr_IsLearner pr \<and> pr_RecentActive pr})
      in Some (active (fst (c_Voters config)) \<and> active (snd (c_Voters config))))"
proof -
  obtain votes where v: "QuorumActive_votes p = Some votes"
    "\<And>i. fmlookup votes i = (case fmlookup (pt_progress p) i of
         Some pr \<Rightarrow> if pr_IsLearner pr then None else Some (pr_RecentActive pr) | None \<Rightarrow> None)"
    using QuorumActive_votes_Some [of p] by metis
  have "fmlookup votes i = Some True \<longleftrightarrow>
      (\<exists>pr. fmlookup (pt_progress p) i = Some pr \<and> \<not> pr_IsLearner pr \<and> pr_RecentActive pr)" for i
    by (auto simp: v(2) split: option.splits if_splits)
  then show ?thesis
    by (simp add: ProgressTracker_QuorumActive_def v(1) JointConfig_VoteResult_iff
        MajorityConfig_VoteWon_iff majority_def Int_def Let_def)
qed

text \<open>
  Property C21: an acknowledgement processed by \<open>MaybeUpdate\<close> never lowers the
  index that \<open>Committed\<close> reports for the configuration.
\<close>

theorem ProgressTracker_Committed_never_regresses:
  assumes "ProgressTracker_Progress p i = Some pr"
  shows "ProgressTracker_Committed config p \<le>
    ProgressTracker_Committed config
      (p\<lparr>pt_progress := fmupd i (fst (Progress_MaybeUpdate n pr)) (pt_progress p)\<rparr>)"
  using ProgressTracker_Committed_mono Progress_MaybeUpdate_Match assms
  by (simp add: ProgressTracker_Progress_def)

theorem ProgressTracker_Committed_never_regresses_witness:
  "ProgressTracker_Committed \<lparr>c_Voters = (Some {|1|}, None), c_AutoLeave = False,
      c_Learners = None, c_LearnersNext = None\<rparr>
     \<lparr>pt_progress = fmap_of_list [(1, \<lparr>pr_Match = 3, pr_Next = 9, pr_SentCommit = 2,
        pr_MatchCommit = 2, pr_State = StateProbe, pr_PendingSnapshot = 0, pr_RecentActive = True,
        pr_MsgAppProbesPaused = True, pr_Inflights = NewInflights 4 0, pr_IsLearner = False\<rparr>)]\<rparr> \<le> 7"
proof -
  let ?pr = "\<lparr>pr_Match = 3, pr_Next = 9, pr_SentCommit = 2,
      pr_MatchCommit = 2, pr_State = StateProbe, pr_PendingSnapshot = 0, pr_RecentActive = True,
      pr_MsgAppProbesPaused = True, pr_Inflights = NewInflights 4 0, pr_IsLearner = False\<rparr>"
  let ?p = "\<lparr>pt_progress = fmap_of_list [(1, ?pr)]\<rparr>"
  let ?c = "\<lparr>c_Voters = (Some {|1|}, None), c_AutoLeave = False, c_Learners = None, c_LearnersNext = None\<rparr>"
  have "ProgressTracker_Progress ?p 1 = Some ?pr"
    by (simp add: ProgressTracker_Progress_def fmlookup_of_list)
  then have "ProgressTracker_Committed ?c ?p \<le> ProgressTracker_Committed ?c
      (?p\<lparr>pt_progress := fmupd 1 (fst (Progress_MaybeUpdate 7 ?pr)) (pt_progress ?p)\<rparr>)"
    by (rule ProgressTracker_Committed_never_regresses)
  also have "\<dots> = 7"
    by (simp add: ProgressTracker_Committed_def JointConfig_CommittedIndex_def
        MajorityConfig_CommittedIndex_def committed_index_over_def matchAckIndexer_AckedIndex_def
        Progress_MaybeUpdate_def fset_eval)
  finally show ?thesis .
qed

end
