(* ===== verification/Confchange.thy ===== *)
theory Confchange
  imports Progress_Tracker
begin

text \<open>
  Configuration changes, \<open>confchange/confchange.go\<close> and \<open>confchange/restore.go\<close>.
  An operation takes the configuration and progress map it works on and returns
  the changed pair. The outer option is the panic of a write to a nil map or a nil
  dereference, the sum is the error result. The two contracts of this theory say
  that every change keeps the invariants of \<open>checkInvariants\<close> and that deciding
  quorums before and after a change share a voter.
\<close>

section \<open>Errors and the nil-aware sets\<close>

datatype cc_error =
    AlreadyJoint
  | ZeroVoterJoint
  | NotJoint
  | SimpleInJoint
  | TooManyVotersChanged
  | UnexpectedConfType
  | RemovedAllVoters
  | NoProgress PeerID
  | LearnersNextNotOutgoing PeerID
  | LearnersNextMarkedLearner PeerID
  | LearnerAndOutgoing PeerID
  | LearnerAndIncoming PeerID
  | LearnerNotMarked PeerID
  | OutgoingNotNil
  | LearnersNextNotNil
  | AutoLeaveNotJoint

type_synonym cc_state = "Config \<times> ProgressMap"

record Changer =
  chg_Config :: Config
  chg_ProgressMap :: ProgressMap
  chg_MaxInflight :: nat
  chg_MaxInflightBytes :: u64
  chg_LastIndex :: u64

definition nilAwareAdd :: "idset \<Rightarrow> PeerID \<Rightarrow> idset" where
  "nilAwareAdd m i = (case m of None \<Rightarrow> Some {|i|} | Some s \<Rightarrow> Some (finsert i s))"

definition nilAwareDelete :: "idset \<Rightarrow> PeerID \<Rightarrow> idset" where
  "nilAwareDelete m i =
     (case m of
        None \<Rightarrow> None
      | Some s \<Rightarrow> let s = s |-| {|i|} in if fcard s = 0 then None else Some s)"

text \<open>\<open>m[id] = struct{}{}\<close> panics on a nil map; \<open>delete(m, id)\<close> does not.\<close>

definition map_put :: "idset \<Rightarrow> PeerID \<Rightarrow> idset go" where
  "map_put m i = (case m of None \<Rightarrow> None | Some s \<Rightarrow> Some (Some (finsert i s)))"

definition map_delete :: "idset \<Rightarrow> PeerID \<Rightarrow> idset" where
  "map_delete m i = (case m of None \<Rightarrow> None | Some s \<Rightarrow> Some (s |-| {|i|}))"

definition incoming :: "JointConfig \<Rightarrow> MajorityConfig" where
  "incoming voters = fst voters"

definition outgoing :: "JointConfig \<Rightarrow> MajorityConfig" where
  "outgoing voters = snd voters"

definition joint :: "Config \<Rightarrow> bool" where
  "joint cfg \<longleftrightarrow> 0 < map_len (outgoing (c_Voters cfg))"

definition symdiff :: "idset \<Rightarrow> idset \<Rightarrow> nat" where
  "symdiff l r =
     length (filter (\<lambda>i. \<not> has_key r i) (ranged l)) + length (filter (\<lambda>i. \<not> has_key l i) (ranged r))"

section \<open>Checking a configuration\<close>

text \<open>
  The loops return at the first offending id. The map lookup \<open>trk[id]\<close> of the second
  and third loop cannot fail, because the first loop has found every id in the map.
\<close>

fun first_error :: "('a \<Rightarrow> 'e option) \<Rightarrow> 'a list \<Rightarrow> 'e option" where
  "first_error f [] = None"
| "first_error f (x # xs) = (case f x of Some e \<Rightarrow> Some e | None \<Rightarrow> first_error f xs)"

definition marked_learner :: "ProgressMap \<Rightarrow> PeerID \<Rightarrow> bool" where
  "marked_learner trk i = (case fmlookup trk i of Some pr \<Rightarrow> pr_IsLearner pr | None \<Rightarrow> False)"

definition check_progress :: "ProgressMap \<Rightarrow> PeerID \<Rightarrow> cc_error option" where
  "check_progress trk i = (case fmlookup trk i of None \<Rightarrow> Some (NoProgress i) | Some _ \<Rightarrow> None)"

definition check_staged :: "Config \<Rightarrow> ProgressMap \<Rightarrow> PeerID \<Rightarrow> cc_error option" where
  "check_staged cfg trk i =
     (if \<not> has_key (outgoing (c_Voters cfg)) i then Some (LearnersNextNotOutgoing i)
      else if marked_learner trk i then Some (LearnersNextMarkedLearner i)
      else None)"

definition check_learner :: "Config \<Rightarrow> ProgressMap \<Rightarrow> PeerID \<Rightarrow> cc_error option" where
  "check_learner cfg trk i =
     (if has_key (outgoing (c_Voters cfg)) i then Some (LearnerAndOutgoing i)
      else if has_key (incoming (c_Voters cfg)) i then Some (LearnerAndIncoming i)
      else if \<not> marked_learner trk i then Some (LearnerNotMarked i)
      else None)"

definition checkInvariants :: "Config \<Rightarrow> ProgressMap \<Rightarrow> cc_error option" where
  "checkInvariants cfg trk =
     (case first_error (check_progress trk)
        (sorted_list_of_fset (JointConfig_IDs (c_Voters cfg)) @
         ranged (c_Learners cfg) @ ranged (c_LearnersNext cfg)) of
        Some e \<Rightarrow> Some e
      | None \<Rightarrow>
     (case first_error (check_staged cfg trk) (ranged (c_LearnersNext cfg)) of
        Some e \<Rightarrow> Some e
      | None \<Rightarrow>
     (case first_error (check_learner cfg trk) (ranged (c_Learners cfg)) of
        Some e \<Rightarrow> Some e
      | None \<Rightarrow>
        if \<not> joint cfg then
          if outgoing (c_Voters cfg) \<noteq> None then Some OutgoingNotNil
          else if c_LearnersNext cfg \<noteq> None then Some LearnersNextNotNil
          else if c_AutoLeave cfg then Some AutoLeaveNotJoint
          else None
        else None)))"

definition checkAndReturn :: "Config \<Rightarrow> ProgressMap \<Rightarrow> cc_error + cc_state" where
  "checkAndReturn cfg trk =
     (case checkInvariants cfg trk of Some e \<Rightarrow> Inl e | None \<Rightarrow> Inr (cfg, trk))"

definition Changer_checkAndCopy :: "Changer \<Rightarrow> cc_error + cc_state" where
  "Changer_checkAndCopy c = checkAndReturn (Config_Clone (chg_Config c)) (chg_ProgressMap c)"

section \<open>Applying changes\<close>

definition Changer_initProgress :: "Changer \<Rightarrow> PeerID \<Rightarrow> bool \<Rightarrow> cc_state \<Rightarrow> cc_state go" where
  "Changer_initProgress c i isLearner s = (case s of (cfg, trk) \<Rightarrow> do {
     cfg \<leftarrow> (if \<not> isLearner then do {
               v \<leftarrow> map_put (incoming (c_Voters cfg)) i;
               Some (cfg\<lparr>c_Voters := (v, outgoing (c_Voters cfg))\<rparr>)
             } else Some (cfg\<lparr>c_Learners := nilAwareAdd (c_Learners cfg) i\<rparr>));
     Some (cfg, fmupd i \<lparr>pr_Match = 0, pr_Next = max (chg_LastIndex c) 1, pr_SentCommit = 0,
       pr_MatchCommit = 0, pr_State = StateProbe, pr_PendingSnapshot = 0, pr_RecentActive = True,
       pr_MsgAppProbesPaused = False,
       pr_Inflights = NewInflights (chg_MaxInflight c) (chg_MaxInflightBytes c),
       pr_IsLearner = isLearner\<rparr> trk)
   })"

definition Changer_makeVoter :: "Changer \<Rightarrow> PeerID \<Rightarrow> cc_state \<Rightarrow> cc_state go" where
  "Changer_makeVoter c i s = (case s of (cfg, trk) \<Rightarrow>
     (case fmlookup trk i of
        None \<Rightarrow> Changer_initProgress c i False (cfg, trk)
      | Some pr \<Rightarrow> do {
          let trk = fmupd i (pr\<lparr>pr_IsLearner := False\<rparr>) trk;
          let cfg = cfg\<lparr>c_Learners := nilAwareDelete (c_Learners cfg) i,
                        c_LearnersNext := nilAwareDelete (c_LearnersNext cfg) i\<rparr>;
          v \<leftarrow> map_put (incoming (c_Voters cfg)) i;
          Some (cfg\<lparr>c_Voters := (v, outgoing (c_Voters cfg))\<rparr>, trk)
        }))"

definition Changer_remove :: "PeerID \<Rightarrow> cc_state \<Rightarrow> cc_state" where
  "Changer_remove i s = (case s of (cfg, trk) \<Rightarrow>
     (case fmlookup trk i of
        None \<Rightarrow> (cfg, trk)
      | Some _ \<Rightarrow>
          let cfg = cfg\<lparr>c_Voters := (map_delete (incoming (c_Voters cfg)) i, outgoing (c_Voters cfg)),
                        c_Learners := nilAwareDelete (c_Learners cfg) i,
                        c_LearnersNext := nilAwareDelete (c_LearnersNext cfg) i\<rparr>
          in (cfg, if \<not> has_key (outgoing (c_Voters cfg)) i then fmdrop i trk else trk)))"

definition Changer_makeLearner :: "Changer \<Rightarrow> PeerID \<Rightarrow> cc_state \<Rightarrow> cc_state go" where
  "Changer_makeLearner c i s = (case s of (cfg, trk) \<Rightarrow>
     (case fmlookup trk i of
        None \<Rightarrow> Changer_initProgress c i True (cfg, trk)
      | Some pr \<Rightarrow>
          if pr_IsLearner pr then Some (cfg, trk)
          else
            let (cfg, trk) = Changer_remove i (cfg, trk);
                trk = fmupd i pr trk
            in if has_key (outgoing (c_Voters cfg)) i
               then Some (cfg\<lparr>c_LearnersNext := nilAwareAdd (c_LearnersNext cfg) i\<rparr>, trk)
               else Some (cfg\<lparr>c_Learners := nilAwareAdd (c_Learners cfg) i\<rparr>,
                          fmupd i (pr\<lparr>pr_IsLearner := True\<rparr>) trk)))"

fun Changer_apply_loop ::
    "Changer \<Rightarrow> ConfChangeSingle list \<Rightarrow> cc_state \<Rightarrow> (cc_error + cc_state) go" where
  "Changer_apply_loop c [] s = Some (Inr s)"
| "Changer_apply_loop c (cc # ccs) s =
     (if ccs_NodeID cc = 0 then Changer_apply_loop c ccs s
      else case ccs_Type cc of
        ConfChangeAddNode \<Rightarrow> Changer_makeVoter c (ccs_NodeID cc) s \<bind> Changer_apply_loop c ccs
      | ConfChangeAddLearnerNode \<Rightarrow> Changer_makeLearner c (ccs_NodeID cc) s \<bind> Changer_apply_loop c ccs
      | ConfChangeRemoveNode \<Rightarrow> Changer_apply_loop c ccs (Changer_remove (ccs_NodeID cc) s)
      | ConfChangeUpdateNode \<Rightarrow> Changer_apply_loop c ccs s
      | ConfChangeType_unknown _ \<Rightarrow> Some (Inl UnexpectedConfType))"

definition Changer_apply ::
    "Changer \<Rightarrow> ConfChangeSingle list \<Rightarrow> cc_state \<Rightarrow> (cc_error + cc_state) go" where
  "Changer_apply c ccs s = do {
     r \<leftarrow> Changer_apply_loop c ccs s;
     case r of
       Inl e \<Rightarrow> Some (Inl e)
     | Inr (cfg, trk) \<Rightarrow>
         if map_len (incoming (c_Voters cfg)) = 0 then Some (Inl RemovedAllVoters)
         else Some (Inr (cfg, trk))
   }"

definition Changer_EnterJoint ::
    "Changer \<Rightarrow> bool \<Rightarrow> ConfChangeSingle list \<Rightarrow> (cc_error + cc_state) go" where
  "Changer_EnterJoint c autoLeave ccs =
     (case Changer_checkAndCopy c of
        Inl e \<Rightarrow> Some (Inl e)
      | Inr (cfg, trk) \<Rightarrow>
          if joint cfg then Some (Inl AlreadyJoint)
          else if map_len (incoming (c_Voters cfg)) = 0 then Some (Inl ZeroVoterJoint)
          else do {
            let cfg = cfg\<lparr>c_Voters :=
              (incoming (c_Voters cfg), Some (keys (incoming (c_Voters cfg))))\<rparr>;
            r \<leftarrow> Changer_apply c ccs (cfg, trk);
            case r of
              Inl e \<Rightarrow> Some (Inl e)
            | Inr (cfg, trk) \<Rightarrow> Some (checkAndReturn (cfg\<lparr>c_AutoLeave := autoLeave\<rparr>) trk)
          })"

text \<open>The two loops of \<open>LeaveJoint\<close>.\<close>

definition LeaveJoint_promote :: "PeerID \<Rightarrow> cc_state \<Rightarrow> cc_state go" where
  "LeaveJoint_promote i s = (case s of (cfg, trk) \<Rightarrow> do {
     let cfg = cfg\<lparr>c_Learners := nilAwareAdd (c_Learners cfg) i\<rparr>;
     pr \<leftarrow> fmlookup trk i;
     Some (cfg, fmupd i (pr\<lparr>pr_IsLearner := True\<rparr>) trk)
   })"

definition LeaveJoint_drop :: "Config \<Rightarrow> PeerID \<Rightarrow> ProgressMap \<Rightarrow> ProgressMap" where
  "LeaveJoint_drop cfg i trk =
     (let isVoter = has_key (incoming (c_Voters cfg)) i;
          isLearner = has_key (c_Learners cfg) i
      in if \<not> isVoter \<and> \<not> isLearner then fmdrop i trk else trk)"

definition Changer_LeaveJoint :: "Changer \<Rightarrow> (cc_error + cc_state) go" where
  "Changer_LeaveJoint c =
     (case Changer_checkAndCopy c of
        Inl e \<Rightarrow> Some (Inl e)
      | Inr (cfg, trk) \<Rightarrow>
          if \<not> joint cfg then Some (Inl NotJoint)
          else do {
            (cfg, trk) \<leftarrow> foldM LeaveJoint_promote (ranged (c_LearnersNext cfg)) (cfg, trk);
            let cfg = cfg\<lparr>c_LearnersNext := None\<rparr>;
            let trk = fold (LeaveJoint_drop cfg) (ranged (outgoing (c_Voters cfg))) trk;
            let cfg = cfg\<lparr>c_Voters := (incoming (c_Voters cfg), None), c_AutoLeave := False\<rparr>;
            Some (checkAndReturn cfg trk)
          })"

definition Changer_Simple :: "Changer \<Rightarrow> ConfChangeSingle list \<Rightarrow> (cc_error + cc_state) go" where
  "Changer_Simple c ccs =
     (case Changer_checkAndCopy c of
        Inl e \<Rightarrow> Some (Inl e)
      | Inr (cfg, trk) \<Rightarrow>
          if joint cfg then Some (Inl SimpleInJoint)
          else do {
            r \<leftarrow> Changer_apply c ccs (cfg, trk);
            case r of
              Inl e \<Rightarrow> Some (Inl e)
            | Inr (cfg, trk) \<Rightarrow>
                if 1 < symdiff (incoming (c_Voters (chg_Config c))) (incoming (c_Voters cfg))
                then Some (Inl TooManyVotersChanged)
                else Some (checkAndReturn cfg trk)
          })"

section \<open>Restoring a configuration\<close>

definition toConfChangeSingle ::
    "ConfState \<Rightarrow> ConfChangeSingle list \<times> ConfChangeSingle list" where
  "toConfChangeSingle cs =
     (let op = (\<lambda>t i. \<lparr>ccs_Type = t, ccs_NodeID = i\<rparr>);
          out = map (op ConfChangeAddNode) (cs_VotersOutgoing cs);
          inc = map (op ConfChangeRemoveNode) (cs_VotersOutgoing cs) @
                map (op ConfChangeAddNode) (cs_Voters cs) @
                map (op ConfChangeAddLearnerNode) (cs_Learners cs) @
                map (op ConfChangeAddLearnerNode) (cs_LearnersNext cs)
      in (out, inc))"

fun chain :: "Changer \<Rightarrow> (Changer \<Rightarrow> (cc_error + cc_state) go) list \<Rightarrow> (cc_error + cc_state) go" where
  "chain chg [] = Some (Inr (chg_Config chg, chg_ProgressMap chg))"
| "chain chg (f # fs) = do {
     r \<leftarrow> f chg;
     case r of
       Inl e \<Rightarrow> Some (Inl e)
     | Inr (cfg, progressMap) \<Rightarrow>
         chain (chg\<lparr>chg_Config := cfg, chg_ProgressMap := progressMap\<rparr>) fs
   }"

definition Restore :: "Changer \<Rightarrow> ConfState \<Rightarrow> (cc_error + cc_state) go" where
  "Restore chg cs =
     (let (out, inc) = toConfChangeSingle cs;
          simple = (\<lambda>cc chg. Changer_Simple chg [cc])
      in if out = [] then chain chg (map simple inc)
         else chain chg (map simple out @ [\<lambda>chg. Changer_EnterJoint chg (cs_AutoLeave cs) inc]))"


section \<open>What a change does to the four sets\<close>

text \<open>
  The abstract configuration: incoming voters, outgoing voters, learners and
  staged learners as plain finite sets.
\<close>

type_synonym cc_sets = "PeerID fset \<times> PeerID fset \<times> PeerID fset \<times> PeerID fset"

definition sets_of :: "Config \<Rightarrow> cc_sets" where
  "sets_of cfg = (keys (incoming (c_Voters cfg)), keys (outgoing (c_Voters cfg)),
     keys (c_Learners cfg), keys (c_LearnersNext cfg))"

fun sets_voter :: "PeerID \<Rightarrow> cc_sets \<Rightarrow> cc_sets" where
  "sets_voter i (v, out, l, n) = (finsert i v, out, l |-| {|i|}, n |-| {|i|})"

fun sets_learner :: "PeerID \<Rightarrow> cc_sets \<Rightarrow> cc_sets" where
  "sets_learner i (v, out, l, n) =
     (if i |\<in>| out then (v |-| {|i|}, out, l, finsert i n)
      else (v |-| {|i|}, out, finsert i l, n))"

fun sets_remove :: "PeerID \<Rightarrow> cc_sets \<Rightarrow> cc_sets" where
  "sets_remove i (v, out, l, n) = (v |-| {|i|}, out, l |-| {|i|}, n |-| {|i|})"

definition sets_change :: "ConfChangeSingle \<Rightarrow> cc_sets \<Rightarrow> cc_sets" where
  "sets_change cc a =
     (if ccs_NodeID cc = 0 then a
      else case ccs_Type cc of
        ConfChangeAddNode \<Rightarrow> sets_voter (ccs_NodeID cc) a
      | ConfChangeAddLearnerNode \<Rightarrow> sets_learner (ccs_NodeID cc) a
      | ConfChangeRemoveNode \<Rightarrow> sets_remove (ccs_NodeID cc) a
      | _ \<Rightarrow> a)"

definition known_change :: "ConfChangeSingle \<Rightarrow> bool" where
  "known_change cc \<longleftrightarrow>
     ccs_NodeID cc = 0 \<or> (case ccs_Type cc of ConfChangeType_unknown _ \<Rightarrow> False | _ \<Rightarrow> True)"

text \<open>
  A configuration whose members are exactly the tracked peers, the learners among
  them exactly those marked as such, with the empty learner sets nil.
\<close>

definition canonical :: "idset \<Rightarrow> bool" where
  "canonical m \<longleftrightarrow> m \<noteq> Some {||}"

definition tracked :: "Config \<Rightarrow> ProgressMap \<Rightarrow> bool" where
  "tracked cfg trk \<longleftrightarrow>
     incoming (c_Voters cfg) \<noteq> None \<and> canonical (c_Learners cfg) \<and> canonical (c_LearnersNext cfg) \<and>
     (case sets_of cfg of (v, out, l, n) \<Rightarrow>
        fmdom trk = v |\<union>| out |\<union>| l \<and> n |\<subseteq>| out \<and> n |\<inter>| v = {||} \<and>
        l |\<inter>| (v |\<union>| out) = {||} \<and> (\<forall>i. i |\<in>| fmdom trk \<longrightarrow> marked_learner trk i = (i |\<in>| l)))"

lemmas config_sel_defs = incoming_def outgoing_def sets_of_def

lemma keys_nilAwareAdd [simp]: "keys (nilAwareAdd m i) = finsert i (keys m)"
  by (cases m) (simp_all add: nilAwareAdd_def)

lemma keys_nilAwareDelete [simp]: "keys (nilAwareDelete m i) = keys m |-| {|i|}"
  by (cases m) (simp_all add: nilAwareDelete_def Let_def)

lemma keys_map_delete [simp]: "keys (map_delete m i) = keys m |-| {|i|}"
  by (cases m) (simp_all add: map_delete_def)

lemma map_put_Some: "m \<noteq> None \<Longrightarrow> map_put m i = Some (Some (finsert i (keys m)))"
  by (auto simp: map_put_def)

lemma canonical_simps [simp]:
  "canonical None"
  "canonical (nilAwareAdd m i)"
  "canonical m \<Longrightarrow> canonical (nilAwareDelete m i)"
  by (auto simp: canonical_def nilAwareAdd_def nilAwareDelete_def Let_def split: option.splits)

lemma canonical_empty: "canonical m \<Longrightarrow> keys m = {||} \<longleftrightarrow> m = None"
  by (cases m) (auto simp: canonical_def)

lemma marked_learner_simps [simp]:
  "marked_learner (fmupd i pr trk) j = (if i = j then pr_IsLearner pr else marked_learner trk j)"
  "marked_learner (fmdrop i trk) j \<longleftrightarrow> j \<noteq> i \<and> marked_learner trk j"
  by (auto simp: marked_learner_def)

lemma in_fmdom: "i |\<in>| fmdom m \<longleftrightarrow> (\<exists>x. fmlookup m i = Some x)"
  by (rule fmlookup_dom_iff)

lemma trackedD:
  assumes "tracked cfg trk"
  shows "fst (c_Voters cfg) \<noteq> None" and "canonical (c_Learners cfg)" and "canonical (c_LearnersNext cfg)"
    and "fmdom trk = keys (fst (c_Voters cfg)) |\<union>| keys (snd (c_Voters cfg)) |\<union>| keys (c_Learners cfg)"
    and "keys (c_LearnersNext cfg) |\<subseteq>| keys (snd (c_Voters cfg))"
    and "keys (c_LearnersNext cfg) |\<inter>| keys (fst (c_Voters cfg)) = {||}"
    and "keys (c_Learners cfg) |\<inter>| (keys (fst (c_Voters cfg)) |\<union>| keys (snd (c_Voters cfg))) = {||}"
    and "\<And>i. i |\<in>| fmdom trk \<Longrightarrow> marked_learner trk i = (i |\<in>| keys (c_Learners cfg))"
  using assms by (auto simp: tracked_def config_sel_defs)

lemma trackedI:
  assumes "fst (c_Voters cfg) \<noteq> None" and "canonical (c_Learners cfg)" and "canonical (c_LearnersNext cfg)"
    and "fmdom trk = keys (fst (c_Voters cfg)) |\<union>| keys (snd (c_Voters cfg)) |\<union>| keys (c_Learners cfg)"
    and "keys (c_LearnersNext cfg) |\<subseteq>| keys (snd (c_Voters cfg))"
    and "keys (c_LearnersNext cfg) |\<inter>| keys (fst (c_Voters cfg)) = {||}"
    and "keys (c_Learners cfg) |\<inter>| (keys (fst (c_Voters cfg)) |\<union>| keys (snd (c_Voters cfg))) = {||}"
    and "\<And>i. i |\<in>| fmdom trk \<Longrightarrow> marked_learner trk i = (i |\<in>| keys (c_Learners cfg))"
  shows "tracked cfg trk"
  using assms by (auto simp: tracked_def config_sel_defs)

lemma untracked:
  assumes "tracked cfg trk" and "fmlookup trk i = None"
  shows "i |\<notin>| keys (fst (c_Voters cfg))" and "i |\<notin>| keys (snd (c_Voters cfg))"
    and "i |\<notin>| keys (c_Learners cfg)" and "i |\<notin>| keys (c_LearnersNext cfg)"
proof -
  have "i |\<notin>| fmdom trk" using assms(2) by (simp add: fmlookup_dom_iff)
  with trackedD(4,5) [OF assms(1)]
  show "i |\<notin>| keys (fst (c_Voters cfg))" "i |\<notin>| keys (snd (c_Voters cfg))"
    "i |\<notin>| keys (c_Learners cfg)" "i |\<notin>| keys (c_LearnersNext cfg)" by auto
qed

text \<open>The effect of each elementary change on a tracked configuration.\<close>

lemma Changer_makeVoter_sets:
  assumes t: "tracked cfg trk"
  shows "\<exists>cfg' trk'. Changer_makeVoter c i (cfg, trk) = Some (cfg', trk') \<and> tracked cfg' trk' \<and>
    sets_of cfg' = sets_voter i (sets_of cfg) \<and> snd (c_Voters cfg') = snd (c_Voters cfg) \<and>
    c_AutoLeave cfg' = c_AutoLeave cfg"
proof -
  note d = trackedD [OF t]
  obtain v where v: "fst (c_Voters cfg) = Some v" using d(1) by auto
  let ?v = "(Some (finsert i v), snd (c_Voters cfg))"
  show ?thesis
  proof (cases "fmlookup trk i")
    case None
    note i = untracked [OF t None]
    let ?cfg = "cfg\<lparr>c_Voters := ?v\<rparr>"
    have "Changer_makeVoter c i (cfg, trk) = Changer_initProgress c i False (cfg, trk)"
      by (simp add: Changer_makeVoter_def None)
    then obtain pr where r: "Changer_makeVoter c i (cfg, trk) = Some (?cfg, fmupd i pr trk)"
        and pr: "\<not> pr_IsLearner pr"
      by (simp add: Changer_initProgress_def map_put_def incoming_def outgoing_def v)
    have "tracked ?cfg (fmupd i pr trk)"
    proof (rule trackedI)
      show "keys (c_LearnersNext ?cfg) |\<inter>| keys (fst (c_Voters ?cfg)) = {||}"
        using d(6) i v by auto
      show "keys (c_Learners ?cfg) |\<inter>| (keys (fst (c_Voters ?cfg)) |\<union>| keys (snd (c_Voters ?cfg))) = {||}"
        using d(7) i v by auto
      fix j assume "j |\<in>| fmdom (fmupd i pr trk)"
      then show "marked_learner (fmupd i pr trk) j = (j |\<in>| keys (c_Learners ?cfg))"
        using d(8) [of j] i pr by auto
    qed (use d v in simp_all)
    with r i v show ?thesis by (simp add: config_sel_defs)
  next
    case (Some pr)
    let ?cfg = "cfg\<lparr>c_Learners := nilAwareDelete (c_Learners cfg) i,
      c_LearnersNext := nilAwareDelete (c_LearnersNext cfg) i, c_Voters := ?v\<rparr>"
    let ?trk = "fmupd i (pr\<lparr>pr_IsLearner := False\<rparr>) trk"
    have r: "Changer_makeVoter c i (cfg, trk) = Some (?cfg, ?trk)"
      by (simp add: Changer_makeVoter_def Some map_put_def incoming_def outgoing_def v)
    have "tracked ?cfg ?trk"
    proof (rule trackedI)
      show "fmdom ?trk = keys (fst (c_Voters ?cfg)) |\<union>| keys (snd (c_Voters ?cfg)) |\<union>| keys (c_Learners ?cfg)"
        using d(4) v by auto
      show "keys (c_LearnersNext ?cfg) |\<subseteq>| keys (snd (c_Voters ?cfg))"
        using d(5) by auto
      show "keys (c_LearnersNext ?cfg) |\<inter>| keys (fst (c_Voters ?cfg)) = {||}"
        using d(6) v by auto
      show "keys (c_Learners ?cfg) |\<inter>| (keys (fst (c_Voters ?cfg)) |\<union>| keys (snd (c_Voters ?cfg))) = {||}"
        using d(7) v by auto
      fix j assume "j |\<in>| fmdom ?trk"
      then show "marked_learner ?trk j = (j |\<in>| keys (c_Learners ?cfg))"
        using d(8) [of j] by auto
    qed (use d v in simp_all)
    with r v show ?thesis by (simp add: config_sel_defs)
  qed
qed

lemma Changer_remove_sets:
  assumes t: "tracked cfg trk"
  shows "\<exists>cfg' trk'. Changer_remove i (cfg, trk) = (cfg', trk') \<and> tracked cfg' trk' \<and>
    sets_of cfg' = sets_remove i (sets_of cfg) \<and> snd (c_Voters cfg') = snd (c_Voters cfg) \<and>
    c_AutoLeave cfg' = c_AutoLeave cfg"
proof -
  note d = trackedD [OF t]
  obtain v where v: "fst (c_Voters cfg) = Some v" using d(1) by auto
  show ?thesis
  proof (cases "fmlookup trk i")
    case None
    with untracked [OF t None] t v show ?thesis by (simp add: Changer_remove_def config_sel_defs)
  next
    case (Some pr)
    let ?cfg = "cfg\<lparr>c_Voters := (Some (v |-| {|i|}), snd (c_Voters cfg)),
      c_Learners := nilAwareDelete (c_Learners cfg) i,
      c_LearnersNext := nilAwareDelete (c_LearnersNext cfg) i\<rparr>"
    let ?trk = "if i |\<notin>| keys (snd (c_Voters cfg)) then fmdrop i trk else trk"
    have r: "Changer_remove i (cfg, trk) = (?cfg, ?trk)"
      by (simp add: Changer_remove_def Some map_delete_def incoming_def outgoing_def v has_key_def)
    have "tracked ?cfg ?trk"
    proof (rule trackedI)
      show "fmdom ?trk = keys (fst (c_Voters ?cfg)) |\<union>| keys (snd (c_Voters ?cfg)) |\<union>| keys (c_Learners ?cfg)"
        using d(4,7) v by auto
      show "keys (c_LearnersNext ?cfg) |\<subseteq>| keys (snd (c_Voters ?cfg))"
        using d(5) by auto
      show "keys (c_LearnersNext ?cfg) |\<inter>| keys (fst (c_Voters ?cfg)) = {||}"
        using d(6) v by auto
      show "keys (c_Learners ?cfg) |\<inter>| (keys (fst (c_Voters ?cfg)) |\<union>| keys (snd (c_Voters ?cfg))) = {||}"
        using d(7) v by auto
      fix j assume "j |\<in>| fmdom ?trk"
      then show "marked_learner ?trk j = (j |\<in>| keys (c_Learners ?cfg))"
        using d(8) [of j] d(7) by (auto split: if_splits)
    qed (use d v in simp_all)
    with r v show ?thesis by (simp add: config_sel_defs)
  qed
qed

lemma Changer_makeLearner_sets:
  assumes t: "tracked cfg trk"
  shows "\<exists>cfg' trk'. Changer_makeLearner c i (cfg, trk) = Some (cfg', trk') \<and> tracked cfg' trk' \<and>
    sets_of cfg' = sets_learner i (sets_of cfg) \<and> snd (c_Voters cfg') = snd (c_Voters cfg) \<and>
    c_AutoLeave cfg' = c_AutoLeave cfg"
proof (cases "fmlookup trk i")
  case None
  note d = trackedD [OF t] and i = untracked [OF t None]
  let ?cfg = "cfg\<lparr>c_Learners := nilAwareAdd (c_Learners cfg) i\<rparr>"
  obtain pr where r: "Changer_makeLearner c i (cfg, trk) = Some (?cfg, fmupd i pr trk)"
      and pr: "pr_IsLearner pr"
    by (simp add: Changer_makeLearner_def Changer_initProgress_def None)
  have "tracked ?cfg (fmupd i pr trk)"
  proof (rule trackedI)
    show "keys (c_Learners ?cfg) |\<inter>| (keys (fst (c_Voters ?cfg)) |\<union>| keys (snd (c_Voters ?cfg))) = {||}"
      using d(7) i by auto
    fix j assume "j |\<in>| fmdom (fmupd i pr trk)"
    then show "marked_learner (fmupd i pr trk) j = (j |\<in>| keys (c_Learners ?cfg))"
      using d(8) [of j] pr by auto
  qed (use d in simp_all)
  with r i show ?thesis by (simp add: config_sel_defs)
next
  case (Some pr)
  note d = trackedD [OF t]
  have m: "pr_IsLearner pr \<longleftrightarrow> i |\<in>| keys (c_Learners cfg)"
    using d(8) [of i] Some by (simp add: fmlookup_dom_iff marked_learner_def)
  show ?thesis
  proof (cases "pr_IsLearner pr")
    case True
    with m d(7) have "i |\<notin>| keys (snd (c_Voters cfg))" "i |\<notin>| keys (fst (c_Voters cfg))" by auto
    with True m Some t show ?thesis
      by (simp add: Changer_makeLearner_def config_sel_defs finsert_absorb)
  next
    case False
    obtain cfg1 trk1 where r: "Changer_remove i (cfg, trk) = (cfg1, trk1)" "tracked cfg1 trk1"
        "sets_of cfg1 = sets_remove i (sets_of cfg)" "snd (c_Voters cfg1) = snd (c_Voters cfg)"
        "c_AutoLeave cfg1 = c_AutoLeave cfg"
      using Changer_remove_sets [OF t] by blast
    note d1 = trackedD [OF r(2)]
    have k: "keys (fst (c_Voters cfg1)) = keys (fst (c_Voters cfg)) |-| {|i|}"
        "keys (c_Learners cfg1) = keys (c_Learners cfg) |-| {|i|}"
        "keys (c_LearnersNext cfg1) = keys (c_LearnersNext cfg) |-| {|i|}"
      using r(3) by (simp_all add: config_sel_defs)
    have nl: "keys (c_Learners cfg) |-| {|i|} = keys (c_Learners cfg)" using m False by simp
    show ?thesis
    proof (cases "i |\<in>| keys (snd (c_Voters cfg))")
      case right: True
      let ?cfg = "cfg1\<lparr>c_LearnersNext := nilAwareAdd (c_LearnersNext cfg1) i\<rparr>"
      have e: "Changer_makeLearner c i (cfg, trk) = Some (?cfg, fmupd i pr trk1)"
        using Some False r(1,4) right by (simp add: Changer_makeLearner_def has_key_def outgoing_def)
      have "tracked ?cfg (fmupd i pr trk1)"
      proof (rule trackedI)
        show "fmdom (fmupd i pr trk1) = keys (fst (c_Voters ?cfg)) |\<union>| keys (snd (c_Voters ?cfg)) |\<union>|
            keys (c_Learners ?cfg)"
          using d1(4) right r(4) by auto
        fix j assume "j |\<in>| fmdom (fmupd i pr trk1)"
        then show "marked_learner (fmupd i pr trk1) j = (j |\<in>| keys (c_Learners ?cfg))"
          using d1(8) [of j] False k(2) by auto
      qed (use d1 right r(4) k in auto)
      with e r k nl right show ?thesis by (simp add: config_sel_defs)
    next
      case left: False
      let ?cfg = "cfg1\<lparr>c_Learners := nilAwareAdd (c_Learners cfg1) i\<rparr>"
      let ?trk = "fmupd i (pr\<lparr>pr_IsLearner := True\<rparr>) (fmupd i pr trk1)"
      have e: "Changer_makeLearner c i (cfg, trk) = Some (?cfg, ?trk)"
        using Some False r(1,4) left by (simp add: Changer_makeLearner_def has_key_def outgoing_def)
      have n: "i |\<notin>| keys (c_LearnersNext cfg)" using left d(5) by auto
      have "tracked ?cfg ?trk"
      proof (rule trackedI)
        show "keys (c_Learners ?cfg) |\<inter>| (keys (fst (c_Voters ?cfg)) |\<union>| keys (snd (c_Voters ?cfg))) = {||}"
          using d1(7) left r(4) k(1) by auto
        fix j assume "j |\<in>| fmdom ?trk"
        then show "marked_learner ?trk j = (j |\<in>| keys (c_Learners ?cfg))"
          using d1(8) [of j] k(2) by auto
      qed (use d1 in simp_all)
      with e r k nl n left show ?thesis by (simp add: config_sel_defs)
    qed
  qed
qed

lemma Changer_apply_loop_sets:
  assumes "tracked cfg trk" and "list_all known_change ccs"
  shows "\<exists>cfg' trk'. Changer_apply_loop c ccs (cfg, trk) = Some (Inr (cfg', trk')) \<and>
    tracked cfg' trk' \<and> sets_of cfg' = fold sets_change ccs (sets_of cfg) \<and>
    snd (c_Voters cfg') = snd (c_Voters cfg) \<and> c_AutoLeave cfg' = c_AutoLeave cfg"
  using assms
proof (induction ccs arbitrary: cfg trk)
  case Nil
  then show ?case by simp
next
  case (Cons cc ccs)
  have next_step: ?case
    if "Changer_apply_loop c (cc # ccs) (cfg, trk) = Changer_apply_loop c ccs (cfg1, trk1)"
      "tracked cfg1 trk1" "sets_of cfg1 = sets_change cc (sets_of cfg)"
      "snd (c_Voters cfg1) = snd (c_Voters cfg)" "c_AutoLeave cfg1 = c_AutoLeave cfg" for cfg1 trk1
    using Cons.IH [OF that(2)] Cons.prems(2) that by simp
  show ?case
  proof (cases "ccs_NodeID cc = 0")
    case True
    with Cons.prems show ?thesis by (intro next_step) (simp_all add: sets_change_def)
  next
    case False
    show ?thesis
    proof (cases "ccs_Type cc")
      case ConfChangeAddNode
      obtain cfg1 trk1 where "Changer_makeVoter c (ccs_NodeID cc) (cfg, trk) = Some (cfg1, trk1)" "tracked cfg1 trk1"
          "sets_of cfg1 = sets_voter (ccs_NodeID cc) (sets_of cfg)"
          "snd (c_Voters cfg1) = snd (c_Voters cfg)" "c_AutoLeave cfg1 = c_AutoLeave cfg"
        using Changer_makeVoter_sets [OF Cons.prems(1), of c "ccs_NodeID cc"] by blast
      with False ConfChangeAddNode show ?thesis
        by (intro next_step [of cfg1 trk1]) (simp_all add: sets_change_def)
    next
      case ConfChangeAddLearnerNode
      obtain cfg1 trk1 where "Changer_makeLearner c (ccs_NodeID cc) (cfg, trk) = Some (cfg1, trk1)" "tracked cfg1 trk1"
          "sets_of cfg1 = sets_learner (ccs_NodeID cc) (sets_of cfg)"
          "snd (c_Voters cfg1) = snd (c_Voters cfg)" "c_AutoLeave cfg1 = c_AutoLeave cfg"
        using Changer_makeLearner_sets [OF Cons.prems(1), of c "ccs_NodeID cc"] by blast
      with False ConfChangeAddLearnerNode show ?thesis
        by (intro next_step [of cfg1 trk1]) (simp_all add: sets_change_def)
    next
      case ConfChangeRemoveNode
      obtain cfg1 trk1 where "Changer_remove (ccs_NodeID cc) (cfg, trk) = (cfg1, trk1)" "tracked cfg1 trk1"
          "sets_of cfg1 = sets_remove (ccs_NodeID cc) (sets_of cfg)"
          "snd (c_Voters cfg1) = snd (c_Voters cfg)" "c_AutoLeave cfg1 = c_AutoLeave cfg"
        using Changer_remove_sets [OF Cons.prems(1), of "ccs_NodeID cc"] by blast
      with False ConfChangeRemoveNode show ?thesis
        by (intro next_step [of cfg1 trk1]) (simp_all add: sets_change_def)
    next
      case ConfChangeUpdateNode
      with False Cons.prems show ?thesis by (intro next_step) (simp_all add: sets_change_def)
    next
      case (ConfChangeType_unknown n)
      with False Cons.prems show ?thesis by (simp add: known_change_def)
    qed
  qed
qed

lemma Changer_apply_loop_append:
  "Changer_apply_loop c (xs @ ys) s =
     Changer_apply_loop c xs s \<bind> (\<lambda>r. case r of Inl e \<Rightarrow> Some (Inl e) | Inr s \<Rightarrow> Changer_apply_loop c ys s)"
  by (induction xs arbitrary: s) (auto split: ConfChangeType.splits bind_splits)

lemma Changer_apply_loop_unknown:
  assumes "tracked cfg trk" and "\<not> list_all known_change ccs"
  shows "Changer_apply_loop c ccs (cfg, trk) = Some (Inl UnexpectedConfType)"
proof -
  obtain xs cc ys where ccs: "ccs = xs @ cc # ys" "list_all known_change xs" "\<not> known_change cc"
    using split_list_first_prop [of ccs "\<lambda>cc. \<not> known_change cc"] assms(2)
    by (auto simp: list_all_iff)
  then show ?thesis
    using Changer_apply_loop_sets [OF assms(1) ccs(2), of c]
    by (auto simp: Changer_apply_loop_append known_change_def split: ConfChangeType.splits)
qed

section \<open>The invariants of a tracked configuration\<close>

lemma first_error_None: "first_error f xs = None \<longleftrightarrow> (\<forall>x \<in> set xs. f x = None)"
  by (induction xs) (auto split: option.splits)

lemma joint_iff: "joint cfg \<longleftrightarrow> keys (snd (c_Voters cfg)) \<noteq> {||}"
  by (metis joint_def map_len_eq_0 not_gr_zero outgoing_def)

lemma checkInvariants_tracked:
  assumes "tracked cfg trk"
  shows "checkInvariants cfg trk = None \<longleftrightarrow>
    joint cfg \<or> (snd (c_Voters cfg) = None \<and> \<not> c_AutoLeave cfg)"
proof -
  note d = trackedD [OF assms]
  have dom: "i |\<in>| keys (fst (c_Voters cfg)) \<or> i |\<in>| keys (snd (c_Voters cfg)) \<or>
      i |\<in>| keys (c_Learners cfg) \<or> i |\<in>| keys (c_LearnersNext cfg) \<Longrightarrow> i |\<in>| fmdom trk" for i
    using d(4,5) by auto
  have 1: "first_error (check_progress trk) (sorted_list_of_fset (JointConfig_IDs (c_Voters cfg)) @
      ranged (c_Learners cfg) @ ranged (c_LearnersNext cfg)) = None"
    using dom by (auto simp: first_error_None check_progress_def JointConfig_IDs_def fmlookup_dom_iff
        split: option.splits)
  have 2: "first_error (check_staged cfg trk) (ranged (c_LearnersNext cfg)) = None"
    using d(5,7,8) dom by (fastforce simp: first_error_None check_staged_def has_key_def outgoing_def)
  have 3: "first_error (check_learner cfg trk) (ranged (c_Learners cfg)) = None"
    using d(7,8) dom
    by (fastforce simp: first_error_None check_learner_def has_key_def outgoing_def incoming_def)
  have "\<not> joint cfg \<Longrightarrow> c_LearnersNext cfg = None"
    using d(3,5) canonical_empty by (auto simp: joint_iff)
  with 1 2 3 show ?thesis by (auto simp: checkInvariants_def outgoing_def)
qed

lemma tracked_cong:
  assumes "tracked cfg trk" and "c_Voters cfg' = c_Voters cfg" and "c_Learners cfg' = c_Learners cfg"
    and "c_LearnersNext cfg' = c_LearnersNext cfg"
  shows "tracked cfg' trk"
  using assms by (simp add: tracked_def sets_of_def)

lemma Config_Clone_fields [simp]:
  "c_Voters (Config_Clone cfg) = c_Voters cfg"
  "c_Learners (Config_Clone cfg) = c_Learners cfg"
  "c_LearnersNext (Config_Clone cfg) = c_LearnersNext cfg"
  "\<not> c_AutoLeave (Config_Clone cfg)"
  by (simp_all add: Config_Clone_def)

lemma Changer_checkAndCopy_tracked:
  assumes "tracked (chg_Config c) (chg_ProgressMap c)"
    and "joint (chg_Config c) \<or> snd (c_Voters (chg_Config c)) = None"
  shows "Changer_checkAndCopy c = Inr (Config_Clone (chg_Config c), chg_ProgressMap c)"
    and "tracked (Config_Clone (chg_Config c)) (chg_ProgressMap c)"
proof -
  show t: "tracked (Config_Clone (chg_Config c)) (chg_ProgressMap c)"
    using assms(1) by (rule tracked_cong) simp_all
  show "Changer_checkAndCopy c = Inr (Config_Clone (chg_Config c), chg_ProgressMap c)"
    using assms(2) checkInvariants_tracked [OF t]
    by (simp add: Changer_checkAndCopy_def checkAndReturn_def joint_iff)
qed

subsection \<open>Simple changes\<close>

lemma Changer_Simple_result:
  assumes t: "tracked (chg_Config c) (chg_ProgressMap c)"
    and n: "snd (c_Voters (chg_Config c)) = None" and k: "list_all known_change ccs"
  shows "\<exists>cfg' trk'. tracked cfg' trk' \<and> checkInvariants cfg' trk' = None \<and>
    sets_of cfg' = fold sets_change ccs (sets_of (chg_Config c)) \<and>
    snd (c_Voters cfg') = None \<and> \<not> c_AutoLeave cfg' \<and>
    Changer_Simple c ccs = Some
      (if keys (fst (c_Voters cfg')) = {||} then Inl RemovedAllVoters
       else if 1 < symdiff (fst (c_Voters (chg_Config c))) (fst (c_Voters cfg'))
       then Inl TooManyVotersChanged
       else Inr (cfg', trk'))"
proof -
  note cp = Changer_checkAndCopy_tracked [OF t disjI2 [OF n]]
  obtain cfg' trk' where r: "Changer_apply_loop c ccs (Config_Clone (chg_Config c), chg_ProgressMap c)
        = Some (Inr (cfg', trk'))" "tracked cfg' trk'"
      "sets_of cfg' = fold sets_change ccs (sets_of (Config_Clone (chg_Config c)))"
      "snd (c_Voters cfg') = None" "\<not> c_AutoLeave cfg'"
    using Changer_apply_loop_sets [OF cp(2) k, of c] n by auto
  have i: "checkInvariants cfg' trk' = None"
    using checkInvariants_tracked [OF r(2)] r(4,5) by simp
  have "Changer_Simple c ccs = Some
      (if keys (fst (c_Voters cfg')) = {||} then Inl RemovedAllVoters
       else if 1 < symdiff (fst (c_Voters (chg_Config c))) (fst (c_Voters cfg'))
       then Inl TooManyVotersChanged
       else Inr (cfg', trk'))"
    using cp(1) r(1) i n
    by (simp add: Changer_Simple_def Changer_apply_def joint_iff checkAndReturn_def incoming_def)
  with r i show ?thesis by (auto simp: sets_of_def)
qed

subsection \<open>Entering a joint configuration\<close>

lemma Changer_EnterJoint_result:
  assumes t: "tracked (chg_Config c) (chg_ProgressMap c)"
    and n: "snd (c_Voters (chg_Config c)) = None" and v: "keys (fst (c_Voters (chg_Config c))) \<noteq> {||}"
    and k: "list_all known_change ccs"
  defines "old \<equiv> keys (fst (c_Voters (chg_Config c)))"
  shows "\<exists>cfg' trk'. tracked cfg' trk' \<and> checkInvariants cfg' trk' = None \<and>
    sets_of cfg' = fold sets_change ccs (old, old, keys (c_Learners (chg_Config c)), {||}) \<and>
    snd (c_Voters cfg') = Some old \<and> c_AutoLeave cfg' = autoLeave \<and>
    Changer_EnterJoint c autoLeave ccs = Some
      (if keys (fst (c_Voters cfg')) = {||} then Inl RemovedAllVoters else Inr (cfg', trk'))"
proof -
  note cp = Changer_checkAndCopy_tracked [OF t disjI2 [OF n]]
  note d = trackedD [OF cp(2)]
  let ?cfg = "(Config_Clone (chg_Config c))\<lparr>c_Voters := (fst (c_Voters (chg_Config c)), Some old)\<rparr>"
  have ln: "keys (c_LearnersNext (chg_Config c)) = {||}" using d(5) n by simp
  have "tracked ?cfg (chg_ProgressMap c)"
  proof (rule trackedI)
    fix i assume "i |\<in>| fmdom (chg_ProgressMap c)"
    then show "marked_learner (chg_ProgressMap c) i = (i |\<in>| keys (c_Learners ?cfg))"
      using d(8) [of i] by simp
  qed (use d n ln in \<open>auto simp: old_def\<close>)
  then obtain cfg1 trk' where r: "Changer_apply_loop c ccs (?cfg, chg_ProgressMap c)
        = Some (Inr (cfg1, trk'))" "tracked cfg1 trk'"
      "sets_of cfg1 = fold sets_change ccs (sets_of ?cfg)" "snd (c_Voters cfg1) = Some old"
    using Changer_apply_loop_sets [OF _ k] by fastforce
  let ?cfg' = "cfg1\<lparr>c_AutoLeave := autoLeave\<rparr>"
  have t': "tracked ?cfg' trk'" using r(2) by (rule tracked_cong) simp_all
  have i: "checkInvariants ?cfg' trk' = None"
    using checkInvariants_tracked [OF t'] r(4) v by (simp add: joint_iff old_def)
  have "Changer_EnterJoint c autoLeave ccs = Some
      (if keys (fst (c_Voters ?cfg')) = {||} then Inl RemovedAllVoters else Inr (?cfg', trk'))"
    using cp(1) r(1) i n v
    by (simp add: Changer_EnterJoint_def Changer_apply_def joint_iff checkAndReturn_def config_sel_defs
        old_def)
  moreover have "sets_of ?cfg' = fold sets_change ccs (old, old, keys (c_Learners (chg_Config c)), {||})"
    using r(3) ln by (simp add: config_sel_defs old_def)
  ultimately show ?thesis using t' i r(4) by (intro exI [of _ ?cfg'] exI [of _ trk']) simp
qed

subsection \<open>Leaving a joint configuration\<close>

lemma foldM_LeaveJoint_promote:
  assumes "set ns \<subseteq> fset (fmdom trk)" and "canonical (c_Learners cfg)"
  shows "\<exists>l trk'. foldM LeaveJoint_promote ns (cfg, trk) = Some (cfg\<lparr>c_Learners := l\<rparr>, trk') \<and>
    canonical l \<and> keys l = keys (c_Learners cfg) |\<union>| fset_of_list ns \<and> fmdom trk' = fmdom trk \<and>
    (\<forall>i. marked_learner trk' i \<longleftrightarrow> marked_learner trk i \<or> i \<in> set ns)"
  using assms
proof (induction ns arbitrary: cfg trk)
  case Nil
  then show ?case by (intro exI [of _ "c_Learners cfg"] exI [of _ trk]) simp
next
  case (Cons n ns)
  then obtain pr where pr: "fmlookup trk n = Some pr" by (auto simp: fmlookup_dom_iff)
  let ?cfg = "cfg\<lparr>c_Learners := nilAwareAdd (c_Learners cfg) n\<rparr>"
    and ?trk = "fmupd n (pr\<lparr>pr_IsLearner := True\<rparr>) trk"
  have dom: "fmdom ?trk = fmdom trk" using pr by (auto simp: fmlookup_dom_iff)
  obtain l trk' where r: "foldM LeaveJoint_promote ns (?cfg, ?trk) = Some (?cfg\<lparr>c_Learners := l\<rparr>, trk')"
      "canonical l" "keys l = keys (c_Learners ?cfg) |\<union>| fset_of_list ns" "fmdom trk' = fmdom ?trk"
      "\<forall>i. marked_learner trk' i \<longleftrightarrow> marked_learner ?trk i \<or> i \<in> set ns"
    using Cons.IH [of ?trk ?cfg] Cons.prems dom by auto
  have "foldM LeaveJoint_promote (n # ns) (cfg, trk) = Some (cfg\<lparr>c_Learners := l\<rparr>, trk')"
    using pr r(1) by (simp add: LeaveJoint_promote_def)
  with r(2-5) dom show ?case
    by (intro exI [of _ l] exI [of _ trk']) auto
qed

lemma fold_LeaveJoint_drop:
  "fmdom (fold (LeaveJoint_drop cfg) os trk) =
     fmdom trk |-| ffilter (\<lambda>i. i |\<notin>| keys (fst (c_Voters cfg)) \<and> i |\<notin>| keys (c_Learners cfg)) (fset_of_list os)"
  "i |\<in>| fmdom (fold (LeaveJoint_drop cfg) os trk) \<Longrightarrow>
     marked_learner (fold (LeaveJoint_drop cfg) os trk) i = marked_learner trk i"
proof -
  have step: "fmdom (LeaveJoint_drop cfg j trk) =
      fmdom trk |-| ffilter (\<lambda>i. i |\<notin>| keys (fst (c_Voters cfg)) \<and> i |\<notin>| keys (c_Learners cfg)) {|j|}"
    "i |\<in>| fmdom (LeaveJoint_drop cfg j trk) \<Longrightarrow>
      marked_learner (LeaveJoint_drop cfg j trk) i = marked_learner trk i" for j trk
    by (auto simp: LeaveJoint_drop_def Let_def has_key_def incoming_def fset_eq_iff split: if_splits)
  have dom: "fmdom (fold (LeaveJoint_drop cfg) os trk) =
     fmdom trk |-| ffilter (\<lambda>i. i |\<notin>| keys (fst (c_Voters cfg)) \<and> i |\<notin>| keys (c_Learners cfg)) (fset_of_list os)"
    for os trk by (induction os arbitrary: trk) (auto simp: step(1))
  then show "fmdom (fold (LeaveJoint_drop cfg) os trk) =
     fmdom trk |-| ffilter (\<lambda>i. i |\<notin>| keys (fst (c_Voters cfg)) \<and> i |\<notin>| keys (c_Learners cfg)) (fset_of_list os)" .
  show "i |\<in>| fmdom (fold (LeaveJoint_drop cfg) os trk) \<Longrightarrow>
     marked_learner (fold (LeaveJoint_drop cfg) os trk) i = marked_learner trk i"
  proof (induction os arbitrary: trk)
    case (Cons j os)
    then have "i |\<in>| fmdom (LeaveJoint_drop cfg j trk)"
      using dom [of os "LeaveJoint_drop cfg j trk"] by auto
    with Cons step(2) [of j trk] show ?case by simp
  qed simp
qed

lemma fset_of_list_ranged [simp]: "fset_of_list (ranged m) = keys m"
  by (rule fset_eqI) (simp add: fset_of_list.rep_eq)

lemma Changer_LeaveJoint_result:
  assumes t: "tracked (chg_Config c) (chg_ProgressMap c)" and j: "joint (chg_Config c)"
  shows "\<exists>cfg' trk'. Changer_LeaveJoint c = Some (Inr (cfg', trk')) \<and>
    tracked cfg' trk' \<and> checkInvariants cfg' trk' = None \<and>
    c_Voters cfg' = (fst (c_Voters (chg_Config c)), None) \<and>
    keys (c_Learners cfg') = keys (c_Learners (chg_Config c)) |\<union>| keys (c_LearnersNext (chg_Config c)) \<and>
    c_LearnersNext cfg' = None \<and> \<not> c_AutoLeave cfg'"
proof -
  let ?cl = "Config_Clone (chg_Config c)" and ?trk = "chg_ProgressMap c"
  note cp = Changer_checkAndCopy_tracked [OF t disjI1 [OF j]]
  note d = trackedD [OF cp(2)]
  have sub: "set (ranged (c_LearnersNext ?cl)) \<subseteq> fset (fmdom ?trk)"
    unfolding d(4) using d(5) by auto
  obtain l trk1 where r: "foldM LeaveJoint_promote (ranged (c_LearnersNext ?cl)) (?cl, ?trk)
        = Some (?cl\<lparr>c_Learners := l\<rparr>, trk1)" "canonical l"
      "keys l = keys (c_Learners ?cl) |\<union>| keys (c_LearnersNext ?cl)" "fmdom trk1 = fmdom ?trk"
      "\<forall>i. marked_learner trk1 i \<longleftrightarrow> marked_learner ?trk i \<or> i |\<in>| keys (c_LearnersNext ?cl)"
    using foldM_LeaveJoint_promote [OF sub d(2), unfolded fset_of_list_ranged set_ranged] by blast
  let ?cfg1 = "?cl\<lparr>c_Learners := l, c_LearnersNext := None\<rparr>"
  let ?trk' = "fold (LeaveJoint_drop ?cfg1) (ranged (snd (c_Voters ?cl))) trk1"
  let ?cfg' = "?cfg1\<lparr>c_Voters := (fst (c_Voters ?cl), None), c_AutoLeave := False\<rparr>"
  note drop = fold_LeaveJoint_drop [where cfg = ?cfg1 and os = "ranged (snd (c_Voters ?cl))" and trk = trk1]
  have dom: "fmdom ?trk' = keys (fst (c_Voters ?cl)) |\<union>| keys l"
  proof (rule fset_eqI)
    fix i
    have "i |\<in>| keys (c_LearnersNext ?cl) \<Longrightarrow> i |\<in>| keys (snd (c_Voters ?cl))" using d(5) by blast
    then show "i |\<in>| fmdom ?trk' \<longleftrightarrow> i |\<in>| keys (fst (c_Voters ?cl)) |\<union>| keys l"
      unfolding drop(1) r(4) d(4) by (simp add: r(3)) blast
  qed
  have "tracked ?cfg' ?trk'"
  proof (rule trackedI)
    show "keys (c_Learners ?cfg') |\<inter>| (keys (fst (c_Voters ?cfg')) |\<union>| keys (snd (c_Voters ?cfg'))) = {||}"
      using d(6,7) r(3) by auto
    fix i assume i: "i |\<in>| fmdom ?trk'"
    then have "i |\<in>| fmdom ?trk" unfolding drop(1) r(4) by simp
    with drop(2) [OF i] d(8) [of i] r(3,5)
    show "marked_learner ?trk' i = (i |\<in>| keys (c_Learners ?cfg'))" by simp
  qed (use d(1) r(2) dom in simp_all)
  moreover from this have "checkInvariants ?cfg' ?trk' = None"
    by (simp add: checkInvariants_tracked)
  moreover from this have "Changer_LeaveJoint c = Some (Inr (?cfg', ?trk'))"
    using cp(1) j r(1)
    by (simp add: Changer_LeaveJoint_def joint_iff checkAndReturn_def incoming_def outgoing_def Let_def)
  ultimately show ?thesis using r(3) by (intro exI [of _ ?cfg'] exI [of _ ?trk']) simp
qed


section \<open>Quorums across a change\<close>

definition joint_quorum :: "JointConfig \<Rightarrow> PeerID set \<Rightarrow> bool" where
  "joint_quorum c Q \<longleftrightarrow> (\<forall>h \<in> {fst c, snd c}. keys h = {||} \<or> majority h Q)"

lemma VoteWon_joint_quorum:
  "JointConfig_VoteResult c v = VoteWon \<longleftrightarrow> joint_quorum c {p. fmlookup v p = Some True}"
  by (simp add: JointConfig_VoteResult_iff MajorityConfig_VoteWon_iff joint_quorum_def)

lemma Committed_joint_quorum:
  assumes "0 < i" and "i \<le> JointConfig_CommittedIndex c l"
  shows "joint_quorum c {p. \<exists>j. l p = Some j \<and> i \<le> j}"
proof -
  have "keys h = {||} \<or> majority h {p. \<exists>j. l p = Some j \<and> i \<le> j}"
    if "i \<le> MajorityConfig_CommittedIndex h l" for h
    using MajorityConfig_CommittedIndex_iff [of h i l] majority_acked [OF assms(1), of h l] that
    by auto
  with assms(2) show ?thesis
    by (simp add: joint_quorum_def JointConfig_CommittedIndex_le_iff)
qed

lemma symdiff_card: "symdiff l r = card (fset (keys l) - fset (keys r)) + card (fset (keys r) - fset (keys l))"
  by (simp add: symdiff_def length_filter_card has_key_def set_diff_eq)

lemma majority_meet_symdiff:
  assumes "majority c Q" and "majority c' R" and "symdiff c c' \<le> 1"
  shows "\<exists>p. p \<in> Q \<and> p \<in> R"
proof (rule ccontr)
  assume "\<nexists>p. p \<in> Q \<and> p \<in> R"
  let ?A = "fset (keys c)" and ?B = "fset (keys c')"
  have "card (?A \<inter> Q) + card (?B \<inter> R) = card (?A \<inter> Q \<union> ?B \<inter> R)"
    using \<open>\<nexists>p. p \<in> Q \<and> p \<in> R\<close> by (subst card_Un_disjoint) auto
  also have "\<dots> \<le> card (?A \<union> ?B)" by (intro card_mono) auto
  finally have le: "card (?A \<inter> Q) + card (?B \<inter> R) \<le> card (?A \<union> ?B)" .
  have "card (?A \<union> ?B) = card ?A + card (?B - ?A)" "card (?B \<union> ?A) = card ?B + card (?A - ?B)"
    using card_Un_disjoint [of ?A "?B - ?A"] card_Un_disjoint [of ?B "?A - ?B"] by simp_all
  then have "2 * card (?A \<union> ?B) = card ?A + card ?B + symdiff c c'"
    by (simp add: symdiff_card Un_commute)
  with le assms show False by (simp add: majority_def)
qed

lemma joint_quorum_meet:
  assumes "joint_quorum c Q" and "joint_quorum c' R"
    and "h \<in> {fst c, snd c}" and "h' \<in> {fst c', snd c'}"
    and "keys h \<noteq> {||}" and "keys h' \<noteq> {||}" and "symdiff h h' \<le> 1"
  shows "\<exists>p. p \<in> Q \<and> p \<in> R"
  using assms majority_meet_symdiff [of h Q h' R] by (auto simp: joint_quorum_def)

text \<open>
  A valid state of a running group: tracked, passing \<open>checkInvariants\<close>, with at
  least one incoming voter; and the changes applied to it.
\<close>

definition valid_config :: "cc_state \<Rightarrow> bool" where
  "valid_config s \<longleftrightarrow> (case s of (cfg, trk) \<Rightarrow>
     tracked cfg trk \<and> checkInvariants cfg trk = None \<and> keys (fst (c_Voters cfg)) \<noteq> {||})"

inductive config_change :: "cc_state \<Rightarrow> cc_state \<Rightarrow> bool" where
  change_simple: "chg_Config c = cfg \<Longrightarrow> chg_ProgressMap c = trk \<Longrightarrow>
    Changer_Simple c ccs = Some (Inr s') \<Longrightarrow> config_change (cfg, trk) s'"
| change_enter: "chg_Config c = cfg \<Longrightarrow> chg_ProgressMap c = trk \<Longrightarrow>
    Changer_EnterJoint c autoLeave ccs = Some (Inr s') \<Longrightarrow> config_change (cfg, trk) s'"
| change_leave: "chg_Config c = cfg \<Longrightarrow> chg_ProgressMap c = trk \<Longrightarrow>
    Changer_LeaveJoint c = Some (Inr s') \<Longrightarrow> config_change (cfg, trk) s'"

lemma valid_configD:
  assumes "valid_config (cfg, trk)"
  shows "tracked cfg trk" and "checkInvariants cfg trk = None" and "keys (fst (c_Voters cfg)) \<noteq> {||}"
    and "joint cfg \<or> snd (c_Voters cfg) = None"
  using assms checkInvariants_tracked [of cfg trk] by (auto simp: valid_config_def)

lemma Changer_unknown_fails:
  assumes t: "tracked (chg_Config c) (chg_ProgressMap c)" and n: "snd (c_Voters (chg_Config c)) = None"
    and v: "keys (fst (c_Voters (chg_Config c))) \<noteq> {||}" and k: "\<not> list_all known_change ccs"
  shows "Changer_Simple c ccs = Some (Inl UnexpectedConfType)"
    and "Changer_EnterJoint c autoLeave ccs = Some (Inl UnexpectedConfType)"
proof -
  note cp = Changer_checkAndCopy_tracked [OF t disjI2 [OF n]]
  note d = trackedD [OF cp(2)]
  have e: "tracked ((Config_Clone (chg_Config c))\<lparr>c_Voters :=
      (fst (c_Voters (chg_Config c)), Some (keys (fst (c_Voters (chg_Config c)))))\<rparr>) (chg_ProgressMap c)"
  proof (rule trackedI, goal_cases)
    case (8 i)
    then show ?case using d(8) [of i] by simp
  qed (use d n in auto)
  show "Changer_Simple c ccs = Some (Inl UnexpectedConfType)"
    using cp(1) Changer_apply_loop_unknown [OF cp(2) k] n
    by (simp add: Changer_Simple_def Changer_apply_def joint_iff)
  show "Changer_EnterJoint c autoLeave ccs = Some (Inl UnexpectedConfType)"
    using cp(1) Changer_apply_loop_unknown [OF e k] n v
    by (simp add: Changer_EnterJoint_def Changer_apply_def joint_iff incoming_def)
qed

lemma config_change_cases:
  assumes val: "valid_config (cfg, trk)" and ch: "config_change (cfg, trk) (cfg', trk')"
  shows "valid_config (cfg', trk') \<and>
    (\<exists>h \<in> {fst (c_Voters cfg), snd (c_Voters cfg)}. \<exists>h' \<in> {fst (c_Voters cfg'), snd (c_Voters cfg')}.
       keys h \<noteq> {||} \<and> keys h' \<noteq> {||} \<and> symdiff h h' \<le> 1)"
  using ch
proof (cases rule: config_change.cases)
  case (change_simple c ccs)
  note v = valid_configD [OF val]
  have n: "snd (c_Voters cfg) = None"
    using v change_simple Changer_checkAndCopy_tracked(1) [of c]
    by (auto simp: Changer_Simple_def joint_iff split: if_splits)
  then have k: "list_all known_change ccs"
    using Changer_unknown_fails(1) [of c ccs] v change_simple by auto
  then show ?thesis
    using Changer_Simple_result [of c ccs] v change_simple n
    by (auto simp: valid_config_def split: if_splits)
next
  case (change_enter c autoLeave ccs)
  note v = valid_configD [OF val]
  have n: "snd (c_Voters cfg) = None"
    using v change_enter Changer_checkAndCopy_tracked(1) [of c]
    by (auto simp: Changer_EnterJoint_def joint_iff split: if_splits)
  then have k: "list_all known_change ccs"
    using Changer_unknown_fails(2) [of c ccs autoLeave] v change_enter by auto
  then show ?thesis
    using Changer_EnterJoint_result [of c ccs autoLeave] v change_enter n
    by (auto simp: valid_config_def symdiff_card split: if_splits)
next
  case (change_leave c)
  note v = valid_configD [OF val]
  have j: "joint cfg"
    using v change_leave Changer_checkAndCopy_tracked(1) [of c]
    by (auto simp: Changer_LeaveJoint_def joint_iff split: if_splits)
  then show ?thesis
    using Changer_LeaveJoint_result [of c] v change_leave
    by (auto simp: valid_config_def symdiff_card)
qed

lemma config_change_quorum_meet:
  assumes "valid_config s" and "config_change s s'"
    and "joint_quorum (c_Voters (fst s)) Q" and "joint_quorum (c_Voters (fst s')) R"
  shows "\<exists>p. p \<in> Q \<and> p \<in> R"
  using config_change_cases [of "fst s" "snd s" "fst s'" "snd s'"] assms
    joint_quorum_meet [OF assms(3,4)] by (metis prod.collapse)

interpretation config_quorums: reconfigurable_quorums valid_config
  "\<lambda>s. JointConfig_VoteResult (c_Voters (fst s))" "\<lambda>s. JointConfig_CommittedIndex (c_Voters (fst s))"
  config_change
proof (unfold_locales, goal_cases)
  case (1 s u v)
  then have "JointConfig_IDs (c_Voters (fst s)) \<noteq> {||}"
    by (cases s) (auto dest: valid_configD(3) simp: JointConfig_IDs_def)
  with 1 show ?case using joint_quorums.overlap_votes by blast
next
  case (2 s v i l)
  then have "JointConfig_IDs (c_Voters (fst s)) \<noteq> {||}"
    by (cases s) (auto dest: valid_configD(3) simp: JointConfig_IDs_def)
  with 2 show ?case using joint_quorums.overlap_acks by blast
next
  case (3 u v s)
  then show ?case by (rule joint_quorums.vote_mono)
next
  case (4 l l' s)
  then show ?case by (rule joint_quorums.committed_mono)
next
  case (5 s s')
  then show ?case using config_change_cases [of "fst s" "snd s" "fst s'" "snd s'"] by simp
next
  case (6 s s' u v)
  then show ?case
    using config_change_quorum_meet [OF 6(1,2), of "{p. fmlookup u p = Some True}"
      "{p. fmlookup v p = Some True}"] by (simp add: VoteWon_joint_quorum)
next
  case (7 s s' v i l)
  then show ?case
    using config_change_quorum_meet [OF 7(1,2) Committed_joint_quorum [OF 7(4,5)]]
    by (fastforce simp: VoteWon_joint_quorum)
next
  case (8 s s' v i l)
  then show ?case
    using config_change_quorum_meet [OF 8(1,2) _ Committed_joint_quorum [OF 8(4,5)]]
    by (fastforce simp: VoteWon_joint_quorum)
qed


section \<open>Restoring\<close>

abbreviation op_of :: "ConfChangeType \<Rightarrow> PeerID \<Rightarrow> ConfChangeSingle" where
  "op_of t i \<equiv> \<lparr>ccs_Type = t, ccs_NodeID = i\<rparr>"

lemma fold_add_voters:
  assumes "0 \<notin> set is"
  shows "fold sets_change (map (op_of ConfChangeAddNode) is) (v, out, l, n) =
    (v |\<union>| fset_of_list is, out, l |-| fset_of_list is, n |-| fset_of_list is)"
  using assms by (induction "is" arbitrary: v l n) (auto simp: sets_change_def)

lemma fold_remove:
  assumes "0 \<notin> set is"
  shows "fold sets_change (map (op_of ConfChangeRemoveNode) is) (v, out, l, n) =
    (v |-| fset_of_list is, out, l |-| fset_of_list is, n |-| fset_of_list is)"
  using assms by (induction "is" arbitrary: v l n) (auto simp: sets_change_def)

lemma fold_add_learners:
  assumes "0 \<notin> set is" and "set is \<inter> fset out = {}"
  shows "fold sets_change (map (op_of ConfChangeAddLearnerNode) is) (v, out, l, n) =
    (v |-| fset_of_list is, out, l |\<union>| fset_of_list is, n)"
  using assms by (induction "is" arbitrary: v l) (auto simp: sets_change_def)

lemma fold_stage_learners:
  assumes "0 \<notin> set is" and "set is \<subseteq> fset out"
  shows "fold sets_change (map (op_of ConfChangeAddLearnerNode) is) (v, out, l, n) =
    (v |-| fset_of_list is, out, l, n |\<union>| fset_of_list is)"
  using assms by (induction "is" arbitrary: v n) (auto simp: sets_change_def)

text \<open>A single change alters at most one incoming voter.\<close>

lemma sets_change_symdiff:
  assumes "fst (sets_change cc (keys m, out, l, n)) = keys m'"
  shows "symdiff m m' \<le> 1"
proof -
  let ?i = "ccs_NodeID cc"
  consider "keys m' = keys m" | "keys m' = finsert ?i (keys m)" | "keys m' = keys m |-| {|?i|}"
    using assms by (auto simp: sets_change_def split: if_splits ConfChangeType.splits)
  then show ?thesis
  proof cases
    case 1
    then show ?thesis by (simp add: symdiff_card)
  next
    case 2
    have "card (fset (finsert ?i (keys m)) - fset (keys m)) \<le> 1"
      using card_mono [of "{?i}" "fset (finsert ?i (keys m)) - fset (keys m)"] by auto
    moreover have "card (fset (keys m) - fset (finsert ?i (keys m))) = 0" by (simp add: subset_insertI)
    ultimately show ?thesis unfolding symdiff_card 2 by linarith
  next
    case 3
    have "card (fset (keys m) - fset (keys m |-| {|?i|})) \<le> 1"
      using card_mono [of "{?i}" "fset (keys m) - fset (keys m |-| {|?i|})"] by auto
    moreover have "card (fset (keys m |-| {|?i|}) - fset (keys m)) = 0" by auto
    ultimately show ?thesis unfolding symdiff_card 3 by linarith
  qed
qed

lemma chain_simple:
  assumes "tracked (chg_Config chg) (chg_ProgressMap chg)" and "snd (c_Voters (chg_Config chg)) = None"
    and "\<not> c_AutoLeave (chg_Config chg)" and "list_all known_change ccs"
    and "\<And>k. k < length ccs \<Longrightarrow>
      fst (fold sets_change (take (Suc k) ccs) (sets_of (chg_Config chg))) \<noteq> {||}"
  shows "\<exists>cfg' trk'. chain chg (map (\<lambda>cc chg. Changer_Simple chg [cc]) ccs @ fs) =
      chain (chg\<lparr>chg_Config := cfg', chg_ProgressMap := trk'\<rparr>) fs \<and>
    tracked cfg' trk' \<and> sets_of cfg' = fold sets_change ccs (sets_of (chg_Config chg)) \<and>
    snd (c_Voters cfg') = None \<and> \<not> c_AutoLeave cfg'"
  using assms
proof (induction ccs arbitrary: chg)
  case Nil
  then show ?case
    by (intro exI [of _ "chg_Config chg"] exI [of _ "chg_ProgressMap chg"]) simp
next
  case (Cons cc ccs)
  obtain cfg1 trk1 where 1: "tracked cfg1 trk1"
      "sets_of cfg1 = sets_change cc (sets_of (chg_Config chg))" "snd (c_Voters cfg1) = None"
      "\<not> c_AutoLeave cfg1"
      "Changer_Simple chg [cc] = Some
        (if keys (fst (c_Voters cfg1)) = {||} then Inl RemovedAllVoters
         else if 1 < symdiff (fst (c_Voters (chg_Config chg))) (fst (c_Voters cfg1))
         then Inl TooManyVotersChanged
         else Inr (cfg1, trk1))"
    using Changer_Simple_result [OF Cons.prems(1,2), of "[cc]"] Cons.prems(4) by auto
  have "keys (fst (c_Voters cfg1)) \<noteq> {||}"
    using Cons.prems(5) [of 0] 1(2) [symmetric] by (simp add: sets_of_def incoming_def)
  moreover have "symdiff (fst (c_Voters (chg_Config chg))) (fst (c_Voters cfg1)) \<le> 1"
    by (rule sets_change_symdiff [of cc _ "keys (outgoing (c_Voters (chg_Config chg)))"
          "keys (c_Learners (chg_Config chg))" "keys (c_LearnersNext (chg_Config chg))"])
      (use 1(2) [symmetric] in \<open>simp add: sets_of_def incoming_def\<close>)
  ultimately have s: "Changer_Simple chg [cc] = Some (Inr (cfg1, trk1))" using 1(5) by simp
  let ?chg = "chg\<lparr>chg_Config := cfg1, chg_ProgressMap := trk1\<rparr>"
  have "fst (fold sets_change (take (Suc k) ccs) (sets_of cfg1)) \<noteq> {||}" if "k < length ccs" for k
    using Cons.prems(5) [of "Suc k"] that 1(2) by simp
  then show ?case
    using Cons.IH [of ?chg] 1 Cons.prems(4) s by simp
qed

definition valid_ConfState :: "ConfState \<Rightarrow> bool" where
  "valid_ConfState cs \<longleftrightarrow>
     cs_Voters cs \<noteq> [] \<and>
     0 \<notin> set (cs_Voters cs) \<union> set (cs_Learners cs) \<union> set (cs_VotersOutgoing cs) \<and>
     distinct (cs_Voters cs) \<and> distinct (cs_Learners cs) \<and> distinct (cs_VotersOutgoing cs) \<and>
     distinct (cs_LearnersNext cs) \<and>
     set (cs_Learners cs) \<inter> (set (cs_Voters cs) \<union> set (cs_VotersOutgoing cs)) = {} \<and>
     set (cs_LearnersNext cs) \<subseteq> set (cs_VotersOutgoing cs) - set (cs_Voters cs) \<and>
     (cs_VotersOutgoing cs = [] \<longrightarrow> \<not> cs_AutoLeave cs)"

lemma mset_ranged: "distinct xs \<Longrightarrow> keys m = fset_of_list xs \<Longrightarrow> mset (ranged m) = mset xs"
  by (simp add: set_eq_iff_mset_eq_distinct [symmetric] fset_of_list.rep_eq)

lemma ConfState_restored:
  assumes "valid_ConfState cs" and "c_AutoLeave cfg = cs_AutoLeave cs"
    and "sets_of cfg = (fset_of_list (cs_Voters cs), fset_of_list (cs_VotersOutgoing cs),
      fset_of_list (cs_Learners cs), fset_of_list (cs_LearnersNext cs))"
  shows "ConfState_Equivalent (Config_ConfState cfg) cs"
  using assms
  by (auto simp: ConfState_Equivalent_iff Config_ConfState_def MajorityConfig_Slice_def
      valid_ConfState_def config_sel_defs intro!: mset_ranged)

lemma MakeEmptyConfig_tracked:
  "tracked MakeEmptyConfig fmempty" "snd (c_Voters MakeEmptyConfig) = None"
  "\<not> c_AutoLeave MakeEmptyConfig" "sets_of MakeEmptyConfig = ({||}, {||}, {||}, {||})"
  by (auto simp: MakeEmptyConfig_def tracked_def config_sel_defs)

lemma known_ops [simp]:
  "list_all known_change (map (op_of ConfChangeAddNode) xs)"
  "list_all known_change (map (op_of ConfChangeRemoveNode) xs)"
  "list_all known_change (map (op_of ConfChangeAddLearnerNode) xs)"
  by (auto simp: list_all_iff known_change_def)

lemma fset_of_list_eq_empty [simp]: "fset_of_list xs = {||} \<longleftrightarrow> xs = []"
  by (metis fset_of_list_simps(1) fset_of_list.rep_eq fset_eq_empty set_empty)

lemma Restore_plain:
  assumes "valid_ConfState cs" and "cs_VotersOutgoing cs = []"
    and "chg_Config chg = MakeEmptyConfig" and "chg_ProgressMap chg = fmempty"
  shows "\<exists>cfg trk. Restore chg cs = Some (Inr (cfg, trk)) \<and> valid_config (cfg, trk) \<and>
    ConfState_Equivalent (Config_ConfState cfg) cs"
proof -
  let ?v = "map (op_of ConfChangeAddNode) (cs_Voters cs)"
    and ?l = "map (op_of ConfChangeAddLearnerNode) (cs_Learners cs)"
  note val = assms(1) [unfolded valid_ConfState_def]
  have n: "cs_LearnersNext cs = []" using val assms(2) by simp
  have inc: "snd (toConfChangeSingle cs) = ?v @ ?l" "fst (toConfChangeSingle cs) = []"
    using assms(2) n by (simp_all add: toConfChangeSingle_def Let_def)
  have disj: "fset_of_list (take j (cs_Voters cs)) |-| fset_of_list (take k (cs_Learners cs)) =
      fset_of_list (take j (cs_Voters cs))" for j k
    using val by (auto simp: fset_eq_iff fset_of_list.rep_eq dest: in_set_takeD)
  have zero: "0 \<notin> set (take k (cs_Voters cs))" "0 \<notin> set (take k (cs_Learners cs))" for k
    using val by (auto dest: in_set_takeD)
  have "fst (fold sets_change (take (Suc k) (?v @ ?l)) ({||}, {||}, {||}, {||})) =
      fset_of_list (take (Suc k) (cs_Voters cs))" for k
    by (simp add: take_map fold_add_voters fold_add_learners zero disj)
  then have ne: "fst (fold sets_change (take (Suc k) (?v @ ?l)) ({||}, {||}, {||}, {||})) \<noteq> {||}" for k
    using val by simp
  obtain cfg trk where r: "chain chg (map (\<lambda>cc chg. Changer_Simple chg [cc]) (?v @ ?l) @ []) =
        chain (chg\<lparr>chg_Config := cfg, chg_ProgressMap := trk\<rparr>) []"
      "tracked cfg trk" "sets_of cfg = fold sets_change (?v @ ?l) ({||}, {||}, {||}, {||})"
      "snd (c_Voters cfg) = None" "\<not> c_AutoLeave cfg"
    using chain_simple [of chg "?v @ ?l" "[]"] ne MakeEmptyConfig_tracked assms(3,4) by auto
  have s: "sets_of cfg = (fset_of_list (cs_Voters cs), {||}, fset_of_list (cs_Learners cs), {||})"
    using r(3) zero [of "length (cs_Voters cs)"] zero [of "length (cs_Learners cs)"]
      disj [of "length (cs_Voters cs)" "length (cs_Learners cs)"]
    by (simp add: fold_add_voters fold_add_learners)
  have "Restore chg cs = Some (Inr (cfg, trk))"
    using r(1) inc by (simp add: Restore_def case_prod_beta)
  moreover have "valid_config (cfg, trk)"
    using r(2,4,5) checkInvariants_tracked [OF r(2)] s val by (simp add: valid_config_def config_sel_defs)
  moreover have "ConfState_Equivalent (Config_ConfState cfg) cs"
    using ConfState_restored [OF assms(1), of cfg] s assms(2) n r(5) val by simp
  ultimately show ?thesis by blast
qed

lemma Restore_joint:
  assumes "valid_ConfState cs" and "cs_VotersOutgoing cs \<noteq> []"
    and "chg_Config chg = MakeEmptyConfig" and "chg_ProgressMap chg = fmempty"
  shows "\<exists>cfg trk. Restore chg cs = Some (Inr (cfg, trk)) \<and> valid_config (cfg, trk) \<and>
    ConfState_Equivalent (Config_ConfState cfg) cs"
proof -
  let ?o = "map (op_of ConfChangeAddNode) (cs_VotersOutgoing cs)"
  define inc where "inc = snd (toConfChangeSingle cs)"
  let ?join = "\<lambda>chg. Changer_EnterJoint chg (cs_AutoLeave cs) inc"
  let ?O = "fset_of_list (cs_VotersOutgoing cs)" and ?V = "fset_of_list (cs_Voters cs)"
  note val = assms(1) [unfolded valid_ConfState_def]
  have zero: "0 \<notin> set (take k (cs_VotersOutgoing cs))" "0 \<notin> set (cs_VotersOutgoing cs)"
      "0 \<notin> set (cs_Voters cs)" "0 \<notin> set (cs_Learners cs)" "0 \<notin> set (cs_LearnersNext cs)" for k
    using val by (auto dest: in_set_takeD)
  have ne: "fst (fold sets_change (take (Suc k) ?o) ({||}, {||}, {||}, {||})) \<noteq> {||}" for k
    using assms(2) zero by (simp add: take_map fold_add_voters)
  obtain cfg1 trk1 where 1: "chain chg (map (\<lambda>cc chg. Changer_Simple chg [cc]) ?o @ [?join]) =
        chain (chg\<lparr>chg_Config := cfg1, chg_ProgressMap := trk1\<rparr>) [?join]"
      "tracked cfg1 trk1" "sets_of cfg1 = fold sets_change ?o ({||}, {||}, {||}, {||})"
      "snd (c_Voters cfg1) = None"
    using chain_simple [of chg ?o "[?join]"] ne MakeEmptyConfig_tracked assms(3,4) by auto
  have s1: "keys (fst (c_Voters cfg1)) = ?O" "keys (c_Learners cfg1) = {||}"
    using 1(3) zero by (simp_all add: fold_add_voters config_sel_defs)
  let ?chg = "chg\<lparr>chg_Config := cfg1, chg_ProgressMap := trk1\<rparr>"
  have known: "list_all known_change inc" by (simp add: inc_def toConfChangeSingle_def Let_def)
  obtain cfg trk where 2: "tracked cfg trk" "checkInvariants cfg trk = None"
      "sets_of cfg = fold sets_change inc (?O, ?O, {||}, {||})" "c_AutoLeave cfg = cs_AutoLeave cs"
      "?join ?chg = Some
        (if keys (fst (c_Voters cfg)) = {||} then Inl RemovedAllVoters else Inr (cfg, trk))"
    using Changer_EnterJoint_result [of ?chg inc "cs_AutoLeave cs"] 1(2,4) s1 assms(2) known by auto
  have "fset_of_list (cs_Voters cs) |-| fset_of_list (cs_Learners cs) = ?V"
      "fset_of_list (cs_Voters cs) |-| fset_of_list (cs_LearnersNext cs) = ?V"
      "set (cs_Learners cs) \<inter> fset ?O = {}" "set (cs_LearnersNext cs) \<subseteq> fset ?O"
    using val by (auto simp: fset_eq_iff fset_of_list.rep_eq)
  then have s: "sets_of cfg = (?V, ?O, fset_of_list (cs_Learners cs), fset_of_list (cs_LearnersNext cs))"
    using 2(3) zero
    by (simp add: inc_def toConfChangeSingle_def Let_def fold_add_voters fold_remove fold_add_learners
        fold_stage_learners)
  have "Restore chg cs = Some (Inr (cfg, trk))"
    using 1(1) 2(5) s val assms(2)
    by (simp add: Restore_def case_prod_beta inc_def config_sel_defs toConfChangeSingle_def Let_def)
  moreover have "valid_config (cfg, trk)"
    using 2(1,2) s val by (simp add: valid_config_def config_sel_defs)
  ultimately show ?thesis using ConfState_restored [OF assms(1) 2(4) s] by blast
qed


section \<open>Properties\<close>

text \<open>A group of one voter, used to exercise the properties below.\<close>

definition solo :: Changer where
  "solo = \<lparr>chg_Config = \<lparr>c_Voters = (Some {|1|}, None), c_AutoLeave = False, c_Learners = None,
       c_LearnersNext = None\<rparr>,
     chg_ProgressMap = fmap_of_list [(1, \<lparr>pr_Match = 3, pr_Next = 4, pr_SentCommit = 0,
       pr_MatchCommit = 0, pr_State = StateReplicate, pr_PendingSnapshot = 0, pr_RecentActive = True,
       pr_MsgAppProbesPaused = False, pr_Inflights = NewInflights 4 0, pr_IsLearner = False\<rparr>)],
     chg_MaxInflight = 4, chg_MaxInflightBytes = 0, chg_LastIndex = 3\<rparr>"

lemma solo_tracked:
  "tracked (chg_Config solo) (chg_ProgressMap solo)" "snd (c_Voters (chg_Config solo)) = None"
  "keys (fst (c_Voters (chg_Config solo))) = {|1|}"
  by (auto simp: solo_def tracked_def config_sel_defs marked_learner_def fmlookup_of_list)

lemma solo_valid: "valid_config (chg_Config solo, chg_ProgressMap solo)"
  using solo_tracked checkInvariants_tracked [OF solo_tracked(1)]
  by (simp add: valid_config_def) (simp add: solo_def)

lemma solo_adds_voter:
  "\<exists>cfg trk. Changer_Simple solo [op_of ConfChangeAddNode 2] = Some (Inr (cfg, trk)) \<and>
     keys (fst (c_Voters cfg)) = {|1, 2|}"
proof -
  let ?cc = "[op_of ConfChangeAddNode 2]"
  have s: "sets_of (chg_Config solo) = ({|1|}, {||}, {||}, {||})"
    by (simp add: solo_def config_sel_defs)
  obtain cfg trk where r: "sets_of cfg = fold sets_change ?cc (sets_of (chg_Config solo))"
      "Changer_Simple solo ?cc = Some
        (if keys (fst (c_Voters cfg)) = {||} then Inl RemovedAllVoters
         else if 1 < symdiff (fst (c_Voters (chg_Config solo))) (fst (c_Voters cfg))
         then Inl TooManyVotersChanged else Inr (cfg, trk))"
    using Changer_Simple_result [OF solo_tracked(1,2), of ?cc] by (auto simp: known_change_def)
  have k: "keys (fst (c_Voters cfg)) = {|1, 2|}"
    using r(1) unfolding s by (simp add: sets_change_def config_sel_defs finsert_commute)
  have "symdiff (fst (c_Voters (chg_Config solo))) (fst (c_Voters cfg)) \<le> 1"
    by (simp add: symdiff_def ranged_def fset_eval has_key_def k solo_tracked(3))
  with r(2) k show ?thesis by auto
qed

text \<open>
  Property C3: every chain of configuration changes is safe. Starting from a
  valid configuration, let \<open>s\<close> be reached by any sequence of simple changes and
  of entering and leaving joint configurations, and let \<open>s'\<close> be one more change.
  Whoever wins an election under one of the two has the vote of a peer that
  acknowledged any given index committed under the other; and two candidates that
  win under \<open>s\<close> and under \<open>s'\<close> share a voter.
\<close>

theorem config_changes_keep_quorums_overlapping:
  assumes "valid_config s0" and "config_change\<^sup>*\<^sup>* s0 s" and "config_change s s'"
  shows "valid_config s' \<and>
    (JointConfig_VoteResult (c_Voters (fst s)) u = VoteWon \<and>
     JointConfig_VoteResult (c_Voters (fst s')) v = VoteWon \<longrightarrow>
       (\<exists>p. fmlookup u p = Some True \<and> fmlookup v p = Some True)) \<and>
    (0 < i \<and> ((JointConfig_VoteResult (c_Voters (fst s)) v = VoteWon \<and>
                i \<le> JointConfig_CommittedIndex (c_Voters (fst s')) l) \<or>
               (JointConfig_VoteResult (c_Voters (fst s')) v = VoteWon \<and>
                i \<le> JointConfig_CommittedIndex (c_Voters (fst s)) l)) \<longrightarrow>
       (\<exists>p j. fmlookup v p = Some True \<and> l p = Some j \<and> i \<le> j))"
proof -
  have val: "valid_config s" using config_quorums.reachable_valid [OF assms(2,1)] .
  then show ?thesis
    using config_quorums.change_valid [OF val assms(3)] config_quorums.change_votes [OF val assms(3)]
      config_quorums.chain_protects [OF assms, of i v l] by blast
qed

theorem config_changes_keep_quorums_overlapping_witness:
  "\<exists>s'. config_change (chg_Config solo, chg_ProgressMap solo) s' \<and> valid_config s' \<and>
     keys (fst (c_Voters (fst s'))) = {|1, 2|}"
proof -
  obtain cfg trk where r: "Changer_Simple solo [op_of ConfChangeAddNode 2] = Some (Inr (cfg, trk))"
      "keys (fst (c_Voters cfg)) = {|1, 2|}"
    using solo_adds_voter by blast
  have "config_change (chg_Config solo, chg_ProgressMap solo) (cfg, trk)"
    using r(1) by (rule change_simple [OF refl refl])
  with config_changes_keep_quorums_overlapping [OF solo_valid rtranclp.rtrancl_refl this] r(2)
  show ?thesis by (intro exI [of _ "(cfg, trk)"]) simp
qed

text \<open>
  Property C13: restoring a \<open>ConfState\<close> is a round trip. From an empty changer,
  \<open>Restore\<close> replays simple changes and, for a joint state, one \<open>EnterJoint\<close>; for
  every well-formed \<open>ConfState\<close> it neither panics nor fails, and the configuration
  it returns is valid and has an equivalent \<open>ConfState\<close>.
\<close>

theorem Restore_roundtrip:
  assumes "valid_ConfState cs" and "chg_Config chg = MakeEmptyConfig" and "chg_ProgressMap chg = fmempty"
  shows "\<exists>cfg trk. Restore chg cs = Some (Inr (cfg, trk)) \<and> checkInvariants cfg trk = None \<and>
    fmdom trk = fset_of_list (cs_Voters cs @ cs_VotersOutgoing cs @ cs_Learners cs) \<and>
    ConfState_Equivalent (Config_ConfState cfg) cs"
proof -
  obtain cfg trk where r: "Restore chg cs = Some (Inr (cfg, trk))" "valid_config (cfg, trk)"
      "ConfState_Equivalent (Config_ConfState cfg) cs"
    using Restore_plain [OF assms(1) _ assms(2,3)] Restore_joint [OF assms(1) _ assms(2,3)] by blast
  have k: "keys m = fset_of_list xs" if "mset (ranged m) = mset xs" for m and xs :: "PeerID list"
    using mset_eq_setD [OF that] by (intro fset_eqI) (simp add: fset_of_list.rep_eq)
  have "keys (fst (c_Voters cfg)) = fset_of_list (cs_Voters cs)"
      "keys (snd (c_Voters cfg)) = fset_of_list (cs_VotersOutgoing cs)"
      "keys (c_Learners cfg) = fset_of_list (cs_Learners cs)"
    using r(3)
    by (simp_all add: ConfState_Equivalent_iff Config_ConfState_def MajorityConfig_Slice_def k)
  then have "fmdom trk = fset_of_list (cs_Voters cs @ cs_VotersOutgoing cs @ cs_Learners cs)"
    using trackedD(4) [OF valid_configD(1) [OF r(2)]] by (simp add: funion_assoc)
  then show ?thesis using r valid_configD(2) [OF r(2)] by blast
qed

theorem Restore_roundtrip_witness:
  "\<exists>cfg trk. Restore \<lparr>chg_Config = MakeEmptyConfig, chg_ProgressMap = fmempty, chg_MaxInflight = 4,
      chg_MaxInflightBytes = 0, chg_LastIndex = 3\<rparr>
     \<lparr>cs_Voters = [1, 2, 3], cs_Learners = [5], cs_VotersOutgoing = [1, 2, 4, 6],
      cs_LearnersNext = [4], cs_AutoLeave = True\<rparr> = Some (Inr (cfg, trk)) \<and>
    checkInvariants cfg trk = None \<and> fmdom trk = {|1, 2, 3, 4, 5, 6|} \<and>
    ConfState_Equivalent (Config_ConfState cfg)
      \<lparr>cs_Voters = [1, 2, 3], cs_Learners = [5], cs_VotersOutgoing = [1, 2, 4, 6],
       cs_LearnersNext = [4], cs_AutoLeave = True\<rparr>"
proof -
  let ?cs = "\<lparr>cs_Voters = [1, 2, 3], cs_Learners = [5], cs_VotersOutgoing = [1, 2, 4, 6],
       cs_LearnersNext = [4], cs_AutoLeave = True\<rparr>"
  have "valid_ConfState ?cs" by (simp add: valid_ConfState_def)
  moreover have "{|1, 2, 3, 1, 2, 4, 6, 5|} = ({|1, 2, 3, 4, 5, 6|} :: PeerID fset)" by auto
  ultimately show ?thesis
    using Restore_roundtrip [of ?cs "\<lparr>chg_Config = MakeEmptyConfig, chg_ProgressMap = fmempty,
      chg_MaxInflight = 4, chg_MaxInflightBytes = 0, chg_LastIndex = 3\<rparr>"] by simp
qed

text \<open>
  Property C17: on a tracked configuration that is not joint, \<open>Simple\<close> with known
  change types computes exactly the set-level change. It never panics, it fails
  only when no voter would be left or more than one voter would change, and
  otherwise the configuration it returns passes \<open>checkInvariants\<close>, tracks exactly
  its members and is not joint.
\<close>

theorem Changer_Simple_refines_sets:
  assumes "tracked (chg_Config c) (chg_ProgressMap c)"
    and "snd (c_Voters (chg_Config c)) = None" and "list_all known_change ccs"
  shows "\<exists>cfg' trk'. tracked cfg' trk' \<and> checkInvariants cfg' trk' = None \<and>
    sets_of cfg' = fold sets_change ccs (sets_of (chg_Config c)) \<and> \<not> joint cfg' \<and>
    Changer_Simple c ccs = Some
      (if keys (incoming (c_Voters cfg')) = {||} then Inl RemovedAllVoters
       else if 1 < symdiff (incoming (c_Voters (chg_Config c))) (incoming (c_Voters cfg'))
       then Inl TooManyVotersChanged
       else Inr (cfg', trk'))"
  using Changer_Simple_result [OF assms] unfolding incoming_def joint_iff by (metis keys_simps(1))

theorem Changer_Simple_refines_sets_witness:
  "\<exists>cfg' trk'. tracked cfg' trk' \<and> sets_of cfg' = ({|1|}, {||}, {|2|}, {||}) \<and>
     Changer_Simple solo [op_of ConfChangeAddLearnerNode 2] = Some (Inr (cfg', trk'))"
proof -
  have k: "list_all known_change [op_of ConfChangeAddLearnerNode 2]" by (simp add: known_change_def)
  have s: "sets_of (chg_Config solo) = ({|1|}, {||}, {||}, {||})" by (simp add: solo_def config_sel_defs)
  obtain cfg' trk' where r: "tracked cfg' trk'"
      "sets_of cfg' = fold sets_change [op_of ConfChangeAddLearnerNode 2] (sets_of (chg_Config solo))"
      "Changer_Simple solo [op_of ConfChangeAddLearnerNode 2] = Some
        (if keys (incoming (c_Voters cfg')) = {||} then Inl RemovedAllVoters
         else if 1 < symdiff (incoming (c_Voters (chg_Config solo))) (incoming (c_Voters cfg'))
         then Inl TooManyVotersChanged else Inr (cfg', trk'))"
    using Changer_Simple_refines_sets [OF solo_tracked(1,2) k] by blast
  have "sets_of cfg' = ({|1|}, {||}, {|2|}, {||})" using r(2) s by (simp add: sets_change_def)
  with r(1,3) s show ?thesis
    by (intro exI [of _ cfg'] exI [of _ trk']) (simp add: sets_of_def symdiff_card)
qed

text \<open>
  Property C16: a joint change is entered and left as documented. \<open>EnterJoint\<close> on a
  tracked, non-joint configuration with voters keeps the old voters as the outgoing
  half, applies the changes to the incoming half and fails only when that would
  leave no voter; the following \<open>LeaveJoint\<close> always succeeds, drops the outgoing
  half and turns the staged learners into learners. Both results pass
  \<open>checkInvariants\<close>.
\<close>

theorem Changer_EnterJoint_LeaveJoint:
  assumes "tracked (chg_Config c) (chg_ProgressMap c)" and "snd (c_Voters (chg_Config c)) = None"
    and "list_all known_change ccs"
    and "fold sets_change ccs (old, old, keys (c_Learners (chg_Config c)), {||}) = (v, out, l, n)"
    and "old = keys (incoming (c_Voters (chg_Config c)))" and "old \<noteq> {||}"
  shows "if v = {||} then Changer_EnterJoint c autoLeave ccs = Some (Inl RemovedAllVoters)
    else \<exists>cfg1 trk1 cfg2 trk2.
      Changer_EnterJoint c autoLeave ccs = Some (Inr (cfg1, trk1)) \<and>
      checkInvariants cfg1 trk1 = None \<and> sets_of cfg1 = (v, old, l, n) \<and> c_AutoLeave cfg1 = autoLeave \<and>
      Changer_LeaveJoint (c\<lparr>chg_Config := cfg1, chg_ProgressMap := trk1\<rparr>) = Some (Inr (cfg2, trk2)) \<and>
      checkInvariants cfg2 trk2 = None \<and> sets_of cfg2 = (v, {||}, l |\<union>| n, {||})"
proof -
  have ne: "keys (fst (c_Voters (chg_Config c))) \<noteq> {||}" using assms(5,6) by (simp add: incoming_def)
  obtain cfg1 trk1 where 1: "tracked cfg1 trk1" "checkInvariants cfg1 trk1 = None"
      "sets_of cfg1 = (v, out, l, n)" "snd (c_Voters cfg1) = Some old" "c_AutoLeave cfg1 = autoLeave"
      "Changer_EnterJoint c autoLeave ccs = Some
        (if keys (fst (c_Voters cfg1)) = {||} then Inl RemovedAllVoters else Inr (cfg1, trk1))"
    using Changer_EnterJoint_result [OF assms(1,2) ne assms(3), of autoLeave] assms(4,5)
    by (auto simp: incoming_def)
  have k: "keys (fst (c_Voters cfg1)) = v" "out = old" "keys (c_Learners cfg1) = l"
      "keys (c_LearnersNext cfg1) = n"
    using 1(3,4) by (auto simp: config_sel_defs)
  obtain cfg2 trk2 where 2:
      "Changer_LeaveJoint (c\<lparr>chg_Config := cfg1, chg_ProgressMap := trk1\<rparr>) = Some (Inr (cfg2, trk2))"
      "checkInvariants cfg2 trk2 = None" "c_Voters cfg2 = (fst (c_Voters cfg1), None)"
      "keys (c_Learners cfg2) = l |\<union>| n" "c_LearnersNext cfg2 = None"
    using Changer_LeaveJoint_result [of "c\<lparr>chg_Config := cfg1, chg_ProgressMap := trk1\<rparr>"]
      1(1,4) k assms(6) by (auto simp: joint_iff)
  have "sets_of cfg2 = (v, {||}, l |\<union>| n, {||})" using 2 k by (simp add: config_sel_defs)
  with 1 2 k show ?thesis by auto
qed

theorem Changer_EnterJoint_LeaveJoint_witness:
  "\<exists>cfg1 trk1 cfg2 trk2.
     Changer_EnterJoint solo True [op_of ConfChangeAddNode 2, op_of ConfChangeAddLearnerNode 1] =
       Some (Inr (cfg1, trk1)) \<and>
     checkInvariants cfg1 trk1 = None \<and> sets_of cfg1 = ({|2|}, {|1|}, {||}, {|1|}) \<and>
     c_AutoLeave cfg1 = True \<and>
     Changer_LeaveJoint (solo\<lparr>chg_Config := cfg1, chg_ProgressMap := trk1\<rparr>) = Some (Inr (cfg2, trk2)) \<and>
     checkInvariants cfg2 trk2 = None \<and> sets_of cfg2 = ({|2|}, {||}, {|1|}, {||})"
proof -
  let ?ccs = "[op_of ConfChangeAddNode 2, op_of ConfChangeAddLearnerNode 1]"
  have k: "list_all known_change ?ccs" by (simp add: known_change_def)
  have l: "keys (c_Learners (chg_Config solo)) = {||}" by (simp add: solo_def)
  have "({|2, 1|} :: PeerID fset) |-| {|1|} = {|2|}" by (auto simp: fset_eq_iff)
  then have f: "fold sets_change ?ccs ({|1|}, {|1|}, keys (c_Learners (chg_Config solo)), {||}) =
      ({|2|}, {|1|}, {||}, {|1|})"
    by (simp add: sets_change_def l)
  show ?thesis
    using Changer_EnterJoint_LeaveJoint [OF solo_tracked(1,2) k f, of True] solo_tracked(3)
    by (simp add: incoming_def)
qed

end
