(* ===== verification/Raft_Core.thy ===== *)
theory Raft_Core
  imports Raft_Log Confchange
begin

text \<open>
  The state of a raft node, \<open>raft.go\<close>, and the operations that build and queue its
  outgoing messages, together with the message predicates of \<open>util.go\<close> and the
  helpers of \<open>node.go\<close>. The function pointers \<open>step\<close> and \<open>tick\<close> are values of
  enumerations, \<open>None\<close> before the first role is assumed. Calls that only format a log
  message are left out, except the reads of the log among them that can panic. The store liveness fabric, the cluster version and the random
  source are fields that the environment may change between steps.
\<close>

section \<open>Messages and states\<close>

abbreviation PeerNone :: PeerID where "PeerNone \<equiv> 0"

definition LocalAppendThread :: PeerID where
  "LocalAppendThread = MaxUint64"

definition LocalApplyThread :: PeerID where
  "LocalApplyThread = MaxUint64 - 1"

fun IsLocalMsg :: "MessageType \<Rightarrow> bool" where
  "IsLocalMsg MsgHup = True"
| "IsLocalMsg MsgBeat = True"
| "IsLocalMsg MsgUnreachable = True"
| "IsLocalMsg MsgSnapStatus = True"
| "IsLocalMsg MsgCheckQuorum = True"
| "IsLocalMsg MsgStorageAppend = True"
| "IsLocalMsg MsgStorageAppendResp = True"
| "IsLocalMsg MsgStorageApply = True"
| "IsLocalMsg MsgStorageApplyResp = True"
| "IsLocalMsg _ = False"

fun IsResponseMsg :: "MessageType \<Rightarrow> bool" where
  "IsResponseMsg MsgAppResp = True"
| "IsResponseMsg MsgVoteResp = True"
| "IsResponseMsg MsgHeartbeatResp = True"
| "IsResponseMsg MsgUnreachable = True"
| "IsResponseMsg MsgPreVoteResp = True"
| "IsResponseMsg MsgStorageAppendResp = True"
| "IsResponseMsg MsgStorageApplyResp = True"
| "IsResponseMsg MsgFortifyLeaderResp = True"
| "IsResponseMsg _ = False"

fun IsMsgFromLeader :: "MessageType \<Rightarrow> bool" where
  "IsMsgFromLeader MsgApp = True"
| "IsMsgFromLeader MsgSnap = True"
| "IsMsgFromLeader MsgHeartbeat = True"
| "IsMsgFromLeader MsgFortifyLeader = True"
| "IsMsgFromLeader MsgTimeoutNow = True"
| "IsMsgFromLeader _ = False"

definition IsLocalMsgTarget :: "PeerID \<Rightarrow> bool" where
  "IsLocalMsgTarget i \<longleftrightarrow> i = LocalAppendThread \<or> i = LocalApplyThread"

fun voteRespMsgType :: "MessageType \<Rightarrow> MessageType go" where
  "voteRespMsgType MsgVote = Some MsgVoteResp"
| "voteRespMsgType MsgPreVote = Some MsgPreVoteResp"
| "voteRespMsgType _ = None"

definition isHardStateEqual :: "HardState \<Rightarrow> HardState \<Rightarrow> bool" where
  "isHardStateEqual a b \<longleftrightarrow> a = b"

definition IsEmptyHardState :: "HardState \<Rightarrow> bool" where
  "IsEmptyHardState st = isHardStateEqual st HardState_zero"

definition IsEmptySnap :: "Snapshot \<Rightarrow> bool" where
  "IsEmptySnap sp \<longleftrightarrow> sm_Index (s_Metadata sp) = 0"

definition confChangeToMsg :: "codec \<Rightarrow> ConfChangeI option \<Rightarrow> Message option" where
  "confChangeToMsg cd c =
     (case MarshalConfChange cd c of
        None \<Rightarrow> None
      | Some (typ, data) \<Rightarrow>
          Some (Message_zero\<lparr>m_Type := MsgProp,
            m_Entries := [Entry_zero\<lparr>e_Type := typ, e_Data := data\<rparr>]\<rparr>))"

datatype StateType = StateFollower | StateCandidate | StateLeader | StatePreCandidate

type_synonym CampaignType = string

definition campaignPreElection :: CampaignType where
  "campaignPreElection = ''CampaignPreElection''"

definition campaignElection :: CampaignType where
  "campaignElection = ''CampaignElection''"

definition campaignTransfer :: CampaignType where
  "campaignTransfer = ''CampaignTransfer''"

datatype raft_error =
    ErrProposalDropped
  | ErrStepLocalMsg
  | ErrStepPeerNotFound
  | ErrMarshal
  | ErrNotLeader

section \<open>The store liveness fabric\<close>

text \<open>The methods of the interface; \<open>None\<close> is the panic of a disabled fabric.\<close>

record StoreLiveness =
  sl_SupportFor :: "PeerID \<Rightarrow> (Epoch \<times> bool) go"
  sl_SupportFrom :: "PeerID \<Rightarrow> (Epoch \<times> Timestamp \<times> bool) go"
  sl_SupportFromEnabled :: "bool go"
  sl_SupportExpired :: "Timestamp \<Rightarrow> bool go"

definition AlwaysLive :: StoreLiveness where
  "AlwaysLive = \<lparr>sl_SupportFor = (\<lambda>_. Some (1, True)),
     sl_SupportFrom = (\<lambda>_. Some (1, MaxTimestamp, True)),
     sl_SupportFromEnabled = Some True, sl_SupportExpired = (\<lambda>_. Some False)\<rparr>"

definition Disabled :: StoreLiveness where
  "Disabled = \<lparr>sl_SupportFor = (\<lambda>_. None), sl_SupportFrom = (\<lambda>_. None),
     sl_SupportFromEnabled = Some False, sl_SupportExpired = (\<lambda>_. None)\<rparr>"

section \<open>The configuration and the state of a node\<close>

text \<open>
  \<open>MaxInflightMsgs\<close> and the tick counts are Go integers. The random source returns, for
  its \<open>k\<close>-th draw with bound \<open>n\<close>, an integer; \<open>Intn\<close> promises one in \<open>[0, n)\<close>. The logger
  is not modelled. \<open>rc_CRDBVersion\<close> tells whether \<open>V24_3_AdvanceCommitIndexViaMsgApps\<close>
  is active.
\<close>

record RaftConfig =
  rc_ID :: PeerID
  rc_ElectionTick :: int
  rc_HeartbeatTick :: int
  rc_Storage :: "Storage option"
  rc_Applied :: u64
  rc_AsyncStorageWrites :: bool
  rc_MaxSizePerMsg :: u64
  rc_MaxCommittedSizePerReady :: u64
  rc_MaxUncommittedEntriesSize :: u64
  rc_MaxInflightMsgs :: int
  rc_MaxInflightBytes :: u64
  rc_CheckQuorum :: bool
  rc_PreVote :: bool
  rc_DisableProposalForwarding :: bool
  rc_DisableConfChangeValidation :: bool
  rc_StepDownOnRemoval :: bool
  rc_StoreLiveness :: StoreLiveness
  rc_CRDBVersion :: bool
  rc_Intn :: "nat \<Rightarrow> int \<Rightarrow> int"

text \<open>\<open>validate\<close> fills in defaults; an error is a message.\<close>

definition RaftConfig_validate :: "RaftConfig \<Rightarrow> string + RaftConfig" where
  "RaftConfig_validate c =
     (if rc_ID c = PeerNone then Inl ''cannot use none as id''
      else if IsLocalMsgTarget (rc_ID c) then Inl ''cannot use local target as id''
      else if rc_HeartbeatTick c \<le> 0 then Inl ''heartbeat tick must be greater than 0''
      else if rc_ElectionTick c \<le> rc_HeartbeatTick c
      then Inl ''election tick must be greater than heartbeat tick''
      else if rc_Storage c = None then Inl ''storage cannot be nil''
      else
        let c = (if rc_MaxUncommittedEntriesSize c = 0
                 then c\<lparr>rc_MaxUncommittedEntriesSize := noLimit\<rparr> else c);
            c = (if rc_MaxCommittedSizePerReady c = 0
                 then c\<lparr>rc_MaxCommittedSizePerReady := rc_MaxSizePerMsg c\<rparr> else c)
        in if rc_MaxInflightMsgs c \<le> 0 then Inl ''max inflight messages must be greater than 0''
           else if rc_MaxInflightBytes c = 0 then Inr (c\<lparr>rc_MaxInflightBytes := noLimit\<rparr>)
           else if rc_MaxInflightBytes c < rc_MaxSizePerMsg c
           then Inl ''max inflight bytes must be >= max message size''
           else Inr c)"

datatype stepFunc = stepFunc_Leader | stepFunc_Candidate | stepFunc_Follower
datatype tickFunc = tickFunc_Election | tickFunc_Heartbeat

record raft =
  r_id :: PeerID
  r_Term :: u64
  r_Vote :: PeerID
  r_raftLog :: raftLog
  r_maxMsgSize :: u64
  r_maxUncommittedSize :: u64
  r_config :: Config
  r_trk :: ProgressTracker
  r_electionTracker :: ElectionTracker
  r_state :: StateType
  r_isLearner :: bool
  r_msgs :: "Message list"
  r_msgsAfterAppend :: "Message list"
  r_lead :: PeerID
  r_leadEpoch :: Epoch
  r_leadTransferee :: PeerID
  r_pendingConfIndex :: u64
  r_disableConfChangeValidation :: bool
  r_uncommittedSize :: u64
  r_electionElapsed :: int
  r_heartbeatElapsed :: int
  r_maxInflight :: nat
  r_maxInflightBytes :: u64
  r_checkQuorum :: bool
  r_preVote :: bool
  r_heartbeatTimeout :: int
  r_electionTimeout :: int
  r_randomizedElectionTimeout :: int
  r_disableProposalForwarding :: bool
  r_stepDownOnRemoval :: bool
  r_tick :: "tickFunc option"
  r_step :: "stepFunc option"
  r_storeLiveness :: StoreLiveness
  r_crdbVersion :: bool
  r_intn :: "nat \<Rightarrow> int \<Rightarrow> int"
  r_draws :: nat

definition raft_hasLeader :: "raft \<Rightarrow> bool" where
  "raft_hasLeader r \<longleftrightarrow> r_lead r \<noteq> PeerNone"

definition raft_hardState :: "raft \<Rightarrow> HardState" where
  "raft_hardState r = \<lparr>hs_Term = r_Term r, hs_Vote = r_Vote r, hs_Commit = rl_committed (r_raftLog r),
     hs_Lead = r_lead r, hs_LeadEpoch = r_leadEpoch r\<rparr>"

definition raft_advanceCommitViaMsgAppOnly :: "raft \<Rightarrow> bool" where
  "raft_advanceCommitViaMsgAppOnly r = r_crdbVersion r"

text \<open>Storing a progress back: the source changes it through a pointer.\<close>

definition set_progress :: "PeerID \<Rightarrow> Progress \<Rightarrow> raft \<Rightarrow> raft" where
  "set_progress i pr r = r\<lparr>r_trk := (r_trk r)\<lparr>pt_progress := fmupd i pr (pt_progress (r_trk r))\<rparr>\<rparr>"

abbreviation get_progress :: "raft \<Rightarrow> PeerID \<Rightarrow> Progress option" where
  "get_progress r i \<equiv> ProgressTracker_Progress (r_trk r) i"

section \<open>Sending\<close>

definition is_campaign_msg :: "MessageType \<Rightarrow> bool" where
  "is_campaign_msg t \<longleftrightarrow> t = MsgVote \<or> t = MsgVoteResp \<or> t = MsgPreVote \<or> t = MsgPreVoteResp"

definition needs_durability :: "MessageType \<Rightarrow> bool" where
  "needs_durability t \<longleftrightarrow>
     t = MsgAppResp \<or> t = MsgVoteResp \<or> t = MsgPreVoteResp \<or> t = MsgFortifyLeaderResp"

definition raft_send :: "Message \<Rightarrow> raft \<Rightarrow> raft go" where
  "raft_send m r = do {
     let m = (if m_From m = PeerNone then m\<lparr>m_From := r_id r\<rparr> else m);
     m \<leftarrow> (if is_campaign_msg (m_Type m) then do {
             assertTrue (m_Term m \<noteq> 0);
             Some m
           } else do {
             assertTrue (m_Term m = 0);
             Some (if m_Type m \<noteq> MsgProp then m\<lparr>m_Term := r_Term r\<rparr> else m)
           });
     if needs_durability (m_Type m)
     then Some (r\<lparr>r_msgsAfterAppend := r_msgsAfterAppend r @ [m]\<rparr>)
     else do {
       assertTrue (m_To m \<noteq> r_id r);
       Some (r\<lparr>r_msgs := r_msgs r @ [m]\<rparr>)
     }
   }"

text \<open>The message as it is queued: the sender and the term are filled in.\<close>

definition stamped :: "raft \<Rightarrow> Message \<Rightarrow> Message" where
  "stamped r m =
     m\<lparr>m_From := (if m_From m = PeerNone then r_id r else m_From m),
       m_Term := (if is_campaign_msg (m_Type m) \<or> m_Type m = MsgProp then m_Term m else r_Term r)\<rparr>"

lemma stamped_simps [simp]:
  "m_Type (stamped r m) = m_Type m"
  "m_To (stamped r m) = m_To m"
  "m_Reject (stamped r m) = m_Reject m"
  "m_From (stamped r m) = (if m_From m = PeerNone then r_id r else m_From m)"
  "m_Term (stamped r m) =
     (if is_campaign_msg (m_Type m) \<or> m_Type m = MsgProp then m_Term m else r_Term r)"
  by (simp_all add: stamped_def)

lemma raft_send_iff:
  "raft_send m r = Some r' \<longleftrightarrow>
     (is_campaign_msg (m_Type m) \<longleftrightarrow> m_Term m \<noteq> 0) \<and>
     (if needs_durability (m_Type m)
      then r' = r\<lparr>r_msgsAfterAppend := r_msgsAfterAppend r @ [stamped r m]\<rparr>
      else m_To m \<noteq> r_id r \<and> r' = r\<lparr>r_msgs := r_msgs r @ [stamped r m]\<rparr>)"
proof -
  have m: "m\<lparr>m_From := m_From m\<rparr> = m" "m\<lparr>m_Term := m_Term m\<rparr> = m" by simp_all
  show ?thesis
    by (cases "is_campaign_msg (m_Type m)"; cases "m_From m = PeerNone"; cases "m_Type m = MsgProp";
        cases "needs_durability (m_Type m)")
      (auto simp: raft_send_def stamped_def Let_def bind_assert_iff m)
qed

definition raft_maybeSendSnapshot :: "PeerID \<Rightarrow> Progress \<Rightarrow> raft \<Rightarrow> (raft \<times> bool) go" where
  "raft_maybeSendSnapshot to pr r =
     (if \<not> pr_RecentActive pr then Some (r, False)
      else
        (case raftLog_snapshot (r_raftLog r) of
           Inl err \<Rightarrow> if err = ErrSnapshotTemporarilyUnavailable then Some (r, False) else None
         | Inr snap \<Rightarrow> do {
             assertTrue (\<not> IsEmptySnap snap);
             _ \<leftarrow> raftLog_firstIndex (r_raftLog r);
             let r = set_progress to (Progress_BecomeSnapshot (snap_index snap) pr) r;
             r \<leftarrow> raft_send (Message_zero\<lparr>m_To := to, m_Type := MsgSnap, m_Snapshot := Some snap\<rparr>) r;
             Some (r, True)
           }))"

definition raft_maybeSendAppend :: "codec \<Rightarrow> PeerID \<Rightarrow> raft \<Rightarrow> (raft \<times> bool) go" where
  "raft_maybeSendAppend cd to r = do {
     pr \<leftarrow> get_progress r to;
     let lst = raftLog_lastIndex (r_raftLog r);
     let commit = rl_committed (r_raftLog r);
     if \<not> Progress_ShouldSendMsgApp lst commit (raft_advanceCommitViaMsgAppOnly r) pr then Some (r, False)
     else do {
       let prevIndex = pr_Next pr - 1;
       rt \<leftarrow> raftLog_term (r_raftLog r) prevIndex;
       case rt of
         Inl _ \<Rightarrow> raft_maybeSendSnapshot to pr r
       | Inr prevTerm \<Rightarrow> do {
           re \<leftarrow> (if Progress_CanSendEntries lst pr
                  then raftLog_entries cd (pr_Next pr) (r_maxMsgSize r) (r_raftLog r)
                  else Some (Inr []));
           case re of
             Inl _ \<Rightarrow> raft_maybeSendSnapshot to pr r
           | Inr entries \<Rightarrow> do {
               r \<leftarrow> raft_send (Message_zero\<lparr>m_To := to, m_Type := MsgApp, m_Index := prevIndex,
                 m_LogTerm := prevTerm, m_Entries := entries, m_Commit := commit,
                 m_Match := pr_Match pr\<rparr>) r;
               pr \<leftarrow> Progress_SentEntries (length entries) (payloadsSize entries) pr;
               Some (set_progress to (Progress_MaybeUpdateSentCommit commit pr) r, True)
             }
         }
     }
   }"

text \<open>\<open>for r.maybeSendAppend(m.From) {}\<close>\<close>

partial_function (option) raft_sendAppends :: "codec \<Rightarrow> PeerID \<Rightarrow> raft \<Rightarrow> raft go" where
  "raft_sendAppends cd to r = do {
     (r, sent) \<leftarrow> raft_maybeSendAppend cd to r;
     if sent then raft_sendAppends cd to r else Some r
   }"

declare raft_sendAppends.simps [code]

definition raft_sendHeartbeat :: "PeerID \<Rightarrow> raft \<Rightarrow> raft go" where
  "raft_sendHeartbeat to r = do {
     pr \<leftarrow> get_progress r to;
     let commit = (if \<not> raft_advanceCommitViaMsgAppOnly r
                   then min (pr_Match pr) (rl_committed (r_raftLog r)) else 0);
     r \<leftarrow> raft_send (Message_zero\<lparr>m_To := to, m_Type := MsgHeartbeat, m_Commit := commit,
       m_Match := pr_Match pr\<rparr>) r;
     Some (set_progress to (Progress_MaybeUpdateSentCommit commit pr) r)
   }"

definition raft_sendFortify :: "PeerID \<Rightarrow> raft \<Rightarrow> raft go" where
  "raft_sendFortify to r = do {
     enabled \<leftarrow> sl_SupportFromEnabled (r_storeLiveness r);
     if \<not> enabled then Some r
     else if to = r_id r then do {
       (epoch, live) \<leftarrow> sl_SupportFor (r_storeLiveness r) (r_lead r);
       Some (if live then r\<lparr>r_leadEpoch := epoch\<rparr> else r)
     } else raft_send (Message_zero\<lparr>m_To := to, m_Type := MsgFortifyLeader\<rparr>) r
   }"

text \<open>\<open>Visit\<close> reads the ids once, before its first call.\<close>

definition raft_bcastAppend :: "codec \<Rightarrow> raft \<Rightarrow> raft go" where
  "raft_bcastAppend cd r =
     foldM (\<lambda>i r. if i = r_id r then Some r
                  else do { (r, _) \<leftarrow> raft_maybeSendAppend cd i r; Some r })
       (ProgressTracker_ids (r_trk r)) r"

definition raft_bcastHeartbeat :: "raft \<Rightarrow> raft go" where
  "raft_bcastHeartbeat r =
     foldM (\<lambda>i r. if i = r_id r then Some r else raft_sendHeartbeat i r)
       (ProgressTracker_ids (r_trk r)) r"

definition raft_bcastFortify :: "raft \<Rightarrow> raft go" where
  "raft_bcastFortify r = do {
     assertTrue (r_state r = StateLeader);
     foldM raft_sendFortify (ProgressTracker_ids (r_trk r)) r
   }"

section \<open>Committing and appending\<close>

definition raft_maybeCommit :: "raft \<Rightarrow> (raft \<times> bool) go" where
  "raft_maybeCommit r = do {
     let index = ProgressTracker_Committed (r_config r) (r_trk r);
     if index \<le> rl_committed (r_raftLog r) then Some (r, False)
     else do {
       ok \<leftarrow> raftLog_matchTerm (r_raftLog r) \<lparr>id_term = r_Term r, id_index = index\<rparr>;
       if \<not> ok then Some (r, False)
       else do {
         l \<leftarrow> raftLog_commitTo \<lparr>lm_Term = r_Term r, lm_Index = index\<rparr> (r_raftLog r);
         Some (r\<lparr>r_raftLog := l\<rparr>, True)
       }
     }
   }"

definition raft_increaseUncommittedSize :: "Entry list \<Rightarrow> raft \<Rightarrow> raft \<times> bool" where
  "raft_increaseUncommittedSize ents r =
     (let s = payloadsSize ents in
      if 0 < r_uncommittedSize r \<and> 0 < s \<and> r_maxUncommittedSize r < r_uncommittedSize r + s
      then (r, False)
      else (r\<lparr>r_uncommittedSize := r_uncommittedSize r + s\<rparr>, True))"

definition raft_reduceUncommittedSize :: "u64 \<Rightarrow> raft \<Rightarrow> raft" where
  "raft_reduceUncommittedSize s r =
     (if r_uncommittedSize r < s then r\<lparr>r_uncommittedSize := 0\<rparr>
      else r\<lparr>r_uncommittedSize := r_uncommittedSize r - s\<rparr>)"

text \<open>The loop that numbers the entries from \<open>index\<close> on.\<close>

fun stamp_entries :: "u64 \<Rightarrow> u64 \<Rightarrow> Entry list \<Rightarrow> Entry list" where
  "stamp_entries term index [] = []"
| "stamp_entries term index (e # es) =
     e\<lparr>e_Term := term, e_Index := index\<rparr> # stamp_entries term (index + 1) es"

definition raft_appendEntry :: "Entry list \<Rightarrow> raft \<Rightarrow> (raft \<times> bool) go" where
  "raft_appendEntry es r = do {
     lst \<leftarrow> raftLog_lastEntryID (r_raftLog r);
     let es = stamp_entries (r_Term r) (id_index lst + 1) es;
     let (r, ok) = raft_increaseUncommittedSize es r;
     if \<not> ok then Some (r, False)
     else do {
       let app = \<lparr>ls_term = r_Term r, ls_prev = lst, ls_entries = es\<rparr>;
       assertTrue (logSlice_valid app);
       let (l, ok) = raftLog_append app (r_raftLog r);
       assertTrue ok;
       let r = r\<lparr>r_raftLog := l\<rparr>;
       pr \<leftarrow> get_progress r (r_id r);
       let r = set_progress (r_id r) (pr\<lparr>pr_Next := logSlice_lastIndex app + 1\<rparr>) r;
       r \<leftarrow> raft_send (Message_zero\<lparr>m_To := r_id r, m_Type := MsgAppResp,
         m_Index := raftLog_lastIndex (r_raftLog r), m_Commit := rl_committed (r_raftLog r)\<rparr>) r;
       Some (r, True)
     }
   }"

section \<open>The leader's changes of a progress\<close>

text \<open>
  The sending and appending code performs steps of \<open>progress_step\<close> on the log it
  reads: \<open>maybeSendAppend\<close> keeps to the entries of the log, and falls back to a
  snapshot only when the entry before \<open>Next\<close> is compacted.
\<close>

definition snapshot_covers :: "raftLog \<Rightarrow> logSlice \<Rightarrow> bool" where
  "snapshot_covers l L \<longleftrightarrow>
     (case raftLog_snapshot l of
        Inl _ \<Rightarrow> True
      | Inr s \<Rightarrow> prev_index L \<le> snap_index s \<and> snap_index s \<le> logSlice_lastIndex L)"

lemma raft_send_frame:
  "raft_send m r = Some r' \<Longrightarrow> r_trk r' = r_trk r \<and> r_raftLog r' = r_raftLog r \<and> r_id r' = r_id r"
  by (auto simp: raft_send_iff split: if_splits)

lemma get_set_progress:
  "get_progress (set_progress i pr r) j = (if j = i then Some pr else get_progress r j)"
  by (simp add: set_progress_def ProgressTracker_Progress_def)

lemma set_progress_log [simp]: "r_raftLog (set_progress i pr r) = r_raftLog r"
  by (simp add: set_progress_def)

lemma raft_maybeSendSnapshot_steps:
  assumes "raft_maybeSendSnapshot to pr r = Some (r', sent)" and "get_progress r to = Some pr"
    and "pr_Next pr - 1 < prev_index L" and "snapshot_covers (r_raftLog r) L"
  shows "\<exists>pr'. get_progress r' to = Some pr' \<and>
    progress_step\<^sup>*\<^sup>* (logSlice_lastIndex L, pr) (logSlice_lastIndex L, pr')"
proof -
  consider (none) "r' = r"
    | (snap) s q where "raftLog_snapshot (r_raftLog r) = Inr s"
        "raft_send q (set_progress to (Progress_BecomeSnapshot (snap_index s) pr) r) = Some r'"
    using assms(1) by (auto simp: raft_maybeSendSnapshot_def Let_def go_cases split: if_splits sum.splits)
  then show ?thesis
  proof cases
    case none
    with assms(2) show ?thesis by blast
  next
    case (snap s q)
    have "get_progress r' to = Some (Progress_BecomeSnapshot (snap_index s) pr)"
      using raft_send_frame [OF snap(2)] get_set_progress [of to _ r to] by simp
    moreover have "progress_step (logSlice_lastIndex L, pr)
        (logSlice_lastIndex L, Progress_BecomeSnapshot (snap_index s) pr)"
      using assms(4) snap(1) by (intro step_snapshot [OF assms(3)]) (simp_all add: snapshot_covers_def)
    ultimately show ?thesis by blast
  qed
qed

lemma raftLog_entries_sent:
  assumes "log_repr cd l L" and "prev_index L < i" and "i \<le> logSlice_lastIndex L"
    and "sized_entries cd (log_range L i (logSlice_lastIndex L + 1))"
  shows "\<exists>es. raftLog_entries cd i maxSize l = Some (Inr es) \<and>
    unat i + length es \<le> unat (logSlice_lastIndex L) + 1"
proof -
  let ?hi = "logSlice_lastIndex L + 1"
  note wf = log_repr_wf [OF assms(1)]
  have hi: "unat ?hi = unat (logSlice_lastIndex L) + 1" using lastIndex_less_max [OF wf] by (rule unat_succ_u64)
  then have "i \<le> ?hi" using assms(3) by (simp add: word_le_nat_alt)
  then have "raftLog_entries cd i maxSize l = Some (Inr (limitSize cd (log_range L i ?hi) maxSize))"
    using raftLog_slice_eq [OF assms(1) _ order_refl assms(4)] assms(2,3) log_repr_last [OF assms(1)]
    by (simp add: raftLog_entries_def leD)
  moreover obtain k where "limitSize cd (log_range L i ?hi) maxSize = take k (log_range L i ?hi)"
    using limitSize_prefix by blast
  ultimately show ?thesis
    using length_log_range [OF wf assms(2) \<open>i \<le> ?hi\<close> order_refl] hi assms(3) by (auto simp: word_le_nat_alt min_def)
qed

lemma raft_maybeSendAppend_steps:
  assumes "raft_maybeSendAppend cd to r = Some (r', sent)" and "get_progress r to = Some pr"
    and "log_repr cd (r_raftLog r) L" and "snapshot_covers (r_raftLog r) L"
    and "sized_entries cd (log_range L (pr_Next pr) (logSlice_lastIndex L + 1))"
    and "Progress_within (logSlice_lastIndex L) pr"
  shows "\<exists>pr'. get_progress r' to = Some pr' \<and>
    progress_step\<^sup>*\<^sup>* (logSlice_lastIndex L, pr) (logSlice_lastIndex L, pr')"
proof -
  let ?l = "r_raftLog r" and ?last = "logSlice_lastIndex L"
  note w = Progress_withinD [OF assms(6)] and wf = log_repr_wf [OF assms(3)] and last = log_repr_last [OF assms(3)]
  have n: "0 < pr_Next pr" using le_less_trans [OF word_zero_le w(5)] .
  have nl: "unat (pr_Next pr) \<le> unat ?last + 1"
    using w(3) unat_succ_u64 [OF w(2)] by (simp add: word_le_nat_alt)
  show ?thesis
  proof (cases "pr_Next pr - 1 < prev_index L")
    case True
    then have "raftLog_term ?l (pr_Next pr - 1) = Some (Inl ErrCompacted)"
      using wf by (simp add: raftLog_term_eq [OF assms(3)] term_result_def log_term_def in_log_iff not_le)
    then have "r' = r \<or> raft_maybeSendSnapshot to pr r = Some (r', sent)"
      using assms(1,2) by (auto simp: raft_maybeSendAppend_def Let_def split: if_splits)
    with raft_maybeSendSnapshot_steps [OF _ assms(2) True assms(4)] assms(2) show ?thesis by blast
  next
    case False
    have "in_log L (pr_Next pr - 1)"
      using False nl wf by (simp add: in_log_iff word_le_nat_alt unat_pred_u64 [OF n] not_less)
    then obtain t where t: "raftLog_term ?l (pr_Next pr - 1) = Some (Inr t)"
      by (simp add: raftLog_term_eq [OF assms(3)] term_result_def log_term_def)
    have "prev_index L < pr_Next pr" using False word_pred_less [OF n] by simp
    then obtain es where es: "(if Progress_CanSendEntries ?last pr
          then raftLog_entries cd (pr_Next pr) (r_maxMsgSize r) ?l else Some (Inr [])) = Some (Inr es)"
        "if length es = 0 then True else Progress_CanSendEntries ?last pr"
        "unat (pr_Next pr) + length es \<le> unat ?last + 1"
      using raftLog_entries_sent [OF assms(3) _ _ assms(5), of "r_maxMsgSize r"] nl
      by (cases "Progress_CanSendEntries ?last pr") (auto simp: Progress_CanSendEntries_def)
    consider (none) "r' = r"
      | (sent) pr1 r1 where "Progress_SentEntries (length es) (payloadsSize es) pr = Some pr1"
          "r' = set_progress to (Progress_MaybeUpdateSentCommit (rl_committed ?l) pr1) r1"
      using assms(1,2) t es(1) last
      by (auto simp: raft_maybeSendAppend_def Let_def bind_eq_Some_conv split: if_splits)
    then show ?thesis
    proof cases
      case none
      with assms(2) show ?thesis by blast
    next
      case (sent pr1 r1)
      have "progress_step (?last, pr) (?last, pr1)" by (rule step_sent [OF es(2,3) sent(1)])
      moreover have "progress_step (?last, pr1) (?last, Progress_MaybeUpdateSentCommit (rl_committed ?l) pr1)"
        by (rule step_sent_commit)
      ultimately show ?thesis using sent(2) by (auto simp: get_set_progress)
    qed
  qed
qed

lemma length_stamp_entries [simp]: "length (stamp_entries term index es) = length es"
  by (induction es arbitrary: index) simp_all

text \<open>An accepted append moves the leader's own \<open>Next\<close>, and the log for the others.\<close>

lemma raft_appendEntry_steps:
  assumes "raft_appendEntry es r = Some (r', True)" and "log_repr cd (r_raftLog r) L"
    and "unat (logSlice_lastIndex L) + length es < 2 ^ 64 - 1" and "get_progress r i = Some pr"
  shows "\<exists>pr'. get_progress r' i = Some pr' \<and>
    progress_step (logSlice_lastIndex L, pr) (raftLog_lastIndex (r_raftLog r'), pr')"
proof -
  let ?prev = "logSlice_lastEntryID L"
  define a where "a = \<lparr>ls_term = r_Term r, ls_prev = ?prev, ls_entries = stamp_entries (r_Term r) (id_index ?prev + 1) es\<rparr>"
  note wf = log_repr_wf [OF assms(2)] and app = raftLog_append_cases [OF assms(2), of a]
  have prev: "prev_index a = logSlice_lastIndex L" using lastIndex_lastEntryID [OF wf] by (simp add: a_def)
  obtain own r1 m where v: "logSlice_valid a" and ok: "snd (raftLog_append a (r_raftLog r))"
      and own: "get_progress r (r_id r) = Some own"
      and r1: "r1 = set_progress (r_id r) (own\<lparr>pr_Next := logSlice_lastIndex a + 1\<rparr>)
        (r\<lparr>r_uncommittedSize := r_uncommittedSize r + payloadsSize (ls_entries a), r_raftLog := fst (raftLog_append a (r_raftLog r))\<rparr>)"
      and snd: "raft_send m r1 = Some r'"
    using assms(1) unfolding raft_appendEntry_def raftLog_lastEntryID_eq [OF assms(2)]
    by (auto simp: a_def raft_increaseUncommittedSize_def Let_def go_cases case_prod_beta split: if_splits)
  have awf: "slice_wf a" using v prev assms(3) by (simp add: slice_wf_def a_def)
  have lj: "logSlice_lastIndex (log_join L a) = logSlice_lastIndex a"
    using log_join_wf(2) [OF wf awf] has_id_last [OF wf] prev lastIndex_lastEntryID [OF wf] by (simp add: has_id_def a_def)
  have l': "r_raftLog r' = fst (raftLog_append a (r_raftLog r))" using raft_send_frame [OF snd] r1 by simp
  then have "log_repr cd (r_raftLog r') (log_join L a)"
    using ok app raftLog_append_repr [OF assms(2) awf] by (auto split: if_splits)
  then have last: "raftLog_lastIndex (r_raftLog r') = logSlice_lastIndex a"
    using log_repr_last lj by simp
  have b: "logSlice_lastIndex L \<le> logSlice_lastIndex a" "logSlice_lastIndex a < MaxUint64"
    using unat_lastIndex [OF awf] prev lastIndex_less_max [OF awf] by (simp_all add: word_le_nat_alt)
  have "get_progress r' i = (if i = r_id r then Some (own\<lparr>pr_Next := logSlice_lastIndex a + 1\<rparr>) else Some pr)"
    using raft_send_frame [OF snd] assms(4) r1 by (simp add: set_progress_def ProgressTracker_Progress_def)
  with own assms(4) step_own_append [OF b] step_append [OF b] last show ?thesis by auto
qed

end
