(* ===== verification/Raft_Roles.thy ===== *)
theory Raft_Roles
  imports Raft_Core
begin

text \<open>
  The roles of a raft node, \<open>raft.go\<close>: leader fortification, the transitions between
  follower, pre-candidate, candidate and leader, campaigns, configuration switches,
  snapshots and the creation of a node.
\<close>

section \<open>Fortification\<close>

definition raft_supportingFortifiedLeader :: "raft \<Rightarrow> bool go" where
  "raft_supportingFortifiedLeader r =
     (if r_leadEpoch r = 0 then Some False
      else do {
        assertTrue (r_lead r \<noteq> PeerNone);
        (epoch, live) \<leftarrow> sl_SupportFor (r_storeLiveness r) (r_lead r);
        assertTrue (r_leadEpoch r \<le> epoch);
        Some (live \<and> epoch = r_leadEpoch r)
      })"

text \<open>The disjunction is evaluated from the left, and only as far as needed.\<close>

definition raft_deFortify :: "PeerID \<Rightarrow> u64 \<Rightarrow> raft \<Rightarrow> raft go" where
  "raft_deFortify from term r = do {
     ok \<leftarrow> (if r_Term r < term \<or> term = r_Term r \<and> from = r_lead r then Some True
            else if term = r_Term r \<and> from = r_id r then do {
              sup \<leftarrow> raft_supportingFortifiedLeader r;
              Some (\<not> sup)
            } else Some False);
     assertTrue ok;
     Some (r\<lparr>r_leadEpoch := 0\<rparr>)
   }"

text \<open>The assertion of \<open>reset\<close> and \<open>becomePreCandidate\<close>.\<close>

definition raft_assertNotSupporting :: "raft \<Rightarrow> unit go" where
  "raft_assertNotSupporting r = do {
     sup \<leftarrow> raft_supportingFortifiedLeader r;
     assertTrue (\<not> sup \<or> r_lead r = r_id r)
   }"

section \<open>Changing roles\<close>

definition raft_resetRandomizedElectionTimeout :: "raft \<Rightarrow> raft" where
  "raft_resetRandomizedElectionTimeout r =
     r\<lparr>r_randomizedElectionTimeout := r_electionTimeout r + r_intn r (r_draws r) (r_electionTimeout r),
       r_draws := r_draws r + 1\<rparr>"

definition raft_pastElectionTimeout :: "raft \<Rightarrow> bool" where
  "raft_pastElectionTimeout r \<longleftrightarrow> r_randomizedElectionTimeout r \<le> r_electionElapsed r"

definition raft_abortLeaderTransfer :: "raft \<Rightarrow> raft" where
  "raft_abortLeaderTransfer r = r\<lparr>r_leadTransferee := PeerNone\<rparr>"

text \<open>The progress that \<open>reset\<close> puts in place of each tracked one.\<close>

definition raft_resetProgress :: "raft \<Rightarrow> PeerID \<Rightarrow> Progress \<Rightarrow> Progress" where
  "raft_resetProgress r i pr =
     \<lparr>pr_Match = (if i = r_id r then raftLog_lastIndex (r_raftLog r) else 0),
      pr_Next = raftLog_lastIndex (r_raftLog r) + 1, pr_SentCommit = 0, pr_MatchCommit = 0,
      pr_State = StateProbe, pr_PendingSnapshot = 0, pr_RecentActive = False,
      pr_MsgAppProbesPaused = False,
      pr_Inflights = NewInflights (r_maxInflight r) (r_maxInflightBytes r),
      pr_IsLearner = pr_IsLearner pr\<rparr>"

definition raft_reset :: "u64 \<Rightarrow> raft \<Rightarrow> raft go" where
  "raft_reset term r = do {
     r \<leftarrow> (if r_Term r \<noteq> term then do {
             raft_assertNotSupporting r;
             Some (r\<lparr>r_Term := term, r_Vote := PeerNone, r_lead := PeerNone, r_leadEpoch := 0\<rparr>)
           } else Some r);
     let r = r\<lparr>r_electionElapsed := 0, r_heartbeatElapsed := 0\<rparr>;
     let r = raft_resetRandomizedElectionTimeout r;
     let r = raft_abortLeaderTransfer r;
     let r = r\<lparr>r_electionTracker := ElectionTracker_ResetVotes (r_electionTracker r)\<rparr>;
     let r = r\<lparr>r_trk := (r_trk r)\<lparr>pt_progress :=
               fmmap_keys (raft_resetProgress r) (pt_progress (r_trk r))\<rparr>\<rparr>;
     Some (r\<lparr>r_pendingConfIndex := 0, r_uncommittedSize := 0\<rparr>)
   }"

definition raft_becomeFollower :: "u64 \<Rightarrow> PeerID \<Rightarrow> raft \<Rightarrow> raft go" where
  "raft_becomeFollower term lead r = do {
     let r = r\<lparr>r_step := Some stepFunc_Follower\<rparr>;
     r \<leftarrow> raft_reset term r;
     Some (r\<lparr>r_tick := Some tickFunc_Election, r_lead := lead, r_state := StateFollower\<rparr>)
   }"

definition raft_becomeCandidate :: "raft \<Rightarrow> raft go" where
  "raft_becomeCandidate r = do {
     assertTrue (r_state r \<noteq> StateLeader);
     let r = r\<lparr>r_step := Some stepFunc_Candidate\<rparr>;
     r \<leftarrow> raft_reset (r_Term r + 1) r;
     Some (r\<lparr>r_tick := Some tickFunc_Election, r_Vote := r_id r, r_state := StateCandidate\<rparr>)
   }"

definition raft_becomePreCandidate :: "raft \<Rightarrow> raft go" where
  "raft_becomePreCandidate r = do {
     assertTrue (r_state r \<noteq> StateLeader);
     raft_assertNotSupporting r;
     Some (r\<lparr>r_step := Some stepFunc_Candidate,
             r_electionTracker := ElectionTracker_ResetVotes (r_electionTracker r),
             r_tick := Some tickFunc_Election, r_lead := PeerNone, r_leadEpoch := 0,
             r_state := StatePreCandidate\<rparr>)
   }"

definition raft_becomeLeader :: "raft \<Rightarrow> raft go" where
  "raft_becomeLeader r = do {
     assertTrue (r_state r \<noteq> StateFollower);
     let r = r\<lparr>r_step := Some stepFunc_Leader\<rparr>;
     r \<leftarrow> raft_reset (r_Term r) r;
     let r = r\<lparr>r_tick := Some tickFunc_Heartbeat, r_lead := r_id r, r_state := StateLeader\<rparr>;
     pr \<leftarrow> get_progress r (r_id r);
     let pr = Progress_BecomeReplicate pr;
     let r = set_progress (r_id r) (pr\<lparr>pr_RecentActive := True\<rparr>) r;
     let r = r\<lparr>r_pendingConfIndex := raftLog_lastIndex (r_raftLog r)\<rparr>;
     (r, ok) \<leftarrow> raft_appendEntry [Entry_zero] r;
     assertTrue ok;
     Some r
   }"

definition raft_transferLeader :: "PeerID \<Rightarrow> raft \<Rightarrow> raft go" where
  "raft_transferLeader to r = do {
     assertTrue (r_state r = StateLeader);
     r \<leftarrow> raft_send (Message_zero\<lparr>m_To := to, m_Type := MsgTimeoutNow\<rparr>) r;
     raft_becomeFollower (r_Term r) (r_lead r) r
   }"

definition raft_testingStepDown :: "raft \<Rightarrow> (raft \<times> raft_error option) go" where
  "raft_testingStepDown r =
     (if r_lead r \<noteq> r_id r then Some (r, Some ErrNotLeader)
      else do {
        r \<leftarrow> raft_becomeFollower (r_Term r) (r_id r) r;
        Some (r, None)
      })"

section \<open>Campaigning\<close>

definition raft_promotable :: "raft \<Rightarrow> bool" where
  "raft_promotable r =
     (case get_progress r (r_id r) of
        None \<Rightarrow> False
      | Some pr \<Rightarrow> \<not> pr_IsLearner pr \<and> \<not> raftLog_hasNextOrInProgressSnapshot (r_raftLog r))"

definition is_conf_change :: "Entry \<Rightarrow> bool" where
  "is_conf_change e \<longleftrightarrow> e_Type e = EntryConfChange \<or> e_Type e = EntryConfChangeV2"

definition errBreak :: storage_error where
  "errBreak = ErrOther ''break''"

definition raft_hasUnappliedConfChanges :: "codec \<Rightarrow> raft \<Rightarrow> bool go" where
  "raft_hasUnappliedConfChanges cd r =
     (if rl_committed (r_raftLog r) \<le> rl_applied (r_raftLog r) then Some False
      else do {
        let lo = rl_applied (r_raftLog r) + 1;
        let hi = rl_committed (r_raftLog r) + 1;
        let pageSize = rl_maxApplyingEntsSize (r_raftLog r);
        (found, err) \<leftarrow> raftLog_scan cd (r_raftLog r) hi pageSize
          (\<lambda>ents found. Some (if list_ex is_conf_change ents then (True, Some errBreak) else (found, None)))
          lo False;
        assertTrue (err = None \<or> err = Some errBreak);
        Some found
      })"

text \<open>The body of the loop over the voters: the candidate's own vote is a response to
  itself, the others are asked.\<close>

definition raft_campaignSend :: "CampaignType \<Rightarrow> MessageType \<Rightarrow> u64 \<Rightarrow> PeerID \<Rightarrow> raft \<Rightarrow> raft go" where
  "raft_campaignSend t voteMsg term i r =
     (if i = r_id r then do {
       ty \<leftarrow> voteRespMsgType voteMsg;
       raft_send (Message_zero\<lparr>m_To := i, m_Term := term, m_Type := ty\<rparr>) r
     } else do {
       lst \<leftarrow> raftLog_lastEntryID (r_raftLog r);
       let ctx = (if t = campaignTransfer then t else []);
       raft_send (Message_zero\<lparr>m_To := i, m_Term := term, m_Type := voteMsg,
         m_Index := id_index lst, m_LogTerm := id_term lst, m_Context := ctx\<rparr>) r
     })"

definition raft_campaign :: "CampaignType \<Rightarrow> raft \<Rightarrow> raft go" where
  "raft_campaign t r = do {
     (r, voteMsg, term) \<leftarrow>
       (if t = campaignPreElection then do {
          r \<leftarrow> raft_becomePreCandidate r;
          Some (r, MsgPreVote, r_Term r + 1)
        } else do {
          r \<leftarrow> raft_becomeCandidate r;
          Some (r, MsgVote, r_Term r)
        });
     foldM (raft_campaignSend t voteMsg term)
       (sorted_list_of_fset (JointConfig_IDs (c_Voters (r_config r)))) r
   }"

definition raft_hup :: "codec \<Rightarrow> CampaignType \<Rightarrow> raft \<Rightarrow> raft go" where
  "raft_hup cd t r =
     (if r_state r = StateLeader then Some r
      else if \<not> raft_promotable r then Some r
      else do {
        sup \<leftarrow> raft_supportingFortifiedLeader r;
        if sup \<and> r_lead r \<noteq> r_id r then Some r
        else do {
          unapplied \<leftarrow> raft_hasUnappliedConfChanges cd r;
          if unapplied then Some r else raft_campaign t r
        }
      })"

definition raft_poll :: "PeerID \<Rightarrow> bool \<Rightarrow> raft \<Rightarrow> raft \<times> VoteResult" where
  "raft_poll i v r =
     (let r = r\<lparr>r_electionTracker := ElectionTracker_RecordVote i v (r_electionTracker r)\<rparr>
      in (r, snd (snd (ElectionTracker_TallyVotes (r_config r) (r_electionTracker r)))))"

section \<open>Configurations\<close>

definition raft_switchToConfig :: "codec \<Rightarrow> Config \<Rightarrow> ProgressMap \<Rightarrow> raft \<Rightarrow> (raft \<times> ConfState) go" where
  "raft_switchToConfig cd cfg progressMap r = do {
     let r = r\<lparr>r_config := cfg, r_trk := MakeProgressTracker progressMap\<rparr>;
     let cs = Config_ConfState (r_config r);
     let pr = get_progress r (r_id r);
     let r = r\<lparr>r_isLearner := (case pr of None \<Rightarrow> False | Some p \<Rightarrow> pr_IsLearner p)\<rparr>;
     if (pr = None \<or> r_isLearner r) \<and> r_state r = StateLeader then
       if r_stepDownOnRemoval r then do {
         r \<leftarrow> raft_becomeFollower (r_Term r) (r_lead r) r;
         Some (r, cs)
       } else Some (r, cs)
     else if r_state r \<noteq> StateLeader \<or> length (cs_Voters cs) = 0 then Some (r, cs)
     else do {
       (r, _) \<leftarrow> raft_maybeCommit r;
       r \<leftarrow> raft_bcastAppend cd r;
       let tOK = r_leadTransferee r |\<in>| JointConfig_IDs (c_Voters (r_config r));
       Some (if \<not> tOK \<and> r_leadTransferee r \<noteq> 0 then raft_abortLeaderTransfer r else r, cs)
     }
   }"

text \<open>A changer on the configuration of the node.\<close>

definition raft_changer :: "Config \<Rightarrow> ProgressMap \<Rightarrow> raft \<Rightarrow> Changer" where
  "raft_changer cfg progressMap r =
     \<lparr>chg_Config = cfg, chg_ProgressMap = progressMap, chg_MaxInflight = r_maxInflight r,
      chg_MaxInflightBytes = r_maxInflightBytes r, chg_LastIndex = raftLog_lastIndex (r_raftLog r)\<rparr>"

definition raft_applyConfChange :: "codec \<Rightarrow> ConfChangeV2 \<Rightarrow> raft \<Rightarrow> (raft \<times> ConfState) go" where
  "raft_applyConfChange cd cc r = do {
     let (progressMap, trk) = ProgressTracker_MoveProgressMap (r_trk r);
     let r = r\<lparr>r_trk := trk\<rparr>;
     let changer = raft_changer (r_config r) progressMap r;
     res \<leftarrow> (if ConfChangeV2_LeaveJoint cc then Changer_LeaveJoint changer
             else do {
               (autoLeave, ok) \<leftarrow> ConfChangeV2_EnterJoint cc;
               if ok then Changer_EnterJoint changer autoLeave (cc2_Changes cc)
               else Changer_Simple changer (cc2_Changes cc)
             });
     case res of
       Inl _ \<Rightarrow> None
     | Inr (cfg, progressMap) \<Rightarrow> raft_switchToConfig cd cfg progressMap r
   }"

text \<open>Restoring a configuration from a \<open>ConfState\<close>, as \<open>restore\<close> and \<open>newRaft\<close> do.\<close>

definition raft_restoreConfig :: "codec \<Rightarrow> ConfState \<Rightarrow> raft \<Rightarrow> raft go" where
  "raft_restoreConfig cd cs r = do {
     res \<leftarrow> Restore (raft_changer MakeEmptyConfig fmempty r) cs;
     case res of
       Inl _ \<Rightarrow> None
     | Inr (cfg, progressMap) \<Rightarrow> do {
         (r, cs') \<leftarrow> raft_switchToConfig cd cfg progressMap r;
         assertTrue (ConfState_Equivalent cs cs');
         Some r
       }
   }"

definition raft_restore :: "codec \<Rightarrow> snapshot \<Rightarrow> raft \<Rightarrow> (raft \<times> bool) go" where
  "raft_restore cd s r = do {
     let i = snapshot_lastEntryID s;
     if id_index i \<le> rl_committed (r_raftLog r) then Some (r, False)
     else do {
       assertTrue (r_state r = StateFollower);
       let cs = sm_ConfState (s_Metadata (sn_snap s));
       let found = (r_id r \<in> set (cs_Voters cs) \<or> r_id r \<in> set (cs_Learners cs) \<or>
                    r_id r \<in> set (cs_VotersOutgoing cs));
       if \<not> found then Some (r, False)
       else do {
         known \<leftarrow> raftLog_matchTerm (r_raftLog r) i;
         if known then do {
           _ \<leftarrow> raftLog_lastEntryID (r_raftLog r);
           l \<leftarrow> raftLog_commitTo (snapshot_mark s) (r_raftLog r);
           Some (r\<lparr>r_raftLog := l\<rparr>, False)
         } else do {
           let (l, ok) = raftLog_restore s (r_raftLog r);
           let r = r\<lparr>r_raftLog := l\<rparr>;
           if \<not> ok then Some (r, False)
           else do {
             r \<leftarrow> raft_restoreConfig cd cs r;
             _ \<leftarrow> raftLog_lastEntryID (r_raftLog r);
             Some (r, True)
           }
         }
       }
     }
   }"

section \<open>Creating a node\<close>

definition raft_loadState :: "HardState \<Rightarrow> raft \<Rightarrow> raft go" where
  "raft_loadState state r = do {
     assertTrue (\<not> (hs_Commit state < rl_committed (r_raftLog r) \<or>
       raftLog_lastIndex (r_raftLog r) < hs_Commit state));
     Some (r\<lparr>r_raftLog := (r_raftLog r)\<lparr>rl_committed := hs_Commit state\<rparr>, r_Term := hs_Term state,
             r_Vote := hs_Vote state, r_lead := hs_Lead state, r_leadEpoch := hs_LeadEpoch state\<rparr>)
   }"

definition raft_init :: "RaftConfig \<Rightarrow> raftLog \<Rightarrow> raft" where
  "raft_init c l =
     \<lparr>r_id = rc_ID c, r_Term = 0, r_Vote = PeerNone, r_raftLog = l, r_maxMsgSize = rc_MaxSizePerMsg c,
      r_maxUncommittedSize = rc_MaxUncommittedEntriesSize c, r_config = \<lparr>c_Voters = (None, None), c_AutoLeave = False, c_Learners = None, c_LearnersNext = None\<rparr>,
      r_trk = MakeProgressTracker fmempty, r_electionTracker = MakeVoteTracker,
      r_state = StateFollower, r_isLearner = False, r_msgs = [], r_msgsAfterAppend = [],
      r_lead = PeerNone, r_leadEpoch = 0, r_leadTransferee = PeerNone, r_pendingConfIndex = 0,
      r_disableConfChangeValidation = rc_DisableConfChangeValidation c, r_uncommittedSize = 0,
      r_electionElapsed = 0, r_heartbeatElapsed = 0, r_maxInflight = nat (rc_MaxInflightMsgs c),
      r_maxInflightBytes = rc_MaxInflightBytes c, r_checkQuorum = rc_CheckQuorum c,
      r_preVote = rc_PreVote c, r_heartbeatTimeout = rc_HeartbeatTick c,
      r_electionTimeout = rc_ElectionTick c, r_randomizedElectionTimeout = 0,
      r_disableProposalForwarding = rc_DisableProposalForwarding c,
      r_stepDownOnRemoval = rc_StepDownOnRemoval c, r_tick = None, r_step = None,
      r_storeLiveness = rc_StoreLiveness c, r_crdbVersion = rc_CRDBVersion c, r_intn = rc_Intn c,
      r_draws = 0\<rparr>"

definition newRaft :: "codec \<Rightarrow> RaftConfig \<Rightarrow> raft go" where
  "newRaft cd c =
     (case RaftConfig_validate c of
        Inl _ \<Rightarrow> None
      | Inr c \<Rightarrow> do {
          st \<leftarrow> rc_Storage c;
          raftlog \<leftarrow> newLogWithSize st (rc_MaxCommittedSizePerReady c);
          case st_InitialState st of
            Inl _ \<Rightarrow> None
          | Inr (hs, cs) \<Rightarrow> do {
              let r = raft_init c raftlog;
              _ \<leftarrow> raftLog_lastEntryID (r_raftLog r);
              r \<leftarrow> raft_restoreConfig cd cs r;
              r \<leftarrow> (if \<not> IsEmptyHardState hs then raft_loadState hs r else Some r);
              r \<leftarrow> (if 0 < rc_Applied c then do {
                      l \<leftarrow> raftLog_appliedTo (rc_Applied c) 0 (r_raftLog r);
                      Some (r\<lparr>r_raftLog := l\<rparr>)
                    } else Some r);
              raft_becomeFollower (r_Term r) (r_lead r) r
            }
        })"

end
