(* ===== verification/Raft_Step.thy ===== *)
theory Raft_Step
  imports Raft_Roles
begin

text \<open>
  Handling messages, \<open>raft.go\<close>: one definition per message handler, the three step
  functions composed of them, \<open>Step\<close> itself and the ticks. A step returns the changed
  node and the error, if any; the node keeps its changes when there is an error.
\<close>

type_synonym step_result = "(raft \<times> raft_error option) go"

text \<open>A handler without an error result.\<close>

definition no_error :: "raft go \<Rightarrow> step_result" where
  "no_error m = do { r \<leftarrow> m; Some (r, None) }"

section \<open>Handlers of a follower\<close>

definition logSliceFromMsgApp :: "Message \<Rightarrow> logSlice" where
  "logSliceFromMsgApp m =
     \<lparr>ls_term = m_Term m, ls_prev = \<lparr>id_term = m_LogTerm m, id_index = m_Index m\<rparr>, ls_entries = m_Entries m\<rparr>"

definition raft_checkMatch :: "u64 \<Rightarrow> raft \<Rightarrow> unit go" where
  "raft_checkMatch mtch r = assertTrue (\<not> raftLog_lastIndex (r_raftLog r) < mtch)"

definition raft_handleAppendEntries :: "Message \<Rightarrow> raft \<Rightarrow> raft go" where
  "raft_handleAppendEntries m r = do {
     raft_checkMatch (m_Match m) r;
     let a = logSliceFromMsgApp m;
     if \<not> logSlice_valid a then Some r
     else if id_index (ls_prev a) < rl_committed (r_raftLog r) then
       raft_send (Message_zero\<lparr>m_To := m_From m, m_Type := MsgAppResp,
         m_Index := rl_committed (r_raftLog r), m_Commit := rl_committed (r_raftLog r)\<rparr>) r
     else do {
       (l, ok) \<leftarrow> raftLog_maybeAppend a (r_raftLog r);
       let r = r\<lparr>r_raftLog := l\<rparr>;
       if ok then do {
         let lastIndex = logSlice_lastIndex a;
         l \<leftarrow> raftLog_commitTo \<lparr>lm_Term = m_Term m, lm_Index = min (m_Commit m) lastIndex\<rparr> (r_raftLog r);
         let r = r\<lparr>r_raftLog := l\<rparr>;
         raft_send (Message_zero\<lparr>m_To := m_From m, m_Type := MsgAppResp, m_Index := lastIndex,
           m_Commit := rl_committed (r_raftLog r)\<rparr>) r
       } else do {
         t \<leftarrow> raftLog_term (r_raftLog r) (m_Index m);
         _ \<leftarrow> raftLog_zeroTermOnOutOfBounds t;
         let hintIndex = min (m_Index m) (raftLog_lastIndex (r_raftLog r));
         (hintIndex, hintTerm) \<leftarrow> raftLog_findConflictByTerm (r_raftLog r) hintIndex (m_LogTerm m);
         raft_send (Message_zero\<lparr>m_To := m_From m, m_Type := MsgAppResp, m_Index := m_Index m,
           m_Commit := rl_committed (r_raftLog r), m_Reject := True, m_RejectHint := hintIndex,
           m_LogTerm := hintTerm\<rparr>) r
       }
     }
   }"

definition raft_handleHeartbeat :: "Message \<Rightarrow> raft \<Rightarrow> raft go" where
  "raft_handleHeartbeat m r = do {
     raft_checkMatch (m_Match m) r;
     let mark = \<lparr>lm_Term = m_Term m, lm_Index = min (m_Commit m) (raftLog_lastIndex (r_raftLog r))\<rparr>;
     l \<leftarrow> (if lm_Term mark = raftLog_accTerm (r_raftLog r)
           then raftLog_commitTo mark (r_raftLog r) else Some (r_raftLog r));
     raft_send (Message_zero\<lparr>m_To := m_From m, m_Type := MsgHeartbeatResp\<rparr>) (r\<lparr>r_raftLog := l\<rparr>)
   }"

definition raft_handleSnapshot :: "codec \<Rightarrow> Message \<Rightarrow> raft \<Rightarrow> raft go" where
  "raft_handleSnapshot cd m r = do {
     let s = \<lparr>sn_term = m_Term m,
              sn_snap = (case m_Snapshot m of Some snap \<Rightarrow> snap | None \<Rightarrow> Snapshot_zero)\<rparr>;
     if \<not> snapshot_valid s then Some r
     else do {
       (r, ok) \<leftarrow> raft_restore cd s r;
       if ok
       then raft_send (Message_zero\<lparr>m_To := m_From m, m_Type := MsgAppResp,
              m_Index := raftLog_lastIndex (r_raftLog r), m_Commit := rl_committed (r_raftLog r)\<rparr>) r
       else raft_send (Message_zero\<lparr>m_To := m_From m, m_Type := MsgAppResp,
              m_Index := rl_committed (r_raftLog r), m_Commit := rl_committed (r_raftLog r)\<rparr>) r
     }
   }"

definition raft_handleFortify :: "Message \<Rightarrow> raft \<Rightarrow> raft go" where
  "raft_handleFortify m r = do {
     assertTrue (r_state r = StateFollower);
     assertTrue (r_lead r = m_From m);
     (epoch, live) \<leftarrow> sl_SupportFor (r_storeLiveness r) (r_lead r);
     if \<not> live
     then raft_send (Message_zero\<lparr>m_To := m_From m, m_Type := MsgFortifyLeaderResp, m_Reject := True\<rparr>) r
     else raft_send (Message_zero\<lparr>m_To := m_From m, m_Type := MsgFortifyLeaderResp, m_LeadEpoch := epoch\<rparr>)
            (r\<lparr>r_leadEpoch := epoch\<rparr>)
   }"

definition raft_handleFortifyResp :: "Message \<Rightarrow> raft \<Rightarrow> unit go" where
  "raft_handleFortifyResp m r = assertTrue (r_state r = StateLeader)"

text \<open>What a follower does first with a message of the leader of its term.\<close>

definition raft_heardFromLeader :: "Message \<Rightarrow> raft \<Rightarrow> raft" where
  "raft_heardFromLeader m r = r\<lparr>r_electionElapsed := 0, r_lead := m_From m\<rparr>"

definition stepFollower :: "codec \<Rightarrow> Message \<Rightarrow> raft \<Rightarrow> step_result" where
  "stepFollower cd m r =
     (case m_Type m of
        MsgProp \<Rightarrow>
          if r_lead r = PeerNone then Some (r, Some ErrProposalDropped)
          else if r_disableProposalForwarding r then Some (r, Some ErrProposalDropped)
          else if r_lead r = r_id r then Some (r, Some ErrProposalDropped)
          else no_error (raft_send (m\<lparr>m_To := r_lead r\<rparr>) r)
      | MsgApp \<Rightarrow> no_error (raft_handleAppendEntries m (raft_heardFromLeader m r))
      | MsgHeartbeat \<Rightarrow> no_error (raft_handleHeartbeat m (raft_heardFromLeader m r))
      | MsgSnap \<Rightarrow> no_error (raft_handleSnapshot cd m (raft_heardFromLeader m r))
      | MsgFortifyLeader \<Rightarrow> no_error (raft_handleFortify m (raft_heardFromLeader m r))
      | MsgTransferLeader \<Rightarrow>
          if r_lead r = PeerNone then Some (r, None)
          else if r_lead r = r_id r then Some (r, None)
          else no_error (raft_send (m\<lparr>m_To := r_lead r\<rparr>) r)
      | MsgForgetLeader \<Rightarrow>
          if r_lead r = PeerNone then Some (r, None)
          else do {
            sup \<leftarrow> raft_supportingFortifiedLeader r;
            Some (if sup \<and> r_lead r \<noteq> m_From m then r
                  else r\<lparr>r_lead := PeerNone, r_leadEpoch := 0\<rparr>, None)
          }
      | MsgTimeoutNow \<Rightarrow> no_error (raft_hup cd campaignTransfer (r\<lparr>r_leadEpoch := 0\<rparr>))
      | _ \<Rightarrow> Some (r, None))"

section \<open>Handlers of a candidate\<close>

definition raft_handleVoteResp :: "codec \<Rightarrow> Message \<Rightarrow> raft \<Rightarrow> raft go" where
  "raft_handleVoteResp cd m r =
     (case raft_poll (m_From m) (\<not> m_Reject m) r of (r, res) \<Rightarrow>
       (case res of
          VoteWon \<Rightarrow>
            if r_state r = StatePreCandidate then raft_campaign campaignElection r
            else do {
              r \<leftarrow> raft_becomeLeader r;
              r \<leftarrow> raft_bcastFortify r;
              raft_bcastAppend cd r
            }
        | VoteLost \<Rightarrow> raft_becomeFollower (r_Term r) (r_lead r) r
        | VotePending \<Rightarrow> Some r))"

definition stepCandidate :: "codec \<Rightarrow> Message \<Rightarrow> raft \<Rightarrow> step_result" where
  "stepCandidate cd m r =
     (let myVoteRespType = (if r_state r = StatePreCandidate then MsgPreVoteResp else MsgVoteResp) in
      case m_Type m of
        MsgProp \<Rightarrow> Some (r, Some ErrProposalDropped)
      | MsgApp \<Rightarrow> no_error (do {
          r \<leftarrow> raft_becomeFollower (m_Term m) (m_From m) r;
          raft_handleAppendEntries m r })
      | MsgHeartbeat \<Rightarrow> no_error (do {
          r \<leftarrow> raft_becomeFollower (m_Term m) (m_From m) r;
          raft_handleHeartbeat m r })
      | MsgSnap \<Rightarrow> no_error (do {
          r \<leftarrow> raft_becomeFollower (m_Term m) (m_From m) r;
          raft_handleSnapshot cd m r })
      | MsgFortifyLeader \<Rightarrow> no_error (do {
          r \<leftarrow> raft_becomeFollower (m_Term m) (m_From m) r;
          raft_handleFortify m r })
      | ty \<Rightarrow> if ty = myVoteRespType then no_error (raft_handleVoteResp cd m r) else Some (r, None))"

section \<open>Handlers of a leader\<close>

definition raft_stepCheckQuorum :: "raft \<Rightarrow> raft go" where
  "raft_stepCheckQuorum r = do {
     active \<leftarrow> ProgressTracker_QuorumActive (r_config r) (r_trk r);
     r \<leftarrow> (if \<not> active then raft_becomeFollower (r_Term r) (r_id r) r else Some r);
     Some (r\<lparr>r_trk := (r_trk r)\<lparr>pt_progress :=
       fmmap_keys (\<lambda>i pr. if i \<noteq> r_id r then pr\<lparr>pr_RecentActive := False\<rparr> else pr)
         (pt_progress (r_trk r))\<rparr>\<rparr>)
   }"

text \<open>The configuration change in an entry, if it is one; a malformed one panics.\<close>

definition entry_conf_change :: "codec \<Rightarrow> Entry \<Rightarrow> ConfChangeI option go" where
  "entry_conf_change cd e =
     (case e_Type e of
        EntryConfChange \<Rightarrow> do { ccc \<leftarrow> ConfChange_Unmarshal cd (e_Data e); Some (Some (CCV1 ccc)) }
      | EntryConfChangeV2 \<Rightarrow> do { ccc \<leftarrow> ConfChangeV2_Unmarshal cd (e_Data e); Some (Some (CCV2 ccc)) }
      | EntryNormal \<Rightarrow> Some None)"

text \<open>
  What becomes of the \<open>i\<close>-th proposed entry when it is a configuration change: it is
  replaced by an empty entry when another change is pending or the validation fails.
\<close>

definition raft_checkConfChange :: "nat \<Rightarrow> ConfChangeI \<Rightarrow> Entry \<Rightarrow> raft \<Rightarrow> raft \<times> Entry" where
  "raft_checkConfChange i cc e r =
     (let alreadyPending = rl_applied (r_raftLog r) < r_pendingConfIndex r;
          alreadyJoint = 0 < map_len (snd (c_Voters (r_config r)));
          wantsLeaveJoint = length (cc2_Changes (ConfChangeI_AsV2 cc)) = 0;
          failedCheck = (alreadyPending \<or> alreadyJoint \<and> \<not> wantsLeaveJoint \<or>
                         \<not> alreadyJoint \<and> wantsLeaveJoint)
      in if alreadyPending \<or> failedCheck \<and> \<not> r_disableConfChangeValidation r
         then (r, Entry_zero\<lparr>e_Type := EntryNormal\<rparr>)
         else (r\<lparr>r_pendingConfIndex := raftLog_lastIndex (r_raftLog r) + of_nat i + 1\<rparr>, e))"

text \<open>The loop over the proposed entries, from offset \<open>i\<close> on.\<close>

fun raft_filterConfChanges :: "codec \<Rightarrow> nat \<Rightarrow> Entry list \<Rightarrow> raft \<Rightarrow> (raft \<times> Entry list) go" where
  "raft_filterConfChanges cd i [] r = Some (r, [])"
| "raft_filterConfChanges cd i (e # es) r = do {
     cc \<leftarrow> entry_conf_change cd e;
     let (r, e) = (case cc of None \<Rightarrow> (r, e) | Some cc \<Rightarrow> raft_checkConfChange i cc e r);
     (r, es) \<leftarrow> raft_filterConfChanges cd (Suc i) es r;
     Some (r, e # es)
   }"

definition raft_stepProp :: "codec \<Rightarrow> Message \<Rightarrow> raft \<Rightarrow> step_result" where
  "raft_stepProp cd m r = do {
     assertTrue (m_Entries m \<noteq> []);
     if get_progress r (r_id r) = None then Some (r, Some ErrProposalDropped)
     else if r_leadTransferee r \<noteq> PeerNone then Some (r, Some ErrProposalDropped)
     else do {
       (r, es) \<leftarrow> raft_filterConfChanges cd 0 (m_Entries m) r;
       (r, ok) \<leftarrow> raft_appendEntry es r;
       if \<not> ok then Some (r, Some ErrProposalDropped)
       else no_error (raft_bcastAppend cd r)
     }
   }"

definition raft_stepAppRespReject :: "codec \<Rightarrow> Message \<Rightarrow> Progress \<Rightarrow> raft \<Rightarrow> raft go" where
  "raft_stepAppRespReject cd m pr r = do {
     nextProbeIdx \<leftarrow> (if 0 < m_LogTerm m then do {
         (i, _) \<leftarrow> raftLog_findConflictByTerm (r_raftLog r) (m_RejectHint m) (m_LogTerm m);
         Some i
       } else Some (m_RejectHint m));
     let (pr, decr) = Progress_MaybeDecrTo (m_Index m) nextProbeIdx pr;
     let r = set_progress (m_From m) pr r;
     if decr then do {
       let r = (if pr_State pr = StateReplicate
                then set_progress (m_From m) (Progress_BecomeProbe pr) r else r);
       (r, _) \<leftarrow> raft_maybeSendAppend cd (m_From m) r;
       Some r
     } else Some r
   }"

text \<open>The change of the progress state on an acknowledgement.\<close>

definition raft_ackProgress :: "Message \<Rightarrow> Progress \<Rightarrow> raft \<Rightarrow> Progress go" where
  "raft_ackProgress m pr r =
     (case pr_State pr of
        StateProbe \<Rightarrow> Some (Progress_BecomeReplicate pr)
      | StateSnapshot \<Rightarrow> do {
          fi \<leftarrow> raftLog_firstIndex (r_raftLog r);
          Some (if fi \<le> pr_Match pr + 1
                then Progress_BecomeReplicate (Progress_BecomeProbe pr) else pr)
        }
      | StateReplicate \<Rightarrow> do {
          ins \<leftarrow> Inflights_FreeLE (m_Index m) (pr_Inflights pr);
          Some (pr\<lparr>pr_Inflights := ins\<rparr>)
        })"

definition raft_stepAppRespAccept :: "codec \<Rightarrow> Message \<Rightarrow> Progress \<Rightarrow> raft \<Rightarrow> raft go" where
  "raft_stepAppRespAccept cd m pr r = do {
     let (pr, updated) = Progress_MaybeUpdate (m_Index m) pr;
     let r = set_progress (m_From m) pr r;
     if updated \<or> pr_Match pr = m_Index m \<and> pr_State pr = StateProbe then do {
       pr \<leftarrow> raft_ackProgress m pr r;
       let r = set_progress (m_From m) pr r;
       (r, committed) \<leftarrow> raft_maybeCommit r;
       r \<leftarrow> (if committed then raft_bcastAppend cd r else Some r);
       r \<leftarrow> (if r_id r \<noteq> m_From m then raft_sendAppends cd (m_From m) r else Some r);
       pr \<leftarrow> get_progress r (m_From m);
       if m_From m = r_leadTransferee r \<and> pr_Match pr = raftLog_lastIndex (r_raftLog r)
       then raft_transferLeader (m_From m) r
       else Some r
     } else Some r
   }"

definition raft_stepAppResp :: "codec \<Rightarrow> Message \<Rightarrow> Progress \<Rightarrow> raft \<Rightarrow> raft go" where
  "raft_stepAppResp cd m pr r = do {
     let pr = Progress_MaybeUpdateMatchCommit (m_Commit m) (pr\<lparr>pr_RecentActive := True\<rparr>);
     let r = set_progress (m_From m) pr r;
     if m_Reject m then raft_stepAppRespReject cd m pr r
     else raft_stepAppRespAccept cd m pr r
   }"

definition raft_stepHeartbeatResp :: "codec \<Rightarrow> Message \<Rightarrow> Progress \<Rightarrow> raft \<Rightarrow> raft go" where
  "raft_stepHeartbeatResp cd m pr r = do {
     let r = set_progress (m_From m) (pr\<lparr>pr_RecentActive := True, pr_MsgAppProbesPaused := False\<rparr>) r;
     (r, _) \<leftarrow> raft_maybeSendAppend cd (m_From m) r;
     Some r
   }"

definition raft_stepSnapStatus :: "Message \<Rightarrow> Progress \<Rightarrow> raft \<Rightarrow> raft" where
  "raft_stepSnapStatus m pr r =
     (if pr_State pr \<noteq> StateSnapshot then r
      else
        let pr = (if \<not> m_Reject m then Progress_BecomeProbe pr
                  else Progress_BecomeProbe (pr\<lparr>pr_PendingSnapshot := 0\<rparr>))
        in set_progress (m_From m) (pr\<lparr>pr_MsgAppProbesPaused := True\<rparr>) r)"

definition raft_stepUnreachable :: "Message \<Rightarrow> Progress \<Rightarrow> raft \<Rightarrow> raft" where
  "raft_stepUnreachable m pr r =
     (if pr_State pr = StateReplicate then set_progress (m_From m) (Progress_BecomeProbe pr) r else r)"

definition raft_stepTransferLeader :: "codec \<Rightarrow> Message \<Rightarrow> Progress \<Rightarrow> raft \<Rightarrow> raft go" where
  "raft_stepTransferLeader cd m pr r =
     (if pr_IsLearner pr then Some r
      else
        let leadTransferee = m_From m; lastLeadTransferee = r_leadTransferee r in
        if lastLeadTransferee \<noteq> PeerNone \<and> lastLeadTransferee = leadTransferee then Some r
        else
          let r = (if lastLeadTransferee \<noteq> PeerNone then raft_abortLeaderTransfer r else r) in
          if leadTransferee = r_id r then Some r
          else
            let r = r\<lparr>r_electionElapsed := 0, r_leadTransferee := leadTransferee\<rparr> in
            if pr_Match pr = raftLog_lastIndex (r_raftLog r) then raft_transferLeader leadTransferee r
            else do {
              let r = set_progress leadTransferee (pr\<lparr>pr_MsgAppProbesPaused := False\<rparr>) r;
              (r, _) \<leftarrow> raft_maybeSendAppend cd leadTransferee r;
              Some r
            })"

text \<open>The messages that need a progress for the sender.\<close>

definition stepLeader_progress :: "codec \<Rightarrow> Message \<Rightarrow> raft \<Rightarrow> raft go" where
  "stepLeader_progress cd m r =
     (case get_progress r (m_From m) of
        None \<Rightarrow> Some r
      | Some pr \<Rightarrow>
          (case m_Type m of
             MsgAppResp \<Rightarrow> raft_stepAppResp cd m pr r
           | MsgHeartbeatResp \<Rightarrow> raft_stepHeartbeatResp cd m pr r
           | MsgSnapStatus \<Rightarrow> Some (raft_stepSnapStatus m pr r)
           | MsgUnreachable \<Rightarrow> Some (raft_stepUnreachable m pr r)
           | MsgTransferLeader \<Rightarrow> raft_stepTransferLeader cd m pr r
           | _ \<Rightarrow> Some r))"

definition stepLeader :: "codec \<Rightarrow> Message \<Rightarrow> raft \<Rightarrow> step_result" where
  "stepLeader cd m r =
     (case m_Type m of
        MsgBeat \<Rightarrow> no_error (raft_bcastHeartbeat r)
      | MsgCheckQuorum \<Rightarrow> no_error (raft_stepCheckQuorum r)
      | MsgProp \<Rightarrow> raft_stepProp cd m r
      | MsgForgetLeader \<Rightarrow> Some (r, None)
      | MsgFortifyLeaderResp \<Rightarrow> do {
          raft_handleFortifyResp m r;
          no_error (stepLeader_progress cd m r)
        }
      | _ \<Rightarrow> no_error (stepLeader_progress cd m r))"

section \<open>Step\<close>

text \<open>\<open>r.step(r, m)\<close>\<close>

definition raft_step :: "codec \<Rightarrow> Message \<Rightarrow> raft \<Rightarrow> step_result" where
  "raft_step cd m r =
     (case r_step r of
        None \<Rightarrow> None
      | Some stepFunc_Leader \<Rightarrow> stepLeader cd m r
      | Some stepFunc_Candidate \<Rightarrow> stepCandidate cd m r
      | Some stepFunc_Follower \<Rightarrow> stepFollower cd m r)"

text \<open>
  A campaign of a higher term is ignored, unless it is a leader's transfer of the
  leadership, while the node has heard from a leader recently or supports a fortified one.
\<close>

definition raft_Step_checkLease :: "Message \<Rightarrow> raft \<Rightarrow> (raft \<times> bool) go" where
  "raft_Step_checkLease m r =
     (if m_Type m = MsgVote \<or> m_Type m = MsgPreVote then do {
        let force = (m_Context m = campaignTransfer);
        let inHeartbeatLease = (r_checkQuorum r \<and> r_lead r \<noteq> PeerNone \<and>
          r_electionElapsed r < r_electionTimeout r);
        sup \<leftarrow> raft_supportingFortifiedLeader r;
        let inFortifyLease = (sup \<and> r_lead r \<noteq> m_From m);
        if \<not> force \<and> (inHeartbeatLease \<or> inFortifyLease) then do {
          _ \<leftarrow> raftLog_lastEntryID (r_raftLog r);
          Some (r, False)
        } else do {
          r \<leftarrow> raft_deFortify (m_From m) (m_Term m) r;
          Some (r, True)
        }
      } else Some (r, True))"

text \<open>
  The switch on the term of a message. The boolean tells whether the message is to be
  handled further.
\<close>

definition raft_Step_higherTerm :: "Message \<Rightarrow> raft \<Rightarrow> (raft \<times> bool) go" where
  "raft_Step_higherTerm m r = do {
     (r, go_on) \<leftarrow> raft_Step_checkLease m r;
     if \<not> go_on then Some (r, False)
     else if m_Type m = MsgPreVote then Some (r, True)
     else if m_Type m = MsgPreVoteResp \<and> \<not> m_Reject m then Some (r, True)
     else if IsMsgFromLeader (m_Type m) then do {
       r \<leftarrow> raft_deFortify (m_From m) (m_Term m) r;
       r \<leftarrow> raft_becomeFollower (m_Term m) (m_From m) r;
       Some (r, True)
     } else do {
       r \<leftarrow> raft_becomeFollower (m_Term m) PeerNone r;
       Some (r, True)
     }
   }"

definition raft_Step_lowerTerm :: "Message \<Rightarrow> raft \<Rightarrow> raft go" where
  "raft_Step_lowerTerm m r =
     (if (r_checkQuorum r \<or> r_preVote r) \<and> (m_Type m = MsgHeartbeat \<or> m_Type m = MsgApp)
      then raft_send (Message_zero\<lparr>m_To := m_From m, m_Type := MsgAppResp\<rparr>) r
      else if m_Type m = MsgPreVote
      then do {
        _ \<leftarrow> raftLog_lastEntryID (r_raftLog r);
        raft_send (Message_zero\<lparr>m_To := m_From m, m_Term := r_Term r, m_Type := MsgPreVoteResp,
          m_Reject := True\<rparr>) r
      }
      else Some r)"

definition raft_Step_term :: "Message \<Rightarrow> raft \<Rightarrow> (raft \<times> bool) go" where
  "raft_Step_term m r =
     (if m_Term m = 0 then Some (r, True)
      else if r_Term r < m_Term m then raft_Step_higherTerm m r
      else if m_Term m < r_Term r then do {
        r \<leftarrow> raft_Step_lowerTerm m r;
        Some (r, False)
      } else Some (r, True))"

definition raft_Step_vote :: "Message \<Rightarrow> raft \<Rightarrow> raft go" where
  "raft_Step_vote m r = do {
     let canVote = (r_Vote r = m_From m \<or> r_Vote r = PeerNone \<and> r_lead r = PeerNone \<or>
       m_Type m = MsgPreVote \<and> r_Term r < m_Term m);
     _ \<leftarrow> raftLog_lastEntryID (r_raftLog r);
     let candLastID = \<lparr>id_term = m_LogTerm m, id_index = m_Index m\<rparr>;
     grant \<leftarrow> (if canVote then raftLog_isUpToDate (r_raftLog r) candLastID else Some False);
     ty \<leftarrow> voteRespMsgType (m_Type m);
     if grant then do {
       r \<leftarrow> raft_send (Message_zero\<lparr>m_To := m_From m, m_Term := m_Term m, m_Type := ty\<rparr>) r;
       Some (if m_Type m = MsgVote then r\<lparr>r_electionElapsed := 0, r_Vote := m_From m\<rparr> else r)
     } else raft_send (Message_zero\<lparr>m_To := m_From m, m_Term := r_Term r, m_Type := ty, m_Reject := True\<rparr>) r
   }"

text \<open>
  \<open>appliedTo\<close> proposes the end of a joint configuration through \<open>Step\<close>, which is its first
  argument here, and \<open>Step\<close> calls \<open>appliedTo\<close> for the acknowledgements of the storage
  threads. A proposal never gets back to \<open>appliedTo\<close>, so the recursion ends.
\<close>

definition raft_appliedTo ::
    "(Message \<Rightarrow> raft \<Rightarrow> step_result) \<Rightarrow> codec \<Rightarrow> u64 \<Rightarrow> u64 \<Rightarrow> raft \<Rightarrow> raft go" where
  "raft_appliedTo step cd index sz r = do {
     let oldApplied = rl_applied (r_raftLog r);
     let newApplied = max index oldApplied;
     l \<leftarrow> raftLog_appliedTo newApplied sz (r_raftLog r);
     let r = r\<lparr>r_raftLog := l\<rparr>;
     if c_AutoLeave (r_config r) \<and> r_pendingConfIndex r \<le> newApplied \<and> r_state r = StateLeader then
       (case confChangeToMsg cd None of
          None \<Rightarrow> None
        | Some m \<Rightarrow> do { (r, _) \<leftarrow> step m r; Some r })
     else Some r
   }"

definition raft_appliedSnap ::
    "(Message \<Rightarrow> raft \<Rightarrow> step_result) \<Rightarrow> codec \<Rightarrow> Snapshot \<Rightarrow> raft \<Rightarrow> raft go" where
  "raft_appliedSnap step cd snap r = do {
     let index = snap_index snap;
     let r = r\<lparr>r_raftLog := raftLog_stableSnapTo index (r_raftLog r)\<rparr>;
     raft_appliedTo step cd index 0 r
   }"

lemma confChangeToMsg_type: "confChangeToMsg cd c = Some m \<Longrightarrow> m_Type m = MsgProp"
  by (auto simp: confChangeToMsg_def split: option.splits)

lemma raft_appliedTo_cong [fundef_cong]:
  assumes "cd = cd'" and "i = i'" and "sz = sz'" and "r = r'"
    and "\<And>m r. m_Type m = MsgProp \<Longrightarrow> step m r = step' m r"
  shows "raft_appliedTo step cd i sz r = raft_appliedTo step' cd' i' sz' r'"
proof (cases "confChangeToMsg cd None")
  case (Some m)
  then have "step m = step' m" using assms(5) confChangeToMsg_type by blast
  with Some assms(1-4) show ?thesis by (simp add: raft_appliedTo_def Let_def cong: if_cong)
qed (use assms(1-4) in \<open>simp add: raft_appliedTo_def Let_def cong: if_cong\<close>)

lemma raft_appliedSnap_cong [fundef_cong]:
  assumes "cd = cd'" and "snap = snap'" and "r = r'"
    and "\<And>m r. m_Type m = MsgProp \<Longrightarrow> step m r = step' m r"
  shows "raft_appliedSnap step cd snap r = raft_appliedSnap step' cd' snap' r'"
  using assms unfolding raft_appliedSnap_def Let_def by (intro raft_appliedTo_cong) auto

function raft_Step :: "codec \<Rightarrow> Message \<Rightarrow> raft \<Rightarrow> step_result" where
  "raft_Step cd m r = do {
     (r, go_on) \<leftarrow> raft_Step_term m r;
     if \<not> go_on then Some (r, None)
     else if m_Type m = MsgHup then
       no_error (raft_hup cd (if r_preVote r then campaignPreElection else campaignElection) r)
     else if m_Type m = MsgStorageAppendResp then do {
       r \<leftarrow> (case m_Snapshot m of
              None \<Rightarrow> Some r
            | Some snap \<Rightarrow> raft_appliedSnap (raft_Step cd) cd snap r);
       if m_Index m \<noteq> 0 then do {
         l \<leftarrow> raftLog_stableTo \<lparr>lm_Term = m_LogTerm m, lm_Index = m_Index m\<rparr> (r_raftLog r);
         Some (r\<lparr>r_raftLog := l\<rparr>, None)
       } else Some (r, None)
     }
     else if m_Type m = MsgStorageApplyResp then
       if 0 < length (m_Entries m) then do {
         let index = e_Index (last (m_Entries m));
         r \<leftarrow> raft_appliedTo (raft_Step cd) cd index (entsSize cd (m_Entries m)) r;
         Some (raft_reduceUncommittedSize (payloadsSize (m_Entries m)) r, None)
       } else Some (r, None)
     else if m_Type m = MsgVote \<or> m_Type m = MsgPreVote then no_error (raft_Step_vote m r)
     else raft_step cd m r
   }"
  by pat_completeness auto

text \<open>Only an acknowledgement of a storage thread steps another message, a proposal.\<close>

termination
  by (relation "measure (\<lambda>(_, m, _). if m_Type m = MsgProp then 0 else 1)") auto

declare raft_Step.simps [simp del]

section \<open>Ticks\<close>

text \<open>
  A supported fortified leader ends the tick. When the support is gone the follower
  de-fortifies it, and skips the initial part of the election timeout.
\<close>

definition raft_tickSupport :: "raft \<Rightarrow> (raft \<times> bool) go" where
  "raft_tickSupport r =
     (if r_leadEpoch r \<noteq> 0 then do {
        sup \<leftarrow> raft_supportingFortifiedLeader r;
        if sup then Some (r\<lparr>r_electionElapsed := 0\<rparr>, False)
        else do {
          r \<leftarrow> raft_deFortify (r_id r) (r_Term r) r;
          Some (if r_electionElapsed r = 0
                then r\<lparr>r_electionElapsed := r_electionTimeout r - 1\<rparr> else r, True)
        }
      } else Some (r, True))"

definition raft_tickElection :: "codec \<Rightarrow> raft \<Rightarrow> raft go" where
  "raft_tickElection cd r = do {
     assertTrue (r_state r \<noteq> StateLeader);
     (r, go_on) \<leftarrow> raft_tickSupport r;
     if \<not> go_on then Some r
     else do {
       let r = r\<lparr>r_electionElapsed := r_electionElapsed r + 1\<rparr>;
       if raft_promotable r \<and> raft_pastElectionTimeout r then do {
         (r, _) \<leftarrow> raft_Step cd (Message_zero\<lparr>m_From := r_id r, m_Type := MsgHup\<rparr>) (r\<lparr>r_electionElapsed := 0\<rparr>);
         Some r
       } else Some r
     }
   }"

text \<open>What a leader does every election timeout; it may step down.\<close>

definition raft_tickCheckQuorum :: "codec \<Rightarrow> raft \<Rightarrow> (raft \<times> bool) go" where
  "raft_tickCheckQuorum cd r =
     (if r_electionTimeout r \<le> r_electionElapsed r then do {
        let r = r\<lparr>r_electionElapsed := 0\<rparr>;
        (r, go_on) \<leftarrow>
          (if r_checkQuorum r then do {
             (r, err) \<leftarrow> raft_Step cd (Message_zero\<lparr>m_From := r_id r, m_Type := MsgCheckQuorum\<rparr>) r;
             Some (r, err \<noteq> None \<or> r_state r = StateLeader)
           } else Some (r, True));
        Some (if go_on \<and> r_leadTransferee r \<noteq> PeerNone then raft_abortLeaderTransfer r else r, go_on)
      } else Some (r, True))"

definition raft_tickHeartbeat :: "codec \<Rightarrow> raft \<Rightarrow> raft go" where
  "raft_tickHeartbeat cd r = do {
     assertTrue (r_state r = StateLeader);
     let r = r\<lparr>r_heartbeatElapsed := r_heartbeatElapsed r + 1, r_electionElapsed := r_electionElapsed r + 1\<rparr>;
     (r, go_on) \<leftarrow> raft_tickCheckQuorum cd r;
     if \<not> go_on then Some r
     else if r_heartbeatTimeout r \<le> r_heartbeatElapsed r then do {
       (r, _) \<leftarrow> raft_Step cd (Message_zero\<lparr>m_From := r_id r, m_Type := MsgBeat\<rparr>) (r\<lparr>r_heartbeatElapsed := 0\<rparr>);
       Some r
     } else Some r
   }"

text \<open>\<open>r.tick()\<close>\<close>

definition raft_tick :: "codec \<Rightarrow> raft \<Rightarrow> raft go" where
  "raft_tick cd r =
     (case r_tick r of
        None \<Rightarrow> None
      | Some tickFunc_Election \<Rightarrow> raft_tickElection cd r
      | Some tickFunc_Heartbeat \<Rightarrow> raft_tickHeartbeat cd r)"

end
