(* ===== verification/Raw_Node.thy ===== *)
theory Raw_Node
  imports Raft_Step
begin

text \<open>
  The interface to the application, \<open>rawnode.go\<close> and the types of \<open>node.go\<close>: the node
  hands out a \<open>Ready\<close> with what is to be stored, applied and sent, and is told when
  that is done, by \<open>Advance\<close> or, with asynchronous storage writes, by messages.
\<close>

section \<open>Data\<close>

record SoftState =
  ss_RaftState :: StateType

definition SoftState_equal :: "SoftState \<Rightarrow> SoftState \<Rightarrow> bool" where
  "SoftState_equal a b \<longleftrightarrow> ss_RaftState a = ss_RaftState b"

definition raft_softState :: "raft \<Rightarrow> SoftState" where
  "raft_softState r = \<lparr>ss_RaftState = r_state r\<rparr>"

record Ready =
  rd_SoftState :: "SoftState option"
  rd_HardState :: HardState
  rd_Entries :: "Entry list"
  rd_Snapshot :: Snapshot
  rd_CommittedEntries :: "Entry list"
  rd_Messages :: "StorageMessage list"
  rd_MustSync :: bool

text \<open>A message with responses to be delivered after it is processed.\<close>

definition with_responses :: "Message \<Rightarrow> Message list \<Rightarrow> StorageMessage" where
  "with_responses m rs = Message.extend m (StorageMessage.fields rs)"

record RawNode =
  rn_raft :: raft
  rn_asyncStorageWrites :: bool
  rn_prevSoftSt :: SoftState
  rn_prevHardSt :: HardState
  rn_stepsOnAdvance :: "Message list"

datatype SnapshotStatus = SnapshotFinish | SnapshotFailure

section \<open>Driving the node\<close>

definition NewRawNode :: "codec \<Rightarrow> RaftConfig \<Rightarrow> RawNode go" where
  "NewRawNode cd config = do {
     r \<leftarrow> newRaft cd config;
     Some \<lparr>rn_raft = r, rn_asyncStorageWrites = rc_AsyncStorageWrites config,
       rn_prevSoftSt = raft_softState r, rn_prevHardSt = raft_hardState r, rn_stepsOnAdvance = []\<rparr>
   }"

text \<open>Passing a message to the node.\<close>

definition RawNode_raftStep :: "codec \<Rightarrow> Message \<Rightarrow> RawNode \<Rightarrow> (RawNode \<times> raft_error option) go" where
  "RawNode_raftStep cd m rn = do {
     (r, err) \<leftarrow> raft_Step cd m (rn_raft rn);
     Some (rn\<lparr>rn_raft := r\<rparr>, err)
   }"

definition RawNode_Tick :: "codec \<Rightarrow> RawNode \<Rightarrow> RawNode go" where
  "RawNode_Tick cd rn = do { r \<leftarrow> raft_tick cd (rn_raft rn); Some (rn\<lparr>rn_raft := r\<rparr>) }"

definition RawNode_Campaign :: "codec \<Rightarrow> RawNode \<Rightarrow> (RawNode \<times> raft_error option) go" where
  "RawNode_Campaign cd = RawNode_raftStep cd (Message_zero\<lparr>m_Type := MsgHup\<rparr>)"

definition RawNode_Propose :: "codec \<Rightarrow> bytes \<Rightarrow> RawNode \<Rightarrow> (RawNode \<times> raft_error option) go" where
  "RawNode_Propose cd data rn =
     RawNode_raftStep cd (Message_zero\<lparr>m_Type := MsgProp, m_From := r_id (rn_raft rn),
       m_Entries := [Entry_zero\<lparr>e_Data := data\<rparr>]\<rparr>) rn"

definition RawNode_ProposeConfChange ::
    "codec \<Rightarrow> ConfChangeI \<Rightarrow> RawNode \<Rightarrow> (RawNode \<times> raft_error option) go" where
  "RawNode_ProposeConfChange cd cc rn =
     (case confChangeToMsg cd (Some cc) of
        None \<Rightarrow> Some (rn, Some ErrMarshal)
      | Some m \<Rightarrow> RawNode_raftStep cd m rn)"

definition RawNode_ApplyConfChange :: "codec \<Rightarrow> ConfChangeI \<Rightarrow> RawNode \<Rightarrow> (RawNode \<times> ConfState) go" where
  "RawNode_ApplyConfChange cd cc rn = do {
     (r, cs) \<leftarrow> raft_applyConfChange cd (ConfChangeI_AsV2 cc) (rn_raft rn);
     Some (rn\<lparr>rn_raft := r\<rparr>, cs)
   }"

definition RawNode_Step :: "codec \<Rightarrow> Message \<Rightarrow> RawNode \<Rightarrow> (RawNode \<times> raft_error option) go" where
  "RawNode_Step cd m rn =
     (if IsLocalMsg (m_Type m) \<and> \<not> IsLocalMsgTarget (m_From m) then Some (rn, Some ErrStepLocalMsg)
      else if IsResponseMsg (m_Type m) \<and> \<not> IsLocalMsgTarget (m_From m) \<and>
        get_progress (rn_raft rn) (m_From m) = None then Some (rn, Some ErrStepPeerNotFound)
      else RawNode_raftStep cd m rn)"

definition RawNode_ReportUnreachable :: "codec \<Rightarrow> PeerID \<Rightarrow> RawNode \<Rightarrow> RawNode go" where
  "RawNode_ReportUnreachable cd i rn = do {
     (rn, _) \<leftarrow> RawNode_raftStep cd (Message_zero\<lparr>m_Type := MsgUnreachable, m_From := i\<rparr>) rn;
     Some rn
   }"

definition RawNode_ReportSnapshot :: "codec \<Rightarrow> PeerID \<Rightarrow> SnapshotStatus \<Rightarrow> RawNode \<Rightarrow> RawNode go" where
  "RawNode_ReportSnapshot cd i status rn = do {
     let rej = (status = SnapshotFailure);
     (rn, _) \<leftarrow> RawNode_raftStep cd (Message_zero\<lparr>m_Type := MsgSnapStatus, m_From := i, m_Reject := rej\<rparr>) rn;
     Some rn
   }"

definition RawNode_TransferLeader :: "codec \<Rightarrow> PeerID \<Rightarrow> RawNode \<Rightarrow> RawNode go" where
  "RawNode_TransferLeader cd transferee rn = do {
     (rn, _) \<leftarrow> RawNode_raftStep cd (Message_zero\<lparr>m_Type := MsgTransferLeader, m_From := transferee\<rparr>) rn;
     Some rn
   }"

definition RawNode_ForgetLeader :: "codec \<Rightarrow> RawNode \<Rightarrow> (RawNode \<times> raft_error option) go" where
  "RawNode_ForgetLeader cd = RawNode_raftStep cd (Message_zero\<lparr>m_Type := MsgForgetLeader\<rparr>)"

definition RawNode_TestingStepDown :: "RawNode \<Rightarrow> (RawNode \<times> raft_error option) go" where
  "RawNode_TestingStepDown rn = do {
     (r, err) \<leftarrow> raft_testingStepDown (rn_raft rn);
     Some (rn\<lparr>rn_raft := r\<rparr>, err)
   }"

definition RawNode_NextUnstableIndex :: "RawNode \<Rightarrow> u64" where
  "RawNode_NextUnstableIndex rn = u_entryInProgress (rl_unstable (r_raftLog (rn_raft rn))) + 1"

section \<open>Ready\<close>

definition MustSync :: "HardState \<Rightarrow> HardState \<Rightarrow> nat \<Rightarrow> bool" where
  "MustSync st prevst entsnum \<longleftrightarrow>
     entsnum \<noteq> 0 \<or> hs_Vote st \<noteq> hs_Vote prevst \<or> hs_Term st \<noteq> hs_Term prevst \<or>
     hs_Lead st \<noteq> hs_Lead prevst \<or> hs_LeadEpoch st \<noteq> hs_LeadEpoch prevst \<or>
     hs_Commit st \<noteq> hs_Commit prevst"

definition needStorageAppendMsg :: "raft \<Rightarrow> Ready \<Rightarrow> bool" where
  "needStorageAppendMsg r rd \<longleftrightarrow>
     0 < length (rd_Entries rd) \<or> \<not> IsEmptyHardState (rd_HardState rd) \<or>
     \<not> IsEmptySnap (rd_Snapshot rd) \<or> 0 < length (r_msgsAfterAppend r)"

definition needStorageAppendRespMsg :: "Ready \<Rightarrow> bool" where
  "needStorageAppendRespMsg rd \<longleftrightarrow> \<not> IsEmptySnap (rd_Snapshot rd) \<or> length (rd_Entries rd) \<noteq> 0"

definition newStorageAppendRespMsg :: "raft \<Rightarrow> Ready \<Rightarrow> Message" where
  "newStorageAppendRespMsg r rd =
     (let m = Message_zero\<lparr>m_Type := MsgStorageAppendResp, m_To := r_id r, m_From := LocalAppendThread\<rparr>;
          m = (if length (rd_Entries rd) \<noteq> 0
               then m\<lparr>m_LogTerm := raftLog_accTerm (r_raftLog r), m_Index := e_Index (last (rd_Entries rd))\<rparr>
               else m)
      in if \<not> IsEmptySnap (rd_Snapshot rd)
         then m\<lparr>m_Snapshot := Some (rd_Snapshot rd), m_LogTerm := raftLog_accTerm (r_raftLog r)\<rparr>
         else m)"

definition newStorageAppendMsg :: "raft \<Rightarrow> Ready \<Rightarrow> StorageMessage" where
  "newStorageAppendMsg r rd =
     (let m = Message_zero\<lparr>m_Type := MsgStorageAppend, m_To := LocalAppendThread, m_From := r_id r,
                m_Entries := rd_Entries rd\<rparr>;
          m = (if length (rd_Entries rd) \<noteq> 0
               then m\<lparr>m_LogTerm := raftLog_accTerm (r_raftLog r), m_Index := e_Index (last (rd_Entries rd))\<rparr>
               else m);
          m = (if \<not> IsEmptyHardState (rd_HardState rd)
               then m\<lparr>m_Term := hs_Term (rd_HardState rd), m_Vote := hs_Vote (rd_HardState rd),
                      m_Commit := hs_Commit (rd_HardState rd), m_Lead := hs_Lead (rd_HardState rd),
                      m_LeadEpoch := hs_LeadEpoch (rd_HardState rd)\<rparr>
               else m);
          m = (if \<not> IsEmptySnap (rd_Snapshot rd)
               then m\<lparr>m_Snapshot := Some (rd_Snapshot rd), m_LogTerm := raftLog_accTerm (r_raftLog r)\<rparr>
               else m);
          responses = r_msgsAfterAppend r @
            (if needStorageAppendRespMsg rd then [newStorageAppendRespMsg r rd] else [])
      in with_responses m responses)"

definition needStorageApplyMsg :: "Ready \<Rightarrow> bool" where
  "needStorageApplyMsg rd \<longleftrightarrow> 0 < length (rd_CommittedEntries rd)"

definition needStorageApplyRespMsg :: "Ready \<Rightarrow> bool" where
  "needStorageApplyRespMsg rd = needStorageApplyMsg rd"

definition newStorageApplyRespMsg :: "raft \<Rightarrow> Entry list \<Rightarrow> Message" where
  "newStorageApplyRespMsg r ents =
     Message_zero\<lparr>m_Type := MsgStorageApplyResp, m_To := r_id r, m_From := LocalApplyThread,
       m_Entries := ents\<rparr>"

definition newStorageApplyMsg :: "raft \<Rightarrow> Ready \<Rightarrow> StorageMessage" where
  "newStorageApplyMsg r rd =
     with_responses
       (Message_zero\<lparr>m_Type := MsgStorageApply, m_To := LocalApplyThread, m_From := r_id r,
          m_Entries := rd_CommittedEntries rd\<rparr>)
       [newStorageApplyRespMsg r (rd_CommittedEntries rd)]"

definition RawNode_applyUnstableEntries :: "RawNode \<Rightarrow> bool" where
  "RawNode_applyUnstableEntries rn \<longleftrightarrow> \<not> rn_asyncStorageWrites rn"

text \<open>The \<open>Ready\<close> with the messages to be sent at once.\<close>

definition RawNode_newReady :: "RawNode \<Rightarrow> Entry list \<Rightarrow> Entry list \<Rightarrow> Ready" where
  "RawNode_newReady rn entries committed =
     (let r = rn_raft rn; softSt = raft_softState r; hardSt = raft_hardState r in
      \<lparr>rd_SoftState = (if \<not> SoftState_equal softSt (rn_prevSoftSt rn) then Some softSt else None),
       rd_HardState = (if \<not> isHardStateEqual hardSt (rn_prevHardSt rn) then hardSt else HardState_zero),
       rd_Entries = entries,
       rd_Snapshot = (case raftLog_nextUnstableSnapshot (r_raftLog r) of
         Some snap \<Rightarrow> snap | None \<Rightarrow> Snapshot_zero),
       rd_CommittedEntries = committed,
       rd_Messages = map (\<lambda>m. with_responses m []) (r_msgs r),
       rd_MustSync = MustSync hardSt (rn_prevHardSt rn) (length entries)\<rparr>)"

text \<open>The messages to the storage threads that asynchronous writes add.\<close>

definition addStorageMsgs :: "raft \<Rightarrow> Ready \<Rightarrow> Ready" where
  "addStorageMsgs r rd =
     (let rd = (if needStorageAppendMsg r rd
                then rd\<lparr>rd_Messages := rd_Messages rd @ [newStorageAppendMsg r rd]\<rparr> else rd)
      in if needStorageApplyMsg rd
         then rd\<lparr>rd_Messages := rd_Messages rd @ [newStorageApplyMsg r rd]\<rparr> else rd)"

definition RawNode_readyWithoutAccept :: "codec \<Rightarrow> RawNode \<Rightarrow> Ready go" where
  "RawNode_readyWithoutAccept cd rn = do {
     let r = rn_raft rn;
     entries \<leftarrow> raftLog_nextUnstableEnts (r_raftLog r);
     committed \<leftarrow> raftLog_nextCommittedEnts cd (RawNode_applyUnstableEntries rn) (r_raftLog r);
     let rd = RawNode_newReady rn entries committed;
     Some (if rn_asyncStorageWrites rn then addStorageMsgs r rd
       else rd\<lparr>rd_Messages := rd_Messages rd @
         map (\<lambda>m. with_responses m []) (filter (\<lambda>m. m_To m \<noteq> r_id r) (r_msgsAfterAppend r))\<rparr>)
   }"

definition RawNode_acceptReady :: "codec \<Rightarrow> Ready \<Rightarrow> RawNode \<Rightarrow> RawNode go" where
  "RawNode_acceptReady cd rd rn = do {
     let rn = (case rd_SoftState rd of Some ss \<Rightarrow> rn\<lparr>rn_prevSoftSt := ss\<rparr> | None \<Rightarrow> rn);
     let rn = (if \<not> IsEmptyHardState (rd_HardState rd) then rn\<lparr>rn_prevHardSt := rd_HardState rd\<rparr> else rn);
     rn \<leftarrow> (if \<not> rn_asyncStorageWrites rn then do {
              assertTrue (rn_stepsOnAdvance rn = []);
              Some (rn\<lparr>rn_stepsOnAdvance :=
                filter (\<lambda>m. m_To m = r_id (rn_raft rn)) (r_msgsAfterAppend (rn_raft rn)) @
                (if needStorageAppendRespMsg rd then [newStorageAppendRespMsg (rn_raft rn) rd] else []) @
                (if needStorageApplyRespMsg rd
                 then [newStorageApplyRespMsg (rn_raft rn) (rd_CommittedEntries rd)] else [])\<rparr>)
            } else Some rn);
     let l = raftLog_acceptUnstable (r_raftLog (rn_raft rn));
     l \<leftarrow> (if 0 < length (rd_CommittedEntries rd)
           then raftLog_acceptApplying (e_Index (last (rd_CommittedEntries rd)))
                  (entsSize cd (rd_CommittedEntries rd)) (RawNode_applyUnstableEntries rn) l
           else Some l);
     Some (rn\<lparr>rn_raft := (rn_raft rn)\<lparr>r_msgs := [], r_msgsAfterAppend := [], r_raftLog := l\<rparr>\<rparr>)
   }"

definition RawNode_Ready :: "codec \<Rightarrow> RawNode \<Rightarrow> (RawNode \<times> Ready) go" where
  "RawNode_Ready cd rn = do {
     rd \<leftarrow> RawNode_readyWithoutAccept cd rn;
     rn \<leftarrow> RawNode_acceptReady cd rd rn;
     Some (rn, rd)
   }"

definition RawNode_HasReady :: "RawNode \<Rightarrow> bool go" where
  "RawNode_HasReady rn =
     (let r = rn_raft rn in
      if \<not> SoftState_equal (raft_softState r) (rn_prevSoftSt rn) then Some True
      else if \<not> IsEmptyHardState (raft_hardState r) \<and> \<not> isHardStateEqual (raft_hardState r) (rn_prevHardSt rn)
      then Some True
      else if raftLog_hasNextUnstableSnapshot (r_raftLog r) then Some True
      else if 0 < length (r_msgs r) \<or> 0 < length (r_msgsAfterAppend r) then Some True
      else do {
        ents \<leftarrow> raftLog_hasNextUnstableEnts (r_raftLog r);
        Some (ents \<or> raftLog_hasNextCommittedEnts (RawNode_applyUnstableEntries rn) (r_raftLog r))
      })"

definition RawNode_Advance :: "codec \<Rightarrow> RawNode \<Rightarrow> RawNode go" where
  "RawNode_Advance cd rn = do {
     assertTrue (\<not> rn_asyncStorageWrites rn);
     rn \<leftarrow> foldM (\<lambda>m rn. do { (rn, _) \<leftarrow> RawNode_raftStep cd m rn; Some rn }) (rn_stepsOnAdvance rn) rn;
     Some (rn\<lparr>rn_stepsOnAdvance := []\<rparr>)
   }"

end
