(* ===== verification/Log_Store.thy ===== *)
theory Log_Store
  imports Raw_Node
begin

text \<open>
  The storage append messages as the log store reads them,
  \<open>kv/kvserver/logstore/logstore.go\<close>. A write makes the hard state of the message
  durable, and hands out the responses once it has.
\<close>

type_synonym MsgStorageAppend = StorageMessage

type_synonym MsgStorageAppendDone = "Message list"

definition MakeMsgStorageAppend :: "StorageMessage \<Rightarrow> MsgStorageAppend go" where
  "MakeMsgStorageAppend m = do { assertTrue (m_Type m = MsgStorageAppend); Some m }"

definition MsgStorageAppend_HardState :: "MsgStorageAppend \<Rightarrow> HardState" where
  "MsgStorageAppend_HardState m =
     \<lparr>hs_Term = m_Term m, hs_Vote = m_Vote m, hs_Commit = m_Commit m, hs_Lead = m_Lead m,
      hs_LeadEpoch = m_LeadEpoch m\<rparr>"

definition MsgStorageAppend_MustSync :: "MsgStorageAppend \<Rightarrow> bool" where
  "MsgStorageAppend_MustSync m \<longleftrightarrow> length (m_Responses m) \<noteq> 0"

definition MsgStorageAppend_OnDone :: "MsgStorageAppend \<Rightarrow> MsgStorageAppendDone" where
  "MsgStorageAppend_OnDone m = m_Responses m"

definition MsgStorageAppendDone_Responses :: "MsgStorageAppendDone \<Rightarrow> Message list" where
  "MsgStorageAppendDone_Responses m = m"

definition MsgStorageAppendDone_Mark :: "MsgStorageAppendDone \<Rightarrow> LogMark" where
  "MsgStorageAppendDone_Mark m =
     (if length m = 0 then \<lparr>lm_Term = 0, lm_Index = 0\<rparr>
      else
        let msg = m ! (length m - 1) in
        if m_Type msg \<noteq> MsgStorageAppendResp then \<lparr>lm_Term = 0, lm_Index = 0\<rparr>
        else if length (m_Entries msg) \<noteq> 0 then \<lparr>lm_Term = m_LogTerm msg, lm_Index = m_Index msg\<rparr>
        else
          case m_Snapshot msg of
            Some snap \<Rightarrow> \<lparr>lm_Term = m_LogTerm msg, lm_Index = sm_Index (s_Metadata snap)\<rparr>
          | None \<Rightarrow> \<lparr>lm_Term = 0, lm_Index = 0\<rparr>)"

text \<open>What a write does to the hard state on disk.\<close>

definition LogStore_setHardState :: "MsgStorageAppend \<Rightarrow> HardState \<Rightarrow> HardState" where
  "LogStore_setHardState m old =
     (let hs = MsgStorageAppend_HardState m in if \<not> IsEmptyHardState hs then hs else old)"

section \<open>Splitting the messages of a Ready\<close>

text \<open>
  The replica takes the messages to its own storage threads off the end of the messages of
  a \<open>Ready\<close>, \<open>splitLocalStorageMsgs\<close> of \<open>kv/kvserver/replica_raft.go\<close>. The loop runs over
  the reversed slice here; two messages to the same thread panic.
\<close>

fun splitLocalStorageMsgs_loop ::
    "StorageMessage list \<Rightarrow> StorageMessage option \<Rightarrow> StorageMessage option \<Rightarrow>
     (StorageMessage list \<times> StorageMessage option \<times> StorageMessage option) go" where
  "splitLocalStorageMsgs_loop [] app apl = Some ([], app, apl)"
| "splitLocalStorageMsgs_loop (m # ms) app apl =
     (if m_Type m = MsgStorageAppend
      then if app \<noteq> None then None else splitLocalStorageMsgs_loop ms (Some m) apl
      else if m_Type m = MsgStorageApply
      then if apl \<noteq> None then None else splitLocalStorageMsgs_loop ms app (Some m)
      else Some (rev (m # ms), app, apl))"

definition splitLocalStorageMsgs ::
    "StorageMessage list \<Rightarrow> (StorageMessage list \<times> StorageMessage option \<times> StorageMessage option) go" where
  "splitLocalStorageMsgs msgs = splitLocalStorageMsgs_loop (rev msgs) None None"

lemma splitLocalStorageMsgs_loop_other:
  "list_all (\<lambda>m. m_Type m \<noteq> MsgStorageAppend \<and> m_Type m \<noteq> MsgStorageApply) ms \<Longrightarrow>
   splitLocalStorageMsgs_loop ms app apl = Some (rev ms, app, apl)"
  by (cases ms) auto

text \<open>What \<open>Ready\<close> hands out with asynchronous writes, by recipient.\<close>

lemma splitLocalStorageMsgs_parts:
  assumes "list_all (\<lambda>m. m_Type m \<noteq> MsgStorageAppend \<and> m_Type m \<noteq> MsgStorageApply) ms"
    and "\<And>m. app = Some m \<Longrightarrow> m_Type m = MsgStorageAppend" and "\<And>m. apl = Some m \<Longrightarrow> m_Type m = MsgStorageApply"
  shows "splitLocalStorageMsgs (ms @ (case app of Some m \<Rightarrow> [m] | None \<Rightarrow> []) @
    (case apl of Some m \<Rightarrow> [m] | None \<Rightarrow> [])) = Some (ms, app, apl)"
  using assms splitLocalStorageMsgs_loop_other [of "rev ms"]
  by (auto simp: splitLocalStorageMsgs_def split: option.splits)

end
