(* ===== verification/Raft_Votes.thy ===== *)
theory Raft_Votes
  imports Raft_Step
begin

text \<open>
  Elections. The part of a node's state that elections depend on is its \<open>voting\<close>
  state; \<open>vote_step\<close> is the abstract machine on it. Every message a node steps and every
  tick refines a sequence of steps of that machine, from which the single vote per term
  and, for a cluster of nodes, the single leader per term follow.
\<close>

section \<open>The abstract machine\<close>

text \<open>
  The steps are those of a node that handles the message \<open>m\<close>; a change of the
  configuration counts as handling a snapshot. Granted votes are kept as triples of voter, term and candidate. Those in
  \<open>v_granted\<close> wait for the vote to be durable; \<open>v_early\<close> are messages that should not go
  without waiting, of which there are none.
\<close>

type_synonym granted_vote = "PeerID \<times> u64 \<times> PeerID"

type_synonym role = "stepFunc option \<times> tickFunc option"

fun role_of :: "StateType \<Rightarrow> role" where
  "role_of StateFollower = (Some stepFunc_Follower, Some tickFunc_Election)"
| "role_of StateCandidate = (Some stepFunc_Candidate, Some tickFunc_Election)"
| "role_of StatePreCandidate = (Some stepFunc_Candidate, Some tickFunc_Election)"
| "role_of StateLeader = (Some stepFunc_Leader, Some tickFunc_Heartbeat)"

record voting =
  v_id :: PeerID
  v_term :: u64
  v_vote :: PeerID
  v_state :: StateType
  v_role :: role
  v_ballots :: "(PeerID, bool) fmap"
  v_voters :: JointConfig
  v_granted :: "granted_vote list"
  v_early :: "Message list"

definition is_grant :: "Message \<Rightarrow> bool" where
  "is_grant m \<longleftrightarrow> m_Type m = MsgVoteResp \<and> \<not> m_Reject m"

definition grant_of :: "Message \<Rightarrow> granted_vote" where
  "grant_of m = (m_From m, m_Term m, m_To m)"

text \<open>Messages that have no place among those sent at once.\<close>

definition stray :: "Message \<Rightarrow> bool" where
  "stray m \<longleftrightarrow> is_grant m \<or> m_Type m = MsgStorageAppend \<or> m_Type m = MsgStorageApply"

definition voting :: "raft \<Rightarrow> voting" where
  "voting r = \<lparr>v_id = r_id r, v_term = r_Term r, v_vote = r_Vote r, v_state = r_state r,
     v_role = (r_step r, r_tick r), v_ballots = et_votes (r_electionTracker r), v_voters = c_Voters (r_config r),
     v_granted = map grant_of (filter is_grant (r_msgsAfterAppend r)),
     v_early = filter stray (r_msgs r)\<rparr>"

definition add_ballot :: "PeerID \<Rightarrow> bool \<Rightarrow> (PeerID, bool) fmap \<Rightarrow> (PeerID, bool) fmap" where
  "add_ballot i b ballots = (if i |\<in>| fmdom ballots then ballots else fmupd i b ballots)"

inductive vote_step :: "Message \<Rightarrow> voting \<Rightarrow> voting \<Rightarrow> bool" for m where
  newTerm: "v_term v < t \<Longrightarrow>
    vote_step m v (v\<lparr>v_term := t, v_vote := PeerNone, v_state := StateFollower,
      v_role := role_of StateFollower, v_ballots := fmempty\<rparr>)"
| follow: "vote_step m v (v\<lparr>v_state := StateFollower, v_role := role_of StateFollower, v_ballots := fmempty\<rparr>)"
| preCampaign: "v_state v \<noteq> StateLeader \<Longrightarrow>
    vote_step m v (v\<lparr>v_state := StatePreCandidate, v_role := role_of StatePreCandidate, v_ballots := fmempty\<rparr>)"
| campaign: "v_state v \<noteq> StateLeader \<Longrightarrow> v_term v < MaxUint64 \<Longrightarrow>
    g = [] \<or> g = [(v_id v, v_term v + 1, v_id v)] \<Longrightarrow>
    vote_step m v (v\<lparr>v_term := v_term v + 1, v_vote := v_id v, v_state := StateCandidate,
      v_role := role_of StateCandidate, v_ballots := fmempty, v_granted := v_granted v @ g\<rparr>)"
| ballot: "v_state v \<noteq> StateLeader \<Longrightarrow>
    v_state v = StatePreCandidate \<or> m_Type m = MsgVoteResp \<and> (m_Term m = 0 \<or> m_Term m = v_term v) \<Longrightarrow>
    vote_step m v (v\<lparr>v_ballots := add_ballot (m_From m) (\<not> m_Reject m) (v_ballots v)\<rparr>)"
| elect: "m_Type m = MsgVoteResp \<Longrightarrow> v_state v = StateCandidate \<Longrightarrow> JointConfig_VoteResult (v_voters v) (v_ballots v) = VoteWon \<Longrightarrow>
    vote_step m v (v\<lparr>v_state := StateLeader, v_role := role_of StateLeader, v_ballots := fmempty\<rparr>)"
| grant: "m_Type m = MsgVote \<Longrightarrow> m_Term m \<noteq> 0 \<Longrightarrow> m_Term m = v_term v \<Longrightarrow> v_vote v = m_From m \<or> v_vote v = PeerNone \<Longrightarrow>
    vote_step m v (v\<lparr>v_vote := m_From m, v_granted := v_granted v @ [(v_id v, v_term v, m_From m)]\<rparr>)"
| reconfigure: "m_Type m = MsgSnap \<Longrightarrow> vote_step m v (v\<lparr>v_voters := c\<rparr>)"

inductive_cases vote_stepE: "vote_step m v v'"

abbreviation vote_steps :: "Message \<Rightarrow> voting \<Rightarrow> voting \<Rightarrow> bool" where
  "vote_steps m \<equiv> (vote_step m)\<^sup>*\<^sup>*"

section \<open>What leaves the voting state alone\<close>

lemma voting_updates [simp]:
  "voting (r\<lparr>r_raftLog := l\<rparr>) = voting r"
  "voting (r\<lparr>r_trk := t\<rparr>) = voting r"
  "voting (r\<lparr>r_isLearner := b\<rparr>) = voting r"
  "\<not> stray m \<Longrightarrow> voting (r\<lparr>r_msgs := r_msgs r @ [m]\<rparr>) = voting r"
  "voting (r\<lparr>r_lead := i\<rparr>) = voting r"
  "voting (r\<lparr>r_storeLiveness := sl\<rparr>) = voting r"
  "voting (r\<lparr>r_leadEpoch := e\<rparr>) = voting r"
  "voting (r\<lparr>r_leadTransferee := i\<rparr>) = voting r"
  "voting (r\<lparr>r_pendingConfIndex := n\<rparr>) = voting r"
  "voting (r\<lparr>r_uncommittedSize := n\<rparr>) = voting r"
  "voting (r\<lparr>r_electionElapsed := k\<rparr>) = voting r"
  "voting (r\<lparr>r_heartbeatElapsed := k\<rparr>) = voting r"
  "voting (r\<lparr>r_randomizedElectionTimeout := k\<rparr>) = voting r"
  "voting (r\<lparr>r_draws := d\<rparr>) = voting r"
  "voting (set_progress i pr r) = voting r"
  by (simp_all add: voting_def set_progress_def)

lemma voting_fields:
  "v_id (voting r) = r_id r"
  "v_term (voting r) = r_Term r"
  "v_vote (voting r) = r_Vote r"
  "v_state (voting r) = r_state r"
  "v_role (voting r) = (r_step r, r_tick r)"
  "v_ballots (voting r) = et_votes (r_electionTracker r)"
  "v_voters (voting r) = c_Voters (r_config r)"
  by (simp_all add: voting_def)

lemma voting_send:
  "voting (r\<lparr>r_msgsAfterAppend := r_msgsAfterAppend r @ [m]\<rparr>) =
     (voting r)\<lparr>v_granted := v_granted (voting r) @ (if is_grant m then [grant_of m] else [])\<rparr>"
  by (simp add: voting_def)

lemma raft_send_voting:
  assumes "raft_send m r = Some r'" and "m_Type m \<noteq> MsgStorageAppend" and "m_Type m \<noteq> MsgStorageApply"
  shows "voting r' =
    (if is_grant m then (voting r)\<lparr>v_granted := v_granted (voting r) @
       [(if m_From m = PeerNone then r_id r else m_From m, m_Term m, m_To m)]\<rparr>
     else voting r)"
proof (cases "needs_durability (m_Type m)")
  case True
  then have "r' = r\<lparr>r_msgsAfterAppend := r_msgsAfterAppend r @ [stamped r m]\<rparr>"
    using assms(1) by (simp add: raft_send_iff)
  moreover have "is_grant (stamped r m) = is_grant m" by (simp add: is_grant_def)
  moreover have "is_grant m \<Longrightarrow> is_campaign_msg (m_Type m)" by (simp add: is_grant_def is_campaign_msg_def)
  ultimately show ?thesis by (simp add: voting_send grant_of_def)
next
  case False
  then have "\<not> is_grant m" by (auto simp: is_grant_def needs_durability_def)
  then have "\<not> stray (stamped r m)" using assms(2,3) by (simp add: is_grant_def stray_def)
  with False assms \<open>\<not> is_grant m\<close> show ?thesis by (auto simp: raft_send_iff)
qed

lemma raft_send_keeps:
  "raft_send m r = Some r' \<Longrightarrow> (m_Type m \<noteq> MsgVoteResp \<or> m_Reject m) \<and>
     m_Type m \<noteq> MsgStorageAppend \<and> m_Type m \<noteq> MsgStorageApply \<Longrightarrow> voting r' = voting r"
  using raft_send_voting by (auto simp: is_grant_def)

lemma raft_maybeSendSnapshot_voting:
  "raft_maybeSendSnapshot to pr r = Some (r', b) \<Longrightarrow> voting r' = voting r"
  by (auto simp: raft_maybeSendSnapshot_def Let_def go_cases dest!: raft_send_keeps)

lemma raft_maybeSendAppend_voting:
  "raft_maybeSendAppend cd to r = Some (r', b) \<Longrightarrow> voting r' = voting r"
  by (auto simp: raft_maybeSendAppend_def Let_def go_cases
      dest!: raft_send_keeps raft_maybeSendSnapshot_voting)

lemma raft_sendHeartbeat_voting: "raft_sendHeartbeat to r = Some r' \<Longrightarrow> voting r' = voting r"
  by (auto simp: raft_sendHeartbeat_def Let_def go_cases dest!: raft_send_keeps)

lemma raft_sendFortify_voting: "raft_sendFortify to r = Some r' \<Longrightarrow> voting r' = voting r"
  by (auto simp: raft_sendFortify_def go_cases dest!: raft_send_keeps)

lemma foldM_voting:
  assumes "foldM f xs r = Some r'" and "\<And>x r r'. f x r = Some r' \<Longrightarrow> voting r' = voting r"
  shows "voting r' = voting r"
  using foldM_invariant [OF assms(1), of "\<lambda>s. voting s = voting r"] assms(2) by auto

lemma raft_bcast_voting:
  "raft_bcastAppend cd r = Some r' \<Longrightarrow> voting r' = voting r"
  "raft_bcastHeartbeat r = Some r' \<Longrightarrow> voting r' = voting r"
  "raft_bcastFortify r = Some r' \<Longrightarrow> voting r' = voting r"
  unfolding raft_bcastAppend_def raft_bcastHeartbeat_def raft_bcastFortify_def
  by (auto simp: go_simps split: if_splits
      dest: raft_maybeSendAppend_voting raft_sendHeartbeat_voting raft_sendFortify_voting
      elim!: foldM_voting)

lemma raft_sendAppends_voting: "raft_sendAppends cd to r = Some r' \<Longrightarrow> voting r' = voting r"
  by (induction rule: raft_sendAppends.raw_induct [rotated 1, consumes 1])
    (auto simp: go_cases dest: raft_maybeSendAppend_voting)

lemma raft_maybeCommit_voting: "raft_maybeCommit r = Some (r', b) \<Longrightarrow> voting r' = voting r"
  by (auto simp: raft_maybeCommit_def Let_def go_cases)

lemma raft_appendEntry_voting: "raft_appendEntry es r = Some (r', b) \<Longrightarrow> voting r' = voting r"
  by (auto simp: raft_appendEntry_def raft_increaseUncommittedSize_def Let_def go_cases
      split: if_splits prod.splits dest!: raft_send_keeps)

lemma raft_handleAppendEntries_voting: "raft_handleAppendEntries m r = Some r' \<Longrightarrow> voting r' = voting r"
  by (auto simp: raft_handleAppendEntries_def Let_def go_cases dest!: raft_send_keeps)

lemma raft_handleHeartbeat_voting: "raft_handleHeartbeat m r = Some r' \<Longrightarrow> voting r' = voting r"
  by (auto simp: raft_handleHeartbeat_def Let_def go_cases dest!: raft_send_keeps)

lemma raft_handleFortify_voting: "raft_handleFortify m r = Some r' \<Longrightarrow> voting r' = voting r"
  by (auto simp: raft_handleFortify_def Let_def go_cases dest!: raft_send_keeps)

lemma raft_deFortify_voting: "raft_deFortify from t r = Some r' \<Longrightarrow> voting r' = voting r"
  by (auto simp: raft_deFortify_def go_cases)

lemma raft_filterConfChanges_voting:
  "raft_filterConfChanges cd i es r = Some (r', es') \<Longrightarrow> voting r' = voting r"
proof (induction es arbitrary: i r es')
  case (Cons e es)
  then obtain cc r1 e1 where cc: "entry_conf_change cd e = Some cc"
    and r1: "(case cc of None \<Rightarrow> (r, e) | Some cc \<Rightarrow> raft_checkConfChange i cc e r) = (r1, e1)"
    and r': "\<exists>es1. raft_filterConfChanges cd (Suc i) es r1 = Some (r', es1)"
    by (cases "entry_conf_change cd e") (auto simp: bind_Some_iff split: prod.splits)
  have "voting r1 = voting r"
    using r1 by (auto simp: raft_checkConfChange_def Let_def split: option.splits if_splits)
  with r' Cons.IH show ?case by auto
qed simp

lemma raft_stepProp_voting: "raft_stepProp cd m r = Some (r', e) \<Longrightarrow> voting r' = voting r"
  by (auto simp: raft_stepProp_def no_error_def go_cases
      dest!: raft_filterConfChanges_voting raft_appendEntry_voting raft_bcast_voting)

section \<open>The role changes\<close>

lemma raft_reset_voting:
  assumes "raft_reset t r = Some r'"
  shows "voting r' = (if t = r_Term r then (voting r)\<lparr>v_ballots := fmempty\<rparr>
    else (voting r)\<lparr>v_term := t, v_vote := PeerNone, v_ballots := fmempty\<rparr>)"
  using assms
  by (auto simp: raft_reset_def Let_def go_cases raft_resetRandomizedElectionTimeout_def
      raft_abortLeaderTransfer_def ElectionTracker_ResetVotes_def voting_def)

lemma raft_becomeFollower_voting:
  assumes "raft_becomeFollower t i r = Some r'"
  shows "voting r' = (if t = r_Term r
    then (voting r)\<lparr>v_state := StateFollower, v_role := role_of StateFollower, v_ballots := fmempty\<rparr>
    else (voting r)\<lparr>v_term := t, v_vote := PeerNone, v_state := StateFollower,
      v_role := role_of StateFollower, v_ballots := fmempty\<rparr>)"
proof -
  obtain r1 where r1: "raft_reset t (r\<lparr>r_step := Some stepFunc_Follower\<rparr>) = Some r1"
    and r': "r' = r1\<lparr>r_tick := Some tickFunc_Election, r_lead := i, r_state := StateFollower\<rparr>"
    using assms by (auto simp: raft_becomeFollower_def Let_def go_cases)
  show ?thesis
    using raft_reset_voting [OF r1] unfolding r' by (auto simp: voting_def split: if_splits)
qed

lemma raft_becomeFollower_steps:
  assumes "raft_becomeFollower t i r = Some r'" and "r_Term r \<le> t"
  shows "vote_step m (voting r) (voting r')" and "r_Term r' = t"
proof -
  note v = raft_becomeFollower_voting [OF assms(1)]
  show "vote_step m (voting r) (voting r')"
  proof (cases "t = r_Term r")
    case False
    then have "v_term (voting r) < t" using assms(2) by (simp add: voting_def)
    from vote_step.newTerm [OF this, of m] False v show ?thesis by simp
  qed (use v vote_step.follow in simp)
  have "v_term (voting r') = t" using v by (simp add: voting_def)
  then show "r_Term r' = t" by (simp add: voting_def)
qed

lemma raft_becomeCandidate_voting:
  assumes "raft_becomeCandidate r = Some r'"
  shows "voting r' = (voting r)\<lparr>v_term := r_Term r + 1, v_vote := r_id r, v_state := StateCandidate,
      v_role := role_of StateCandidate, v_ballots := fmempty\<rparr> \<and> r_state r \<noteq> StateLeader"
proof -
  obtain r1 where r1: "raft_reset (r_Term r + 1) (r\<lparr>r_step := Some stepFunc_Candidate\<rparr>) = Some r1"
    and r': "r' = r1\<lparr>r_tick := Some tickFunc_Election, r_Vote := r_id r1, r_state := StateCandidate\<rparr>"
    and st: "r_state r \<noteq> StateLeader"
    using assms by (auto simp: raft_becomeCandidate_def Let_def go_cases)
  show ?thesis
    using raft_reset_voting [OF r1] st unfolding r' by (auto simp: voting_def split: if_splits)
qed

lemma raft_becomePreCandidate_voting:
  "raft_becomePreCandidate r = Some r' \<Longrightarrow>
     voting r' = (voting r)\<lparr>v_state := StatePreCandidate, v_role := role_of StatePreCandidate,
       v_ballots := fmempty\<rparr> \<and> r_state r \<noteq> StateLeader"
  by (auto simp: raft_becomePreCandidate_def go_cases ElectionTracker_ResetVotes_def voting_def)

lemma raft_becomeLeader_voting:
  assumes "raft_becomeLeader r = Some r'"
  shows "voting r' = (voting r)\<lparr>v_state := StateLeader, v_role := role_of StateLeader, v_ballots := fmempty\<rparr>"
proof -
  obtain r1 r2 pr where r1: "raft_reset (r_Term r) (r\<lparr>r_step := Some stepFunc_Leader\<rparr>) = Some r1"
    and r2: "r2 = r1\<lparr>r_tick := Some tickFunc_Heartbeat, r_lead := r_id r1, r_state := StateLeader\<rparr>"
    and a: "raft_appendEntry [Entry_zero] ((set_progress (r_id r2)
        ((Progress_BecomeReplicate pr)\<lparr>pr_RecentActive := True\<rparr>) r2)
        \<lparr>r_pendingConfIndex := raftLog_lastIndex (r_raftLog r2)\<rparr>) = Some (r', True)"
    using assms by (auto simp: raft_becomeLeader_def Let_def go_cases set_progress_def)
  have "voting r' = voting r2" using raft_appendEntry_voting [OF a] by simp
  then show ?thesis
    using raft_reset_voting [OF r1] unfolding r2 by (auto simp: voting_def)
qed

lemma raft_campaignSend_voting:
  assumes "raft_campaignSend t voteMsg term i r = Some r'" and "voteMsg = MsgVote \<or> voteMsg = MsgPreVote"
  shows "voting r' = (voting r)\<lparr>v_granted := v_granted (voting r) @
    (if voteMsg = MsgVote \<and> i = r_id r then [(r_id r, term, r_id r)] else [])\<rparr>"
  using assms
  by (auto simp: raft_campaignSend_def go_cases Let_def is_grant_def Message_zero_def
      dest!: raft_send_voting split: if_splits)

lemma raft_campaignSends_voting:
  assumes "foldM (raft_campaignSend t voteMsg term) ids r = Some r'"
    and "distinct ids" and vm: "voteMsg = MsgVote \<or> voteMsg = MsgPreVote"
  shows "voting r' = (voting r)\<lparr>v_granted := v_granted (voting r) @
    (if voteMsg = MsgVote \<and> r_id r \<in> set ids then [(r_id r, term, r_id r)] else [])\<rparr>"
  using assms(1,2)
proof (induction ids arbitrary: r)
  case (Cons i ids)
  obtain r1 where r1: "raft_campaignSend t voteMsg term i r = Some r1"
      "foldM (raft_campaignSend t voteMsg term) ids r1 = Some r'"
    using Cons.prems(1) unfolding foldM.simps bind_Some_iff by blast
  note v = raft_campaignSend_voting [OF r1(1) vm]
  then have "r_id r1 = r_id r" by (simp add: voting_def)
  with Cons.IH [OF r1(2)] v Cons.prems(2) show ?case by auto
qed simp

lemma raft_campaign_steps:
  assumes c: "raft_campaign t r = Some r'" and lt: "r_Term r < MaxUint64"
  shows "vote_step m (voting r) (voting r')"
proof (cases "t = campaignPreElection")
  case True
  then obtain r1 where r1: "raft_becomePreCandidate r = Some r1"
    and f: "foldM (raft_campaignSend t MsgPreVote (r_Term r1 + 1))
      (sorted_list_of_fset (JointConfig_IDs (c_Voters (r_config r1)))) r1 = Some r'"
    using c by (auto simp: raft_campaign_def bind_Some_iff)
  have "voting r' = voting r1"
    using raft_campaignSends_voting [OF f distinct_sorted_list_of_fset] by simp
  with raft_becomePreCandidate_voting [OF r1] vote_step.preCampaign [of "voting r" m] show ?thesis
    by (simp add: voting_fields)
next
  case False
  then obtain r1 where r1: "raft_becomeCandidate r = Some r1"
    and f: "foldM (raft_campaignSend t MsgVote (r_Term r1))
      (sorted_list_of_fset (JointConfig_IDs (c_Voters (r_config r1)))) r1 = Some r'"
    using c by (auto simp: raft_campaign_def bind_Some_iff)
  note b = conjunct1 [OF raft_becomeCandidate_voting [OF r1]]
    conjunct2 [OF raft_becomeCandidate_voting [OF r1]]
  define ok where "ok \<longleftrightarrow> r_id r1 |\<in>| JointConfig_IDs (c_Voters (r_config r1))"
  have v: "voting r' = (voting r1)\<lparr>v_granted := v_granted (voting r1) @
      (if ok then [(v_id (voting r1), v_term (voting r1), v_id (voting r1))] else [])\<rparr>"
    using raft_campaignSends_voting [OF f distinct_sorted_list_of_fset] by (simp add: voting_fields ok_def)
  have "vote_step m (voting r) ((voting r)\<lparr>v_term := v_term (voting r) + 1, v_vote := v_id (voting r),
      v_state := StateCandidate, v_role := role_of StateCandidate, v_ballots := fmempty,
      v_granted := v_granted (voting r) @
        (if ok then [(v_id (voting r), v_term (voting r) + 1, v_id (voting r))] else [])\<rparr>)"
    using b(2) lt by (intro vote_step.campaign) (simp_all add: voting_fields)
  also have "\<dots> = voting r'" unfolding v b(1) by (simp add: voting_fields)
  finally show ?thesis .
qed

section \<open>The handlers\<close>

lemma raft_hup_steps:
  assumes "raft_hup cd t r = Some r'" and "r_Term r < MaxUint64"
  shows "vote_steps m (voting r) (voting r')"
proof -
  have "r' = r \<or> raft_campaign t r = Some r'"
    using assms(1) by (auto simp: raft_hup_def go_cases)
  then show ?thesis using raft_campaign_steps [OF _ assms(2), of t r' m] by auto
qed

lemma raft_poll_voting:
  assumes "raft_poll i b r = (r', res)"
  shows "voting r' = (voting r)\<lparr>v_ballots := add_ballot i b (v_ballots (voting r))\<rparr>"
    and "res = JointConfig_VoteResult (v_voters (voting r')) (v_ballots (voting r'))"
  using assms
  by (auto simp: raft_poll_def Let_def voting_def ElectionTracker_RecordVote_def add_ballot_def
      ElectionTracker_TallyVotes_def split: prod.splits)

lemma raft_handleVoteResp_steps:
  assumes h: "raft_handleVoteResp cd m r = Some r'" and lt: "r_Term r < MaxUint64"
    and st: "r_state r = StatePreCandidate \<or> r_state r = StateCandidate \<and> m_Type m = MsgVoteResp \<and>
      (m_Term m = 0 \<or> m_Term m = r_Term r)"
  shows "vote_steps m (voting r) (voting r')"
proof -
  obtain r1 res where poll: "raft_poll (m_From m) (\<not> m_Reject m) r = (r1, res)" by fastforce
  note v1 = raft_poll_voting [OF poll]
  have "vote_step m (voting r) (voting r1)"
    unfolding v1(1) using st by (intro vote_step.ballot) (auto simp: voting_fields)
  moreover have same: "r_state r1 = r_state r" "r_Term r1 = r_Term r"
    using v1(1) by (auto simp: voting_def)
  have "vote_steps m (voting r1) (voting r')"
  proof (cases res)
    case VoteWon
    show ?thesis
    proof (cases "r_state r1 = StatePreCandidate")
      case True
      then show ?thesis
        using h poll VoteWon raft_campaign_steps [of campaignElection r1 r' m] lt same
        by (auto simp: raft_handleVoteResp_def)
    next
      case False
      then obtain r2 r3 where "raft_becomeLeader r1 = Some r2" "raft_bcastFortify r2 = Some r3"
          "raft_bcastAppend cd r3 = Some r'"
        using h poll VoteWon by (auto simp: raft_handleVoteResp_def bind_Some_iff)
      then have v': "voting r' = (voting r1)\<lparr>v_state := StateLeader, v_role := role_of StateLeader,
          v_ballots := fmempty\<rparr>"
        using raft_becomeLeader_voting raft_bcast_voting by metis
      have "vote_step m (voting r1) (voting r')"
        unfolding v' using False st same v1(2) VoteWon
        by (intro vote_step.elect) (auto simp: voting_fields)
      then show ?thesis by blast
    qed
  next
    case VoteLost
    then show ?thesis
      using h poll raft_becomeFollower_steps(1) [of "r_Term r1" "r_lead r1" r1 r' m]
      by (auto simp: raft_handleVoteResp_def)
  qed (use h poll in \<open>auto simp: raft_handleVoteResp_def\<close>)
  ultimately show ?thesis by auto
qed

text \<open>The node with the configuration in place, before it acts on it.\<close>

definition reconfigured :: "Config \<Rightarrow> ProgressMap \<Rightarrow> raft \<Rightarrow> raft" where
  "reconfigured cfg pm r =
     (let r = r\<lparr>r_config := cfg, r_trk := MakeProgressTracker pm\<rparr> in
      r\<lparr>r_isLearner := (case get_progress r (r_id r) of None \<Rightarrow> False | Some p \<Rightarrow> pr_IsLearner p)\<rparr>)"

lemma raft_switchToConfig_cases:
  assumes "raft_switchToConfig cd cfg pm r = Some (r', cs)"
  obtains (unchanged) "r' = reconfigured cfg pm r"
  | (removed) "raft_becomeFollower (r_Term (reconfigured cfg pm r)) (r_lead (reconfigured cfg pm r))
        (reconfigured cfg pm r) = Some r'" "r_state r = StateLeader"
  | (leader) r1 b r2 where "r_state r = StateLeader" "raft_maybeCommit (reconfigured cfg pm r) = Some (r1, b)"
      "raft_bcastAppend cd r1 = Some r2" "r' = r2 \<or> r' = raft_abortLeaderTransfer r2"
proof -
  define r0 where "r0 = reconfigured cfg pm r"
  let ?r = "r\<lparr>r_config := cfg, r_trk := MakeProgressTracker pm\<rparr>"
  have st: "r_state r0 = r_state r" by (simp add: r0_def reconfigured_def Let_def)
  have "raft_switchToConfig cd cfg pm r =
     (let cs = Config_ConfState cfg in
      if (get_progress ?r (r_id ?r) = None \<or> r_isLearner r0) \<and> r_state r0 = StateLeader then
        if r_stepDownOnRemoval r0 then do {
          r \<leftarrow> raft_becomeFollower (r_Term r0) (r_lead r0) r0;
          Some (r, cs)
        } else Some (r0, cs)
      else if r_state r0 \<noteq> StateLeader \<or> length (cs_Voters cs) = 0 then Some (r0, cs)
      else do {
        (r, _) \<leftarrow> raft_maybeCommit r0;
        r \<leftarrow> raft_bcastAppend cd r;
        let tOK = r_leadTransferee r |\<in>| JointConfig_IDs (c_Voters (r_config r));
        Some (if \<not> tOK \<and> r_leadTransferee r \<noteq> 0 then raft_abortLeaderTransfer r else r, cs)
      })"
    by (simp add: raft_switchToConfig_def r0_def reconfigured_def Let_def)
  with assms have "r' = r0 \<or> raft_becomeFollower (r_Term r0) (r_lead r0) r0 = Some r' \<and> r_state r0 = StateLeader \<or>
      (\<exists>r1 b r2. r_state r0 = StateLeader \<and> raft_maybeCommit r0 = Some (r1, b) \<and>
         raft_bcastAppend cd r1 = Some r2 \<and> (r' = r2 \<or> r' = raft_abortLeaderTransfer r2))"
    by (auto simp: Let_def bind_Some_iff split: if_splits)
  then show ?thesis using that st unfolding r0_def [symmetric] by metis
qed

lemma raft_switchToConfig_steps:
  assumes "raft_switchToConfig cd cfg pm r = Some (r', cs)" and "m_Type m = MsgSnap"
  shows "vote_steps m (voting r) (voting r')"
proof -
  let ?r = "reconfigured cfg pm r"
  have "voting ?r = (voting r)\<lparr>v_voters := c_Voters cfg\<rparr>"
    by (simp add: reconfigured_def voting_def Let_def)
  then have 1: "vote_step m (voting r) (voting ?r)" using vote_step.reconfigure assms(2) by simp
  from assms(1) have "vote_steps m (voting ?r) (voting r')"
  proof (cases rule: raft_switchToConfig_cases)
    case removed
    then show ?thesis using raft_becomeFollower_steps(1) by blast
  next
    case (leader r1 b r2)
    then have "voting r' = voting ?r"
      using raft_maybeCommit_voting raft_bcast_voting(1) by (auto simp: raft_abortLeaderTransfer_def)
    then show ?thesis by simp
  qed simp
  with 1 show ?thesis by auto
qed

lemma raft_restore_steps:
  assumes "raft_restore cd s r = Some (r', ok)" and "m_Type m = MsgSnap"
  shows "vote_steps m (voting r) (voting r')"
proof -
  have "voting r' = voting r \<or> (\<exists>cs r1. voting r1 = voting r \<and> raft_restoreConfig cd cs r1 = Some r')"
    using assms(1) by (auto simp: raft_restore_def Let_def go_cases split: prod.splits if_splits)
  then show ?thesis
    using assms(2) by (auto simp: raft_restoreConfig_def go_cases dest: raft_switchToConfig_steps [where m = m])
qed

lemma raft_handleSnapshot_steps:
  assumes "raft_handleSnapshot cd m r = Some r'" and "m_Type m = MsgSnap"
  shows "vote_steps m (voting r) (voting r')"
proof -
  have "r' = r \<or> (\<exists>s r1 ok. raft_restore cd s r = Some (r1, ok) \<and> voting r' = voting r1)"
    using assms(1) by (auto simp: raft_handleSnapshot_def Let_def bind_Some_iff split: if_splits
        dest!: raft_send_keeps)
  then show ?thesis using raft_restore_steps assms(2) by fastforce
qed

lemma raft_stepDown_steps:
  "raft_becomeFollower (r_Term r) i r = Some r' \<Longrightarrow> vote_steps m (voting r) (voting r')"
  using raft_becomeFollower_steps(1) [of "r_Term r"] by auto

lemma raft_transferLeader_steps:
  assumes "raft_transferLeader to r = Some r'"
  shows "vote_steps m (voting r) (voting r')"
proof -
  obtain r1 where "raft_send (Message_zero\<lparr>m_To := to, m_Type := MsgTimeoutNow\<rparr>) r = Some r1"
    and r': "raft_becomeFollower (r_Term r1) (r_lead r1) r1 = Some r'"
    using assms by (auto simp: raft_transferLeader_def go_cases)
  then have "voting r1 = voting r" by (auto dest!: raft_send_keeps)
  with raft_stepDown_steps [OF r'] show ?thesis by simp
qed

lemma raft_stepCheckQuorum_steps:
  assumes "raft_stepCheckQuorum r = Some r'"
  shows "vote_steps m (voting r) (voting r')"
proof -
  have "voting r' = voting r \<or>
      (\<exists>r1. raft_becomeFollower (r_Term r) (r_id r) r = Some r1 \<and> voting r' = voting r1)"
    using assms by (auto simp: raft_stepCheckQuorum_def go_cases)
  then show ?thesis using raft_stepDown_steps by auto
qed

lemma raft_stepAppRespReject_voting:
  "raft_stepAppRespReject cd m pr r = Some r' \<Longrightarrow> voting r' = voting r"
  by (auto simp: raft_stepAppRespReject_def Let_def go_cases dest!: raft_maybeSendAppend_voting)

lemma raft_stepAppRespAccept_steps:
  assumes "raft_stepAppRespAccept cd m pr r = Some r'"
  shows "vote_steps m (voting r) (voting r')"
proof -
  have "voting r' = voting r \<or> (\<exists>r1. voting r1 = voting r \<and> raft_transferLeader (m_From m) r1 = Some r')"
    using assms
    by (auto simp: raft_stepAppRespAccept_def Let_def go_cases
        dest!: raft_maybeCommit_voting raft_bcast_voting(1) raft_sendAppends_voting)
  then show ?thesis using raft_transferLeader_steps by fastforce
qed

lemma raft_stepTransferLeader_steps:
  assumes "raft_stepTransferLeader cd m pr r = Some r'"
  shows "vote_steps m (voting r) (voting r')"
proof -
  have "voting r' = voting r \<or> (\<exists>r1. voting r1 = voting r \<and> raft_transferLeader (m_From m) r1 = Some r')"
    using assms
    by (auto simp: raft_stepTransferLeader_def raft_abortLeaderTransfer_def Let_def go_cases
        dest!: raft_maybeSendAppend_voting split: if_splits)
  then show ?thesis using raft_transferLeader_steps by fastforce
qed

section \<open>The step functions\<close>

lemma raft_stepAppResp_steps:
  assumes "raft_stepAppResp cd m pr r = Some r'"
  shows "vote_steps m (voting r) (voting r')"
proof -
  obtain pr1 where "raft_stepAppRespReject cd m pr1 (set_progress (m_From m) pr1 r) = Some r' \<or>
      raft_stepAppRespAccept cd m pr1 (set_progress (m_From m) pr1 r) = Some r'"
    using assms by (auto simp: raft_stepAppResp_def Let_def split: if_splits)
  then show ?thesis
    using raft_stepAppRespAccept_steps [of cd m pr1 "set_progress (m_From m) pr1 r" r']
      raft_stepAppRespReject_voting [of cd m pr1 "set_progress (m_From m) pr1 r" r'] by auto
qed

lemma stepLeader_progress_steps:
  assumes "stepLeader_progress cd m r = Some r'"
  shows "vote_steps m (voting r) (voting r')"
  using assms
  by (cases "m_Type m")
    (auto simp: stepLeader_progress_def raft_stepHeartbeatResp_def raft_stepSnapStatus_def
      raft_stepUnreachable_def Let_def go_cases split: if_splits
      dest: raft_maybeSendAppend_voting raft_stepAppResp_steps raft_stepTransferLeader_steps)

lemma stepLeader_steps:
  assumes "stepLeader cd m r = Some (r', e)"
  shows "vote_steps m (voting r) (voting r')"
  using assms
  by (cases "m_Type m")
    (auto simp: stepLeader_def no_error_def go_cases
      dest: raft_bcast_voting raft_stepCheckQuorum_steps raft_stepProp_voting stepLeader_progress_steps)

lemma raft_heardFromLeader_voting [simp]: "voting (raft_heardFromLeader m r) = voting r"
  by (simp add: raft_heardFromLeader_def)

lemma stepFollower_steps:
  assumes "stepFollower cd m r = Some (r', e)" and "r_Term r < MaxUint64"
  shows "vote_steps m (voting r) (voting r')"
proof -
  have hup: "raft_hup cd campaignTransfer (r\<lparr>r_leadEpoch := 0\<rparr>) = Some r' \<Longrightarrow> ?thesis"
    using raft_hup_steps [of cd campaignTransfer "r\<lparr>r_leadEpoch := 0\<rparr>" r' m] assms(2) by simp
  show ?thesis
    using assms(1)
    by (cases "m_Type m")
      (auto simp: stepFollower_def no_error_def go_cases hup dest!: raft_send_keeps
        raft_handleAppendEntries_voting raft_handleHeartbeat_voting raft_handleFortify_voting
        dest: raft_handleSnapshot_steps)
qed

lemma becomeFollower_then_steps:
  assumes "raft_becomeFollower t i r \<bind> h = Some r'" and "r_Term r \<le> t"
    and "\<And>r1. h r1 = Some r' \<Longrightarrow> vote_steps m (voting r1) (voting r')"
  shows "vote_steps m (voting r) (voting r')"
proof -
  obtain r1 where r1: "raft_becomeFollower t i r = Some r1" "h r1 = Some r'"
    using assms(1) by (auto simp: bind_Some_iff)
  show ?thesis
    using raft_becomeFollower_steps(1) [OF r1(1) assms(2), of m] assms(3) [OF r1(2)] by auto
qed

lemma stepCandidate_steps:
  assumes h: "stepCandidate cd m r = Some (r', e)" and lt: "r_Term r < MaxUint64"
    and st: "r_state r = StatePreCandidate \<or> r_state r = StateCandidate"
    and lead: "IsMsgFromLeader (m_Type m) \<Longrightarrow> r_Term r \<le> m_Term m"
    and resp: "m_Type m = MsgVoteResp \<Longrightarrow> m_Term m = 0 \<or> m_Term m = r_Term r"
  shows "vote_steps m (voting r) (voting r')"
proof -
  have vote: "raft_handleVoteResp cd m r = Some r' \<Longrightarrow> ?thesis"
    if "m_Type m = (if r_state r = StatePreCandidate then MsgPreVoteResp else MsgVoteResp)"
    using raft_handleVoteResp_steps [of cd m r r'] lt st resp that by (auto split: if_splits)
  consider (app) "raft_becomeFollower (m_Term m) (m_From m) r \<bind> raft_handleAppendEntries m = Some r'"
      "IsMsgFromLeader (m_Type m)"
    | (beat) "raft_becomeFollower (m_Term m) (m_From m) r \<bind> raft_handleHeartbeat m = Some r'"
      "IsMsgFromLeader (m_Type m)"
    | (snap) "raft_becomeFollower (m_Term m) (m_From m) r \<bind> raft_handleSnapshot cd m = Some r'"
      "m_Type m = MsgSnap"
    | (fortify) "raft_becomeFollower (m_Term m) (m_From m) r \<bind> raft_handleFortify m = Some r'"
      "IsMsgFromLeader (m_Type m)"
    | (vote) "raft_handleVoteResp cd m r = Some r'"
      "m_Type m = (if r_state r = StatePreCandidate then MsgPreVoteResp else MsgVoteResp)"
    | (ignored) "r' = r"
    using h by (cases "m_Type m")
      (auto simp: stepCandidate_def no_error_def bind_Some_iff split: if_splits)
  then show ?thesis
  proof cases
    case app
    then show ?thesis using lead raft_handleAppendEntries_voting
      by (auto intro: becomeFollower_then_steps)
  next
    case beat
    then show ?thesis using lead raft_handleHeartbeat_voting
      by (auto intro: becomeFollower_then_steps)
  next
    case snap
    then show ?thesis using lead raft_handleSnapshot_steps
      by (auto intro: becomeFollower_then_steps)
  next
    case fortify
    then show ?thesis using lead raft_handleFortify_voting
      by (auto intro: becomeFollower_then_steps)
  qed (use vote in auto)
qed

section \<open>Step\<close>

definition role_ok :: "voting \<Rightarrow> bool" where
  "role_ok v \<longleftrightarrow> v_role v = role_of (v_state v)"

lemma vote_steps_role_ok: "vote_steps m v v' \<Longrightarrow> role_ok v \<Longrightarrow> role_ok v'"
  by (induction rule: rtranclp_induct) (auto simp: role_ok_def elim!: vote_stepE)

lemma raft_step_cases:
  assumes "raft_step cd m r = Some res" and "role_ok (voting r)"
  obtains (leader) "r_state r = StateLeader" "stepLeader cd m r = Some res"
  | (candidate) "r_state r = StatePreCandidate \<or> r_state r = StateCandidate" "stepCandidate cd m r = Some res"
  | (follower) "r_state r = StateFollower" "stepFollower cd m r = Some res"
  using assms by (cases "r_state r") (auto simp: raft_step_def role_ok_def voting_def)

text \<open>
  What holds of a message that passes the switch on its term: it is local, or of the term
  the node is at, or one of the pre-vote messages that do not move the node to their term.
\<close>

definition admitted :: "Message \<Rightarrow> u64 \<Rightarrow> bool" where
  "admitted m t \<longleftrightarrow> m_Term m = 0 \<or> m_Term m = t \<or>
     t < m_Term m \<and> (m_Type m = MsgPreVote \<or> m_Type m = MsgPreVoteResp \<and> \<not> m_Reject m)"

lemma raft_Step_checkLease_voting:
  "raft_Step_checkLease m r = Some (r', b) \<Longrightarrow> voting r' = voting r"
  by (auto simp: raft_Step_checkLease_def Let_def go_cases dest!: raft_deFortify_voting)

lemma raft_Step_higherTerm_cases:
  assumes "raft_Step_higherTerm m r = Some (r', b)"
  shows "voting r' = voting r \<and>
      (b \<longrightarrow> m_Type m = MsgPreVote \<or> m_Type m = MsgPreVoteResp \<and> \<not> m_Reject m) \<or>
    (\<exists>i r1. voting r1 = voting r \<and> raft_becomeFollower (m_Term m) i r1 = Some r')"
proof -
  obtain r1 b1 where r1: "raft_Step_checkLease m r = Some (r1, b1)"
    using assms by (auto simp: raft_Step_higherTerm_def bind_Some_iff)
  note v1 = raft_Step_checkLease_voting [OF r1]
  show ?thesis
  proof (cases "b1 \<and> m_Type m \<noteq> MsgPreVote \<and> \<not> (m_Type m = MsgPreVoteResp \<and> \<not> m_Reject m)")
    case True
    then have "\<exists>i r2. (r2 = r1 \<or> raft_deFortify (m_From m) (m_Term m) r1 = Some r2) \<and>
        raft_becomeFollower (m_Term m) i r2 = Some r'"
      using assms r1 by (auto simp: raft_Step_higherTerm_def bind_Some_iff split: if_splits)
    with v1 show ?thesis by (metis raft_deFortify_voting)
  next
    case False
    with assms r1 v1 show ?thesis by (auto simp: raft_Step_higherTerm_def split: if_splits)
  qed
qed

lemma raft_Step_higherTerm_steps:
  assumes h: "raft_Step_higherTerm m r = Some (r', b)" and lt: "r_Term r < m_Term m"
  shows "vote_steps m (voting r) (voting r') \<and> (b \<longrightarrow> admitted m (r_Term r')) \<and>
    (r_Term r' = r_Term r \<or> r_Term r' = m_Term m)"
  using raft_Step_higherTerm_cases [OF h]
proof (elim disjE exE conjE)
  assume "voting r' = voting r" "b \<longrightarrow> m_Type m = MsgPreVote \<or> m_Type m = MsgPreVoteResp \<and> \<not> m_Reject m"
  moreover from this(1) have "r_Term r' = r_Term r" by (metis voting_fields(2))
  ultimately show ?thesis using lt by (simp add: admitted_def)
next
  fix i r1 assume v: "voting r1 = voting r" and f: "raft_becomeFollower (m_Term m) i r1 = Some r'"
  from v have "r_Term r1 = r_Term r" by (metis voting_fields(2))
  with raft_becomeFollower_steps [OF f] lt v show ?thesis by (auto simp: admitted_def)
qed

lemma raft_Step_lowerTerm_voting: "raft_Step_lowerTerm m r = Some r' \<Longrightarrow> voting r' = voting r"
  by (auto simp: raft_Step_lowerTerm_def bind_eq_Some_conv split: if_splits dest!: raft_send_keeps)

lemma raft_Step_term_steps:
  assumes "raft_Step_term m r = Some (r', b)"
  shows "vote_steps m (voting r) (voting r') \<and> (b \<longrightarrow> admitted m (r_Term r')) \<and>
    (r_Term r' = r_Term r \<or> r_Term r' = m_Term m)"
proof (cases "m_Term m = 0 \<or> m_Term m \<le> r_Term r")
  case True
  then show ?thesis
    using assms
    by (auto simp: raft_Step_term_def admitted_def bind_Some_iff split: if_splits
        dest!: raft_Step_lowerTerm_voting) (metis voting_fields(2))
next
  case False
  then show ?thesis
    using assms raft_Step_higherTerm_steps by (auto simp: raft_Step_term_def split: if_splits)
qed

lemma raft_Step_vote_steps:
  assumes h: "raft_Step_vote m r = Some r'" and "admitted m (r_Term r)"
  shows "vote_steps m (voting r) (voting r')"
proof -
  obtain grant ty where ty: "voteRespMsgType (m_Type m) = Some ty"
    and g: "(if r_Vote r = m_From m \<or> r_Vote r = PeerNone \<and> r_lead r = PeerNone \<or>
         m_Type m = MsgPreVote \<and> r_Term r < m_Term m
       then raftLog_isUpToDate (r_raftLog r) \<lparr>id_term = m_LogTerm m, id_index = m_Index m\<rparr>
       else Some False) = Some grant"
    and r': "(if grant then do {
       r \<leftarrow> raft_send (Message_zero\<lparr>m_To := m_From m, m_Term := m_Term m, m_Type := ty\<rparr>) r;
       Some (if m_Type m = MsgVote then r\<lparr>r_electionElapsed := 0, r_Vote := m_From m\<rparr> else r)
     } else raft_send (Message_zero\<lparr>m_To := m_From m, m_Term := r_Term r, m_Type := ty, m_Reject := True\<rparr>) r)
       = Some r'"
    using h unfolding raft_Step_vote_def Let_def bind_Some_iff by blast
  have can: "grant \<Longrightarrow> r_Vote r = m_From m \<or> r_Vote r = PeerNone \<or> m_Type m = MsgPreVote"
    using g by (auto split: if_splits)
  have types: "m_Type m = MsgVote \<and> ty = MsgVoteResp \<or> m_Type m = MsgPreVote \<and> ty = MsgPreVoteResp"
    using ty by (cases "m_Type m") auto
  show ?thesis
  proof (cases "grant \<and> m_Type m = MsgVote")
    case True
    then obtain r1 where r1: "raft_send (Message_zero\<lparr>m_To := m_From m, m_Term := m_Term m, m_Type := ty\<rparr>) r = Some r1"
      and "r' = r1\<lparr>r_electionElapsed := 0, r_Vote := m_From m\<rparr>"
      using r' by (auto simp: bind_Some_iff)
    moreover have t0: "m_Term m \<noteq> 0"
      using r1 True types by (simp add: raft_send_iff is_campaign_msg_def Message_zero_def)
    then have t: "m_Term m = v_term (voting r)"
      using assms(2) True by (auto simp: admitted_def voting_fields)
    ultimately have "voting r' = (voting r)\<lparr>v_vote := m_From m,
        v_granted := v_granted (voting r) @ [(v_id (voting r), v_term (voting r), m_From m)]\<rparr>"
      using raft_send_voting [OF r1] True types
      by (auto simp: is_grant_def Message_zero_def voting_def)
    moreover have "v_vote (voting r) = m_From m \<or> v_vote (voting r) = PeerNone"
      using can True by (auto simp: voting_fields)
    ultimately show ?thesis using vote_step.grant [of m "voting r"] True t0 t by auto
  next
    case False
    then show ?thesis using r' types
      by (auto simp: bind_Some_iff Message_zero_def split: if_splits dest!: raft_send_keeps)
  qed
qed

lemma raft_step_prop_voting:
  assumes "raft_step cd m r = Some (r', e)" and "m_Type m = MsgProp"
  shows "voting r' = voting r"
proof -
  have "stepLeader cd m r = Some (r', e) \<Longrightarrow> ?thesis" "stepCandidate cd m r = Some (r', e) \<Longrightarrow> ?thesis"
    "stepFollower cd m r = Some (r', e) \<Longrightarrow> ?thesis"
    using assms(2)
    by (auto simp: stepLeader_def stepCandidate_def stepFollower_def no_error_def go_cases
        dest!: raft_send_keeps raft_stepProp_voting)
  with assms(1) show ?thesis by (auto simp: raft_step_def split: option.splits stepFunc.splits)
qed

lemma confChangeToMsg_term: "confChangeToMsg cd c = Some m \<Longrightarrow> m_Term m = 0"
  by (auto simp: confChangeToMsg_def Message_zero_def split: option.splits)

lemma raft_Step_conf_voting:
  assumes "raft_Step cd m r = Some (r', e)" and "confChangeToMsg cd c = Some m"
  shows "voting r' = voting r"
proof -
  have "raft_step cd m r = Some (r', e)"
    using assms confChangeToMsg_type [OF assms(2)] confChangeToMsg_term [OF assms(2)]
    by (simp add: raft_Step.simps raft_Step_term_def)
  then show ?thesis using raft_step_prop_voting confChangeToMsg_type [OF assms(2)] by blast
qed

lemma raft_appliedTo_voting:
  assumes "raft_appliedTo (raft_Step cd) cd i sz r = Some r'"
  shows "voting r' = voting r"
  using assms
  by (auto simp: raft_appliedTo_def Let_def go_cases dest!: raft_Step_conf_voting)

lemma raft_appliedSnap_voting:
  assumes "raft_appliedSnap (raft_Step cd) cd snap r = Some r'"
  shows "voting r' = voting r"
  using raft_appliedTo_voting assms by (fastforce simp: raft_appliedSnap_def Let_def)

lemma raft_reduceUncommittedSize_voting [simp]: "voting (raft_reduceUncommittedSize s r) = voting r"
  by (simp add: raft_reduceUncommittedSize_def)

lemma raft_Step_handle_steps:
  assumes r': "(if m_Type m = MsgVote \<or> m_Type m = MsgPreVote then no_error (raft_Step_vote m r)
      else raft_step cd m r) = Some (r', e)"
    and ok: "role_ok (voting r)" and lt: "r_Term r < MaxUint64" and adm: "admitted m (r_Term r)"
    and lead: "IsMsgFromLeader (m_Type m) \<Longrightarrow> m_Term m \<noteq> 0"
  shows "vote_steps m (voting r) (voting r')"
proof (cases "m_Type m = MsgVote \<or> m_Type m = MsgPreVote")
  case True
  with r' adm show ?thesis using raft_Step_vote_steps by (auto simp: no_error_def bind_Some_iff)
next
  case False
  with r' have "raft_step cd m r = Some (r', e)" by auto
  then show ?thesis
    using ok
  proof (cases rule: raft_step_cases)
    case leader
    then show ?thesis using stepLeader_steps by blast
  next
    case candidate
    have "IsMsgFromLeader (m_Type m) \<Longrightarrow> r_Term r \<le> m_Term m"
      using lead adm by (auto simp: admitted_def)
    moreover have "m_Type m = MsgVoteResp \<Longrightarrow> m_Term m = 0 \<or> m_Term m = r_Term r"
      using adm by (auto simp: admitted_def)
    ultimately show ?thesis using stepCandidate_steps [OF candidate(2) lt candidate(1)] by blast
  next
    case follower
    then show ?thesis using stepFollower_steps lt by blast
  qed
qed

lemma raft_Step_steps:
  assumes r': "raft_Step cd m r = Some (r', e)" and ok: "role_ok (voting r)"
    and lt: "r_Term r < MaxUint64" "m_Term m < MaxUint64"
    and lead: "IsMsgFromLeader (m_Type m) \<Longrightarrow> m_Term m \<noteq> 0"
  shows "vote_steps m (voting r) (voting r')"
proof -
  obtain r1 b where r1: "raft_Step_term m r = Some (r1, b)"
    using r' by (auto simp: raft_Step.simps bind_Some_iff)
  note s1 = raft_Step_term_steps [OF r1]
  have ok1: "role_ok (voting r1)" using s1 ok vote_steps_role_ok by blast
  have lt1: "r_Term r1 < MaxUint64" using s1 lt by auto
  let ?local = "m_Type m = MsgHup \<or> m_Type m = MsgStorageAppendResp \<or> m_Type m = MsgStorageApplyResp"
  have "vote_steps m (voting r1) (voting r')"
  proof (cases "b \<and> \<not> ?local")
    case True
    then show ?thesis
      using r' r1 s1 raft_Step_handle_steps [OF _ ok1 lt1 _ lead]
      by (auto simp: raft_Step.simps [of cd m r])
  next
    case False
    have "voting r' = voting r1 \<or> (\<exists>t. raft_hup cd t r1 = Some r')"
      using False r' r1
      by (auto simp: raft_Step.simps [of cd m r] no_error_def Let_def go_cases
          dest!: raft_appliedTo_voting raft_appliedSnap_voting split: if_splits)
    then show ?thesis using raft_hup_steps [OF _ lt1] by auto
  qed
  with s1 show ?thesis by auto
qed

section \<open>Ticks and configuration changes\<close>

text \<open>The messages of the ticks are handled alike whatever message is being stepped around them.\<close>

lemma raft_Step_local_steps:
  assumes r': "raft_Step cd l r = Some (r', e)" and ok: "role_ok (voting r)" and lt: "r_Term r < MaxUint64"
    and l: "m_Term l = 0" "m_Type l = MsgHup \<or> m_Type l = MsgBeat \<or> m_Type l = MsgCheckQuorum"
  shows "vote_steps m (voting r) (voting r')"
proof (cases "m_Type l = MsgHup")
  case True
  then obtain t where "raft_hup cd t r = Some r'"
    using r' l(1) by (auto simp: raft_Step.simps [of cd l r] raft_Step_term_def no_error_def bind_Some_iff)
  then show ?thesis using raft_hup_steps lt by blast
next
  case False
  then have "raft_step cd l r = Some (r', e)"
    using r' l by (auto simp: raft_Step.simps [of cd l r] raft_Step_term_def)
  then show ?thesis
    using ok l(2) False
    by (cases rule: raft_step_cases)
      (auto simp: stepLeader_def stepCandidate_def stepFollower_def no_error_def bind_Some_iff Let_def
        dest!: raft_bcast_voting(2) dest: raft_stepCheckQuorum_steps)
qed

lemma voting_term: "voting r = voting r' \<Longrightarrow> r_Term r = r_Term r'"
  by (metis voting_fields(2))

lemma raft_tickSupport_voting: "raft_tickSupport r = Some (r', b) \<Longrightarrow> voting r' = voting r"
  by (auto simp: raft_tickSupport_def go_cases dest!: raft_deFortify_voting)

lemma raft_tickElection_steps:
  assumes h: "raft_tickElection cd r = Some r'" and ok: "role_ok (voting r)" and lt: "r_Term r < MaxUint64"
  shows "vote_steps m (voting r) (voting r')"
proof -
  obtain r1 b where r1: "raft_tickSupport r = Some (r1, b)"
    and rest: "voting r' = voting r1 \<or> (\<exists>r2 i e. voting r2 = voting r1 \<and>
        raft_Step cd (Message_zero\<lparr>m_From := i, m_Type := MsgHup\<rparr>) r2 = Some (r', e))"
    using h by (cases "raft_tickSupport r") (auto simp: raft_tickElection_def Let_def go_cases, force)
  note v1 = raft_tickSupport_voting [OF r1]
  from rest show ?thesis
  proof (elim disjE exE conjE)
    fix r2 i e assume v: "voting r2 = voting r1"
      and s: "raft_Step cd (Message_zero\<lparr>m_From := i, m_Type := MsgHup\<rparr>) r2 = Some (r', e)"
    have "r_Term r2 = r_Term r" using v v1 voting_term by metis
    with raft_Step_local_steps [OF s, of m] v v1 ok lt show ?thesis by (simp add: Message_zero_def)
  qed (simp add: v1)
qed

lemma raft_tickCheckQuorum_steps:
  assumes h: "raft_tickCheckQuorum cd r = Some (r', b)" and ok: "role_ok (voting r)" and lt: "r_Term r < MaxUint64"
  shows "vote_steps m (voting r) (voting r')"
proof -
  have "voting r' = voting r \<or> (\<exists>r1 r2 e. voting r1 = voting r \<and> voting r' = voting r2 \<and>
      raft_Step cd (Message_zero\<lparr>m_From := r_id r, m_Type := MsgCheckQuorum\<rparr>) r1 = Some (r2, e))"
    using h by (auto simp: raft_tickCheckQuorum_def raft_abortLeaderTransfer_def Let_def go_cases)
  then show ?thesis
  proof (elim disjE exE conjE)
    fix r1 r2 e assume v: "voting r1 = voting r" "voting r' = voting r2"
      and s: "raft_Step cd (Message_zero\<lparr>m_From := r_id r, m_Type := MsgCheckQuorum\<rparr>) r1 = Some (r2, e)"
    with raft_Step_local_steps [OF s, of m] voting_term [OF v(1)] ok lt show ?thesis
      by (simp add: Message_zero_def)
  qed simp
qed

lemma raft_tickHeartbeat_steps:
  assumes h: "raft_tickHeartbeat cd r = Some r'" and ok: "role_ok (voting r)" and lt: "r_Term r < MaxUint64"
  shows "vote_steps m (voting r) (voting r')"
proof -
  define r0 where "r0 = r\<lparr>r_heartbeatElapsed := r_heartbeatElapsed r + 1, r_electionElapsed := r_electionElapsed r + 1\<rparr>"
  have v0: "voting r0 = voting r" by (simp add: r0_def)
  obtain r1 b where r1: "raft_tickCheckQuorum cd r0 = Some (r1, b)"
    and rest: "r' = r1 \<or> (\<exists>r2 i e. voting r2 = voting r1 \<and>
        raft_Step cd (Message_zero\<lparr>m_From := i, m_Type := MsgBeat\<rparr>) r2 = Some (r', e))"
    using h unfolding raft_tickHeartbeat_def r0_def [symmetric] Let_def
    by (cases "raft_tickCheckQuorum cd r0") (auto simp: go_cases, force)
  have s1: "vote_steps m (voting r) (voting r1)"
    using raft_tickCheckQuorum_steps [OF r1, of m] ok lt v0 voting_term [OF v0] by simp
  note ok1 = vote_steps_role_ok [OF s1 ok]
  from rest show ?thesis
  proof (elim disjE exE conjE)
    fix r2 i e assume v: "voting r2 = voting r1"
      and s: "raft_Step cd (Message_zero\<lparr>m_From := i, m_Type := MsgBeat\<rparr>) r2 = Some (r', e)"
    have "raft_step cd (Message_zero\<lparr>m_From := i, m_Type := MsgBeat\<rparr>) r2 = Some (r', e)"
      using s by (simp add: raft_Step.simps raft_Step_term_def Message_zero_def)
    then have "voting r' = voting r2"
      using ok1 unfolding v [symmetric]
      by (cases rule: raft_step_cases)
        (auto simp: stepLeader_def stepCandidate_def stepFollower_def no_error_def bind_Some_iff Let_def
          dest: raft_bcast_voting(2))
    with s1 v show ?thesis by simp
  qed (use s1 in simp)
qed

lemma raft_tick_steps:
  assumes "raft_tick cd r = Some r'" and "role_ok (voting r)" and "r_Term r < MaxUint64"
  shows "vote_steps m (voting r) (voting r')"
  using assms raft_tickElection_steps raft_tickHeartbeat_steps
  by (auto simp: raft_tick_def split: option.splits tickFunc.splits)

lemma raft_applyConfChange_steps:
  assumes "raft_applyConfChange cd cc r = Some (r', cs)" and "m_Type m = MsgSnap"
  shows "vote_steps m (voting r) (voting r')"
proof -
  have "\<exists>r1 cfg pm. voting r1 = voting r \<and> raft_switchToConfig cd cfg pm r1 = Some (r', cs)"
    using assms(1) by (auto simp: raft_applyConfChange_def Let_def go_cases split: prod.splits) (metis voting_updates(2))+
  then show ?thesis using raft_switchToConfig_steps assms(2) by metis
qed

lemma raft_testingStepDown_steps:
  "raft_testingStepDown r = Some (r', e) \<Longrightarrow> vote_steps m (voting r) (voting r')"
  by (auto simp: raft_testingStepDown_def bind_Some_iff split: if_splits dest: raft_stepDown_steps)

section \<open>Starting a node\<close>

lemma RaftConfig_validate_Inr:
  "RaftConfig_validate c = Inr c' \<Longrightarrow> rc_ID c' = rc_ID c \<and> rc_Storage c' = rc_Storage c \<and> rc_ID c \<noteq> PeerNone"
  by (auto simp: RaftConfig_validate_def Let_def split: if_splits)

lemma raft_restoreConfig_follower:
  assumes "raft_restoreConfig cd cs r = Some r'" and "r_state r \<noteq> StateLeader"
  shows "\<exists>C. voting r' = (voting r)\<lparr>v_voters := C\<rparr>"
proof -
  obtain cfg pm cs' where "raft_switchToConfig cd cfg pm r = Some (r', cs')"
    using assms(1) by (auto simp: raft_restoreConfig_def go_cases)
  then have "r' = reconfigured cfg pm r"
    using assms(2) by (cases rule: raft_switchToConfig_cases) auto
  then have "voting r' = (voting r)\<lparr>v_voters := c_Voters cfg\<rparr>"
    by (simp add: reconfigured_def voting_def Let_def)
  then show ?thesis by blast
qed

lemma newRaft_voting:
  assumes "newRaft cd c = Some r"
  obtains st hs cs where "rc_Storage c = Some st" and "st_InitialState st = Inr (hs, cs)"
    and "rc_ID c \<noteq> PeerNone"
    and "\<exists>C. voting r = \<lparr>v_id = rc_ID c, v_term = hs_Term hs, v_vote = hs_Vote hs, v_state = StateFollower,
      v_role = role_of StateFollower, v_ballots = fmempty, v_voters = C, v_granted = [], v_early = []\<rparr>"
proof -
  obtain c' st l hs cs r1 r2 r3 where c': "RaftConfig_validate c = Inr c'"
    and st: "rc_Storage c' = Some st" "st_InitialState st = Inr (hs, cs)"
    and r1: "raft_restoreConfig cd cs (raft_init c' l) = Some r1"
    and r2: "(if \<not> IsEmptyHardState hs then raft_loadState hs r1 else Some r1) = Some r2"
    and a: "(if 0 < rc_Applied c' then do {
            l \<leftarrow> raftLog_appliedTo (rc_Applied c') 0 (r_raftLog r2);
            Some (r2\<lparr>r_raftLog := l\<rparr>)
          } else Some r2) = Some r3"
    and r3: "raft_becomeFollower (r_Term r3) (r_lead r3) r3 = Some r"
    using assms unfolding newRaft_def Let_def case_sum_Some_iff case_prod_Some_iff bind_Some_iff by blast
  have v3: "voting r3 = voting r2" using a by (auto simp: bind_Some_iff split: if_splits)
  note id = RaftConfig_validate_Inr [OF c']
  obtain C where v1: "voting r1 = (voting (raft_init c' l))\<lparr>v_voters := C\<rparr>"
    using raft_restoreConfig_follower [OF r1] by (auto simp: raft_init_def)
  have v2: "voting r2 = (voting r1)\<lparr>v_term := hs_Term hs, v_vote := hs_Vote hs\<rparr>"
  proof (cases "IsEmptyHardState hs")
    case True
    then have "hs_Term hs = 0" "hs_Vote hs = 0"
      by (simp_all add: IsEmptyHardState_def isHardStateEqual_def HardState_zero_def)
    with True r2 v1 show ?thesis by (auto simp: voting_def raft_init_def)
  next
    case False
    with r2 show ?thesis by (auto simp: raft_loadState_def bind_assert_iff voting_def)
  qed
  have "voting r = \<lparr>v_id = rc_ID c, v_term = hs_Term hs, v_vote = hs_Vote hs, v_state = StateFollower,
      v_role = role_of StateFollower, v_ballots = fmempty, v_voters = C, v_granted = [], v_early = []\<rparr>"
    using raft_becomeFollower_voting [OF r3] v3 v2 v1 id
    by (simp add: voting_def raft_init_def)
  with that id st show ?thesis by metis
qed

section \<open>The votes of a node\<close>

text \<open>
  Term and vote in the order in which a node may go through them: a later term, or the
  same term with the same vote, or a first vote.
\<close>

definition later :: "u64 \<times> PeerID \<Rightarrow> u64 \<times> PeerID \<Rightarrow> bool" where
  "later a b \<longleftrightarrow> fst a < fst b \<or> fst a = fst b \<and> (snd a = snd b \<or> snd a = PeerNone)"

abbreviation vote_of :: "voting \<Rightarrow> u64 \<times> PeerID" where
  "vote_of v \<equiv> (v_term v, v_vote v)"

lemma later_refl [simp]: "later a a"
  by (simp add: later_def)

lemma later_trans [trans]: "later a b \<Longrightarrow> later b c \<Longrightarrow> later a c"
  by (auto simp: later_def)

lemma vote_step_later: "vote_step m v v' \<Longrightarrow> later (vote_of v) (vote_of v')"
  by (elim vote_stepE) (auto simp: later_def intro: word_less_succ)

lemma vote_steps_later: "vote_steps m v v' \<Longrightarrow> later (vote_of v) (vote_of v')"
  by (induction rule: rtranclp_induct) (auto dest: vote_step_later intro: later_trans)

text \<open>
  What holds of all the votes \<open>G\<close> a node has granted: they are its own, at most one per
  term, and none contradicts the term and vote it remembers.
\<close>

definition votes_ok :: "granted_vote set \<Rightarrow> PeerID \<Rightarrow> u64 \<times> PeerID \<Rightarrow> bool" where
  "votes_ok G i b \<longleftrightarrow>
     (\<forall>j t c. (j, t, c) \<in> G \<longrightarrow> j = i \<and> t \<noteq> 0 \<and> c \<noteq> PeerNone \<and> later (t, c) b) \<and>
     (\<forall>j t c d. (j, t, c) \<in> G \<longrightarrow> (j, t, d) \<in> G \<longrightarrow> c = d)"

lemma votes_ok_mono: "votes_ok G i b \<Longrightarrow> H \<subseteq> G \<Longrightarrow> later b b' \<Longrightarrow> votes_ok H i b'"
  unfolding votes_ok_def by (blast intro: later_trans)

lemma votes_ok_insert:
  assumes "votes_ok G i b" and "later b (t, c)" and "t \<noteq> 0" and "c \<noteq> PeerNone"
  shows "votes_ok (insert (i, t, c) G) i (t, c)"
proof -
  have old: "j = i \<and> t' \<noteq> 0 \<and> d \<noteq> PeerNone \<and> later (t', d) b" if "(j, t', d) \<in> G" for j t' d
    using assms(1) that unfolding votes_ok_def by blast
  then have le: "j = i \<and> t' \<noteq> 0 \<and> d \<noteq> PeerNone \<and> later (t', d) (t, c)" if "(j, t', d) \<in> G" for j t' d
    using that assms(2) later_trans by blast
  then have "d = c" if "(j, t, d) \<in> G" for j d
    using that unfolding later_def by fastforce
  with le assms show ?thesis unfolding votes_ok_def by auto
qed

lemma word_succ_nonzero: "(m::u64) < n \<Longrightarrow> m + 1 \<noteq> 0"
  using word_less_succ [of m n] by auto

definition voter_inv :: "granted_vote set \<Rightarrow> voting \<Rightarrow> bool" where
  "voter_inv G v \<longleftrightarrow> v_id v \<noteq> PeerNone \<and> v_early v = [] \<and> role_ok v \<and>
     votes_ok (G \<union> set (v_granted v)) (v_id v) (vote_of v)"

lemma vote_step_voter_inv:
  assumes step: "vote_step m v v'" and inv: "voter_inv G v"
    and m: "m_Type m = MsgVote \<Longrightarrow> m_From m \<noteq> PeerNone"
  shows "voter_inv G v' \<and> v_id v' = v_id v \<and> set (v_granted v) \<subseteq> set (v_granted v')"
proof -
  have same: "set (v_granted v') = set (v_granted v) \<Longrightarrow> v_id v' = v_id v \<Longrightarrow> v_early v' = v_early v \<Longrightarrow> ?thesis"
    using inv vote_step_later [OF step] vote_steps_role_ok [OF r_into_rtranclp [of "vote_step m", OF step]]
    by (auto simp: voter_inv_def intro: votes_ok_mono)
  have ins: "votes_ok (insert (v_id v, t, c) (G \<union> set (v_granted v))) (v_id v) (t, c)"
    if "later (vote_of v) (t, c)" "t \<noteq> 0" "c \<noteq> PeerNone" for t c
    using inv that by (auto simp: voter_inv_def intro: votes_ok_insert)
  show ?thesis
    using step
  proof (cases rule: vote_step.cases)
    case (campaign g)
    have "votes_ok (insert (v_id v, v_term v + 1, v_id v) (G \<union> set (v_granted v))) (v_id v) (v_term v + 1, v_id v)"
      using campaign(3) inv word_less_succ [OF campaign(3)] word_succ_nonzero [OF campaign(3)]
      by (intro ins) (auto simp: later_def voter_inv_def)
    then show ?thesis
      using campaign inv by (auto simp: voter_inv_def role_ok_def intro: votes_ok_mono)
  next
    case grant
    then have "votes_ok (insert (v_id v, v_term v, m_From m) (G \<union> set (v_granted v))) (v_id v) (v_term v, m_From m)"
      using m by (intro ins) (auto simp: later_def)
    then show ?thesis using grant inv by (auto simp: voter_inv_def role_ok_def)
  qed (use same in simp_all)
qed

lemma vote_steps_voter_inv:
  assumes "vote_steps m v v'" and "voter_inv G v" and "m_Type m = MsgVote \<Longrightarrow> m_From m \<noteq> PeerNone"
  shows "voter_inv G v' \<and> v_id v' = v_id v \<and> set (v_granted v) \<subseteq> set (v_granted v')"
  using assms
  by (induction rule: rtranclp_induct) (use vote_step_voter_inv in \<open>fastforce+\<close>)

end
