(* ===== verification/Raft_Election.thy ===== *)
theory Raft_Election
  imports Log_Store Raft_Votes
begin

text \<open>
  A cluster of nodes that fail and restart. A node is driven through its \<open>RawNode\<close> with
  asynchronous storage writes: what it hands out in a \<open>Ready\<close> goes to the network or to
  the append thread, which writes the hard state and only then lets the responses go.
  The network loses, repeats, delays and reorders messages at will. In every run of such
  a cluster with a fixed set of voters a term has at most one leader.
\<close>

section \<open>Clusters\<close>

record member =
  mb_node :: RawNode
  mb_appends :: "MsgStorageAppend list"
  mb_durable :: HardState

record cluster =
  cl_ids :: "PeerID set"
  cl_member :: "PeerID \<Rightarrow> member"
  cl_net :: "Message set"
  cl_leaders :: "(u64 \<times> PeerID) set"

text \<open>A message that a peer may have sent: it names its sender, and the term if it is a leader's.\<close>

definition peer_message :: "Message \<Rightarrow> bool" where
  "peer_message m \<longleftrightarrow> m_From m \<noteq> PeerNone \<and> (IsMsgFromLeader (m_Type m) \<longrightarrow> m_Term m \<noteq> 0)"

text \<open>The calls on a \<open>RawNode\<close> other than \<open>Ready\<close>.\<close>

inductive call :: "codec \<Rightarrow> Message set \<Rightarrow> RawNode \<Rightarrow> RawNode \<Rightarrow> bool" for cd net where
  deliver: "m \<in> net \<Longrightarrow> m_To m = r_id (rn_raft rn) \<Longrightarrow> peer_message m \<Longrightarrow> m_Term m < MaxUint64 \<Longrightarrow>
    RawNode_Step cd m rn = Some (rn', e) \<Longrightarrow> call cd net rn rn'"
| tick: "RawNode_Tick cd rn = Some rn' \<Longrightarrow> call cd net rn rn'"
| campaign: "RawNode_Campaign cd rn = Some (rn', e) \<Longrightarrow> call cd net rn rn'"
| propose: "RawNode_Propose cd data rn = Some (rn', e) \<Longrightarrow> call cd net rn rn'"
| proposeConfChange: "RawNode_ProposeConfChange cd cc rn = Some (rn', e) \<Longrightarrow> call cd net rn rn'"
| applyConfChange: "RawNode_ApplyConfChange cd cc rn = Some (rn', cs) \<Longrightarrow> call cd net rn rn'"
| reportUnreachable: "RawNode_ReportUnreachable cd i rn = Some rn' \<Longrightarrow> call cd net rn rn'"
| reportSnapshot: "RawNode_ReportSnapshot cd i st rn = Some rn' \<Longrightarrow> call cd net rn rn'"
| transferLeader: "RawNode_TransferLeader cd i rn = Some rn' \<Longrightarrow> call cd net rn rn'"
| forgetLeader: "RawNode_ForgetLeader cd rn = Some (rn', e) \<Longrightarrow> call cd net rn rn'"
| stepDown: "RawNode_TestingStepDown rn = Some (rn', e) \<Longrightarrow> call cd net rn rn'"

abbreviation plain :: "StorageMessage \<Rightarrow> Message" where
  "plain m \<equiv> Message.truncate m"

text \<open>The leaders after a call at node \<open>i\<close>.\<close>

definition led_by :: "PeerID \<Rightarrow> RawNode \<Rightarrow> (u64 \<times> PeerID) set" where
  "led_by i rn = (if r_state (rn_raft rn) = StateLeader then {(r_Term (rn_raft rn), i)} else {})"

text \<open>The storage and the store liveness of a node are seen as they are at the moment.\<close>

definition with_environment :: "Storage \<Rightarrow> StoreLiveness \<Rightarrow> RawNode \<Rightarrow> RawNode" where
  "with_environment st sl rn = rn\<lparr>rn_raft := (rn_raft rn)
     \<lparr>r_raftLog := (r_raftLog (rn_raft rn))\<lparr>rl_storage := st\<rparr>, r_storeLiveness := sl\<rparr>\<rparr>"

text \<open>
  A step of the cluster, as long as the node that takes it has voters \<open>C\<close> and a term
  below the largest one.
\<close>

inductive cluster_step :: "codec \<Rightarrow> JointConfig \<Rightarrow> cluster \<Rightarrow> cluster \<Rightarrow> bool" for cd C where
  called: "i \<in> cl_ids S \<Longrightarrow> mb = cl_member S i \<Longrightarrow> r_Term (rn_raft (mb_node mb)) < MaxUint64 \<Longrightarrow>
    call cd (cl_net S) (mb_node mb) rn \<Longrightarrow> c_Voters (r_config (rn_raft rn)) = C \<Longrightarrow>
    cluster_step cd C S (S\<lparr>cl_member := (cl_member S)(i := mb\<lparr>mb_node := rn\<rparr>),
      cl_leaders := cl_leaders S \<union> led_by i rn\<rparr>)"
| ready: "i \<in> cl_ids S \<Longrightarrow> mb = cl_member S i \<Longrightarrow> RawNode_Ready cd (mb_node mb) = Some (rn, rd) \<Longrightarrow>
    splitLocalStorageMsgs (rd_Messages rd) = Some (others, app, apl) \<Longrightarrow>
    cluster_step cd C S (S\<lparr>cl_member := (cl_member S)(i :=
        mb\<lparr>mb_node := rn, mb_appends := mb_appends mb @ (case app of Some m \<Rightarrow> [m] | None \<Rightarrow> [])\<rparr>),
      cl_net := cl_net S \<union> plain ` set others \<union> (case apl of Some m \<Rightarrow> set (m_Responses m) | None \<Rightarrow> {})\<rparr>)"
| appended: "i \<in> cl_ids S \<Longrightarrow> mb = cl_member S i \<Longrightarrow> mb_appends mb = m # ms \<Longrightarrow>
    cluster_step cd C S (S\<lparr>cl_member := (cl_member S)(i :=
        mb\<lparr>mb_appends := ms, mb_durable := LogStore_setHardState m (mb_durable mb)\<rparr>),
      cl_net := cl_net S \<union> set (MsgStorageAppend_OnDone m)\<rparr>)"
| restart: "i \<in> cl_ids S \<Longrightarrow> mb = cl_member S i \<Longrightarrow> rc_ID c = i \<Longrightarrow> rc_AsyncStorageWrites c \<Longrightarrow> rc_Storage c = Some st \<Longrightarrow>
    st_InitialState st = Inr (mb_durable mb, cs) \<Longrightarrow> NewRawNode cd c = Some rn \<Longrightarrow>
    c_Voters (r_config (rn_raft rn)) = C \<Longrightarrow>
    cluster_step cd C S (S\<lparr>cl_member := (cl_member S)(i := mb\<lparr>mb_node := rn, mb_appends := []\<rparr>)\<rparr>)"
| environment: "i \<in> cl_ids S \<Longrightarrow> mb = cl_member S i \<Longrightarrow>
    cluster_step cd C S (S\<lparr>cl_member := (cl_member S)(i :=
      mb\<lparr>mb_node := with_environment st sl (mb_node mb)\<rparr>)\<rparr>)"

text \<open>At first every node has just been started, on a disk that holds some hard state.\<close>

definition cluster_start :: "codec \<Rightarrow> JointConfig \<Rightarrow> cluster \<Rightarrow> bool" where
  "cluster_start cd C S \<longleftrightarrow> cl_net S = {} \<and> cl_leaders S = {} \<and>
     (\<forall>i\<in>cl_ids S. \<exists>c st cs. mb_appends (cl_member S i) = [] \<and> rc_ID c = i \<and> rc_AsyncStorageWrites c \<and>
        rc_Storage c = Some st \<and> st_InitialState st = Inr (mb_durable (cl_member S i), cs) \<and>
        NewRawNode cd c = Some (mb_node (cl_member S i)) \<and>
        c_Voters (r_config (rn_raft (mb_node (cl_member S i)))) = C)"

section \<open>What the nodes do to their votes\<close>

text \<open>The message a call handles is one the network has for the node, or not about elections.\<close>

definition handles :: "Message set \<Rightarrow> PeerID \<Rightarrow> Message \<Rightarrow> bool" where
  "handles net i m \<longleftrightarrow> m \<in> net \<and> m_To m = i \<and> m_From m \<noteq> PeerNone \<or>
     m_Type m \<noteq> MsgVote \<and> m_Type m \<noteq> MsgVoteResp"

lemma RawNode_raftStep_steps:
  assumes "RawNode_raftStep cd m rn = Some (rn', e)" and "role_ok (voting (rn_raft rn))"
    and "r_Term (rn_raft rn) < MaxUint64" and "m_Term m < MaxUint64"
    and "IsMsgFromLeader (m_Type m) \<Longrightarrow> m_Term m \<noteq> 0"
  shows "vote_steps m (voting (rn_raft rn)) (voting (rn_raft rn')) \<and>
    rn_prevHardSt rn' = rn_prevHardSt rn \<and> rn_asyncStorageWrites rn' = rn_asyncStorageWrites rn"
  using assms by (auto simp: RawNode_raftStep_def bind_Some_iff intro: raft_Step_steps)

lemma local_call_steps:
  assumes "RawNode_raftStep cd m rn = Some (rn', e)" and "m_Term m = 0" and "\<not> IsMsgFromLeader (m_Type m)"
    and "m_Type m \<noteq> MsgVote" and "m_Type m \<noteq> MsgVoteResp"
    and "role_ok (voting (rn_raft rn))" and "r_Term (rn_raft rn) < MaxUint64"
  shows "\<exists>m. vote_steps m (voting (rn_raft rn)) (voting (rn_raft rn')) \<and> handles net (r_id (rn_raft rn)) m \<and>
    rn_prevHardSt rn' = rn_prevHardSt rn \<and> rn_asyncStorageWrites rn' = rn_asyncStorageWrites rn"
  using RawNode_raftStep_steps [OF assms(1,6,7)] assms(2-5)
  by (intro exI [of _ m]) (simp add: handles_def word_gt_0)

lemma call_steps:
  assumes "call cd net rn rn'" and ok: "role_ok (voting (rn_raft rn))" and lt: "r_Term (rn_raft rn) < MaxUint64"
  shows "\<exists>m. vote_steps m (voting (rn_raft rn)) (voting (rn_raft rn')) \<and> handles net (r_id (rn_raft rn)) m \<and>
    rn_prevHardSt rn' = rn_prevHardSt rn \<and> rn_asyncStorageWrites rn' = rn_asyncStorageWrites rn"
  (is "\<exists>m. ?P m")
  using assms(1)
proof (cases rule: call.cases)
  case (deliver m e)
  have "rn' = rn \<or> RawNode_raftStep cd m rn = Some (rn', e)"
    using deliver(5) by (auto simp: RawNode_Step_def split: if_splits)
  then show ?thesis
    using RawNode_raftStep_steps [OF _ ok lt deliver(4)] deliver
    by (auto simp: handles_def peer_message_def)
next
  case tick
  then have "?P Message_zero"
    using raft_tick_steps [OF _ ok lt, of cd]
    by (auto simp: RawNode_Tick_def bind_Some_iff handles_def Message_zero_def)
  then show ?thesis ..
next
  case (proposeConfChange cc e)
  show ?thesis
  proof (cases "confChangeToMsg cd (Some cc)")
    case None
    with proposeConfChange have "?P Message_zero"
      by (simp add: RawNode_ProposeConfChange_def handles_def Message_zero_def)
    then show ?thesis ..
  next
    case (Some m)
    with proposeConfChange have "RawNode_raftStep cd m rn = Some (rn', e)"
      by (simp add: RawNode_ProposeConfChange_def)
    then show ?thesis
      by (rule local_call_steps [OF _ _ _ _ _ ok lt])
        (simp_all add: confChangeToMsg_type [OF Some] confChangeToMsg_term [OF Some])
  qed
next
  case (applyConfChange cc cs)
  then have "?P (Message_zero\<lparr>m_Type := MsgSnap\<rparr>)"
    by (auto simp: RawNode_ApplyConfChange_def bind_Some_iff handles_def Message_zero_def
        intro: raft_applyConfChange_steps)
  then show ?thesis ..
next
  case (stepDown e)
  then have "?P Message_zero"
    by (auto simp: RawNode_TestingStepDown_def bind_Some_iff handles_def Message_zero_def
        intro: raft_testingStepDown_steps)
  then show ?thesis ..
next
  case (campaign e)
  then show ?thesis
    by (intro local_call_steps [OF _ _ _ _ _ ok lt]) (auto simp: RawNode_Campaign_def Message_zero_def)
next
  case (propose data e)
  then show ?thesis
    by (intro local_call_steps [OF _ _ _ _ _ ok lt]) (auto simp: RawNode_Propose_def Message_zero_def)
next
  case (reportUnreachable i)
  then obtain e where "RawNode_raftStep cd (Message_zero\<lparr>m_Type := MsgUnreachable, m_From := i\<rparr>) rn = Some (rn', e)"
    by (auto simp: RawNode_ReportUnreachable_def bind_Some_iff)
  then show ?thesis by (rule local_call_steps [OF _ _ _ _ _ ok lt]) (auto simp: Message_zero_def)
next
  case (reportSnapshot i st)
  then obtain e b where
    "RawNode_raftStep cd (Message_zero\<lparr>m_Type := MsgSnapStatus, m_From := i, m_Reject := b\<rparr>) rn = Some (rn', e)"
    by (auto simp: RawNode_ReportSnapshot_def bind_Some_iff Let_def)
  then show ?thesis by (rule local_call_steps [OF _ _ _ _ _ ok lt]) (auto simp: Message_zero_def)
next
  case (transferLeader i)
  then obtain e where "RawNode_raftStep cd (Message_zero\<lparr>m_Type := MsgTransferLeader, m_From := i\<rparr>) rn = Some (rn', e)"
    by (auto simp: RawNode_TransferLeader_def bind_Some_iff)
  then show ?thesis by (rule local_call_steps [OF _ _ _ _ _ ok lt]) (auto simp: Message_zero_def)
next
  case (forgetLeader e)
  then show ?thesis
    by (intro local_call_steps [OF _ _ _ _ _ ok lt]) (auto simp: RawNode_ForgetLeader_def Message_zero_def)
qed

section \<open>Ballots and leaders\<close>

definition grants :: "Message set \<Rightarrow> granted_vote set" where
  "grants M = grant_of ` {m \<in> M. is_grant m}"

lemma grants_Un [simp]: "grants (M \<union> N) = grants M \<union> grants N"
  by (auto simp: grants_def)

lemma grants_empty [simp]: "grants {} = {}"
  by (simp add: grants_def)

lemma grants_I: "m \<in> M \<Longrightarrow> is_grant m \<Longrightarrow> (m_From m, m_Term m, m_To m) \<in> grants M"
  by (auto simp: grants_def grant_of_def)

text \<open>A set of granted votes that elects candidate \<open>i\<close> for term \<open>t\<close>.\<close>

definition elected :: "JointConfig \<Rightarrow> granted_vote set \<Rightarrow> u64 \<Rightarrow> PeerID \<Rightarrow> bool" where
  "elected C G t i \<longleftrightarrow> (\<exists>b. JointConfig_VoteResult C b = VoteWon \<and>
     (\<forall>j. fmlookup b j = Some True \<longrightarrow> (j, t, i) \<in> G))"

lemma elected_mono: "elected C G t i \<Longrightarrow> G \<subseteq> H \<Longrightarrow> elected C H t i"
  unfolding elected_def by blast

text \<open>Two candidates elected for a term by voters that vote once are the same.\<close>

lemma elected_unique:
  assumes "elected C G t i" and "elected C G t j" and "JointConfig_IDs C \<noteq> {||}"
    and "\<And>p c d. (p, t, c) \<in> G \<Longrightarrow> (p, t, d) \<in> G \<Longrightarrow> c = d"
  shows "i = j"
proof -
  obtain b b' where "JointConfig_VoteResult C b = VoteWon" "JointConfig_VoteResult C b' = VoteWon"
    and bal: "\<And>p. fmlookup b p = Some True \<Longrightarrow> (p, t, i) \<in> G" "\<And>p. fmlookup b' p = Some True \<Longrightarrow> (p, t, j) \<in> G"
    using assms(1,2) unfolding elected_def by blast
  then obtain p where "fmlookup b p = Some True" "fmlookup b' p = Some True"
    using joint_quorums.overlap_votes [OF assms(3)] by blast
  with bal assms(4) show ?thesis by blast
qed

text \<open>What backs the role of a node: its ballots are granted votes, its leadership an election.\<close>

definition backed :: "JointConfig \<Rightarrow> granted_vote set \<Rightarrow> voting \<Rightarrow> bool" where
  "backed C G v \<longleftrightarrow>
     (v_state v = StateCandidate \<longrightarrow>
        (\<forall>j. fmlookup (v_ballots v) j = Some True \<longrightarrow> (j, v_term v, v_id v) \<in> G)) \<and>
     (v_state v = StateLeader \<longrightarrow> elected C G (v_term v) (v_id v))"

lemma backed_mono: "backed C G v \<Longrightarrow> G \<subseteq> H \<Longrightarrow> backed C H v"
  unfolding backed_def using elected_mono by blast

lemma lookup_add_ballot:
  "fmlookup (add_ballot i b bs) j = Some x \<Longrightarrow> fmlookup bs j = Some x \<or> j = i \<and> x = b"
  by (auto simp: add_ballot_def split: if_splits)

lemma vote_step_backed:
  assumes step: "vote_step m v v'" and v: "backed C G v" and "m_Type m \<noteq> MsgSnap \<Longrightarrow> v_voters v = C"
    and m: "m_Type m = MsgVoteResp \<Longrightarrow> \<not> m_Reject m \<Longrightarrow> m_Term m \<noteq> 0 \<and> (m_From m, m_Term m, v_id v) \<in> G"
  shows "backed C G v' \<and> v_id v' = v_id v \<and> (m_Type m \<noteq> MsgSnap \<longrightarrow> v_voters v' = C)"
  using step
proof (cases rule: vote_step.cases)
  case ballot
  then show ?thesis
    using assms(3) v m by (auto simp: backed_def dest!: lookup_add_ballot)
next
  case elect
  then have "elected C G (v_term v) (v_id v)"
    using v assms(3) unfolding elected_def backed_def by auto
  then show ?thesis using elect assms(3) by (simp add: backed_def)
qed (use assms in \<open>auto simp: backed_def\<close>)

lemma vote_steps_backed:
  assumes "vote_steps m v v'" and "backed C G v" and "v_voters v = C"
    and "m_Type m = MsgVoteResp \<Longrightarrow> \<not> m_Reject m \<Longrightarrow> m_Term m \<noteq> 0 \<and> (m_From m, m_Term m, v_id v) \<in> G"
  shows "backed C G v' \<and> v_id v' = v_id v \<and> (m_Type m \<noteq> MsgSnap \<longrightarrow> v_voters v' = C)"
  using assms
proof (induction rule: rtranclp_induct)
  case (step v1 v2)
  then show ?case using vote_step_backed [OF step.hyps(2), of C G] by auto
qed simp

section \<open>Ready\<close>

lemma with_responses_simps [simp]:
  "m_Type (with_responses m rs) = m_Type m" "m_Term (with_responses m rs) = m_Term m"
  "m_Vote (with_responses m rs) = m_Vote m" "m_Commit (with_responses m rs) = m_Commit m"
  "m_Lead (with_responses m rs) = m_Lead m" "m_LeadEpoch (with_responses m rs) = m_LeadEpoch m"
  "m_Responses (with_responses m rs) = rs" "Message.truncate (with_responses m rs) = m"
  by (simp_all add: with_responses_def Message.extend_def StorageMessage.fields_def Message.truncate_def)

lemma newStorageAppendMsg_simps:
  "m_Type (newStorageAppendMsg r rd) = MsgStorageAppend"
  "set (m_Responses (newStorageAppendMsg r rd)) =
     set (r_msgsAfterAppend r) \<union> (if needStorageAppendRespMsg rd then {newStorageAppendRespMsg r rd} else {})"
  by (auto simp: newStorageAppendMsg_def Let_def)

lemma newStorageAppendMsg_HardState:
  "MsgStorageAppend_HardState (newStorageAppendMsg r rd) = rd_HardState rd"
proof (cases "IsEmptyHardState (rd_HardState rd)")
  case True
  then show ?thesis
    by (simp add: MsgStorageAppend_HardState_def newStorageAppendMsg_def Let_def IsEmptyHardState_def
        isHardStateEqual_def HardState_zero_def Message_zero_def)
qed (simp add: MsgStorageAppend_HardState_def newStorageAppendMsg_def Let_def)

lemma newStorageAppendRespMsg_no_grant [simp]: "\<not> is_grant (newStorageAppendRespMsg r rd)"
  by (simp add: newStorageAppendRespMsg_def Let_def is_grant_def Message_zero_def)

lemma newStorageApplyMsg_simps:
  "m_Type (newStorageApplyMsg r rd) = MsgStorageApply"
  "m_Responses (newStorageApplyMsg r rd) = [newStorageApplyRespMsg r (rd_CommittedEntries rd)]"
  by (simp_all add: newStorageApplyMsg_def)

lemma newStorageApplyRespMsg_no_grant [simp]: "\<not> is_grant (newStorageApplyRespMsg r es)"
  by (simp add: newStorageApplyRespMsg_def is_grant_def Message_zero_def)

text \<open>The messages that go with a \<open>Ready\<close>, in the parts that the replica splits them into.\<close>

lemma addStorageMsgs_Messages:
  "rd_Messages (addStorageMsgs r rd) = rd_Messages rd @
     (case if needStorageAppendMsg r rd then Some (newStorageAppendMsg r rd) else None of Some m \<Rightarrow> [m] | None \<Rightarrow> []) @
     (case if needStorageApplyMsg rd then Some (newStorageApplyMsg r rd) else None of Some m \<Rightarrow> [m] | None \<Rightarrow> [])"
  by (simp add: addStorageMsgs_def needStorageApplyMsg_def newStorageApplyMsg_def Let_def)

lemma addStorageMsgs_simps [simp]:
  "rd_HardState (addStorageMsgs r rd) = rd_HardState rd"
  "rd_SoftState (addStorageMsgs r rd) = rd_SoftState rd"
  by (simp_all add: addStorageMsgs_def Let_def)

lemma newReady_simps:
  "rd_Messages (RawNode_newReady rn es cs) = map (\<lambda>m. with_responses m []) (r_msgs (rn_raft rn))"
  "rd_HardState (RawNode_newReady rn es cs) = (if isHardStateEqual (raft_hardState (rn_raft rn)) (rn_prevHardSt rn)
     then HardState_zero else raft_hardState (rn_raft rn))"
  by (simp_all add: RawNode_newReady_def Let_def)

lemma RawNode_acceptReady_voting:
  assumes "RawNode_acceptReady cd rd rn = Some rn'" and "rn_asyncStorageWrites rn"
  shows "voting (rn_raft rn') = (voting (rn_raft rn))\<lparr>v_granted := [], v_early := []\<rparr>"
    and "rn_asyncStorageWrites rn'"
    and "rn_prevHardSt rn' = (if IsEmptyHardState (rd_HardState rd) then rn_prevHardSt rn else rd_HardState rd)"
  using assms by (auto simp: RawNode_acceptReady_def Let_def bind_Some_iff voting_def split: option.splits if_splits)

lemma RawNode_Ready_parts:
  assumes "RawNode_Ready cd rn = Some (rn', rd)" and "rn_asyncStorageWrites rn"
    and "v_early (voting (rn_raft rn)) = []"
  obtains rd0 where "splitLocalStorageMsgs (rd_Messages rd) =
      Some (map (\<lambda>m. with_responses m []) (r_msgs (rn_raft rn)),
        if needStorageAppendMsg (rn_raft rn) rd0 then Some (newStorageAppendMsg (rn_raft rn) rd0) else None,
        if needStorageApplyMsg rd0 then Some (newStorageApplyMsg (rn_raft rn) rd0) else None)"
    and "rd_HardState rd0 = (if isHardStateEqual (raft_hardState (rn_raft rn)) (rn_prevHardSt rn)
      then HardState_zero else raft_hardState (rn_raft rn))"
    and "rd_HardState rd = rd_HardState rd0"
proof -
  obtain es cs where rd: "rd = addStorageMsgs (rn_raft rn) (RawNode_newReady rn es cs)"
    using assms(1,2) by (auto simp: RawNode_Ready_def RawNode_readyWithoutAccept_def bind_Some_iff Let_def)
  have "list_all (\<lambda>m. m_Type m \<noteq> MsgStorageAppend \<and> m_Type m \<noteq> MsgStorageApply)
      (map (\<lambda>m. with_responses m []) (r_msgs (rn_raft rn)))"
    using assms(3) by (auto simp: voting_def list_all_iff filter_empty_conv stray_def)
  then have "splitLocalStorageMsgs (rd_Messages rd) =
      Some (map (\<lambda>m. with_responses m []) (r_msgs (rn_raft rn)),
        if needStorageAppendMsg (rn_raft rn) (RawNode_newReady rn es cs)
        then Some (newStorageAppendMsg (rn_raft rn) (RawNode_newReady rn es cs)) else None,
        if needStorageApplyMsg (RawNode_newReady rn es cs)
        then Some (newStorageApplyMsg (rn_raft rn) (RawNode_newReady rn es cs)) else None)"
    unfolding rd addStorageMsgs_Messages newReady_simps(1)
    by (rule splitLocalStorageMsgs_parts)
      (auto simp: newStorageAppendMsg_simps newStorageApplyMsg_simps split: if_splits)
  then show ?thesis by (rule that) (simp_all add: rd newReady_simps)
qed

text \<open>The queue of the append thread: the votes in each write are covered by the hard state it sets.\<close>

definition vote_hs :: "HardState \<Rightarrow> u64 \<times> PeerID" where
  "vote_hs h = (hs_Term h, hs_Vote h)"

definition queued :: "MsgStorageAppend list \<Rightarrow> granted_vote set" where
  "queued ms = (\<Union>m\<in>set ms. grants (set (m_Responses m)))"

lemma queued_simps [simp]:
  "queued [] = {}" "queued (m # ms) = grants (set (m_Responses m)) \<union> queued ms"
  "queued (ms @ ms') = queued ms \<union> queued ms'"
  by (auto simp: queued_def)

definition covered :: "granted_vote set \<Rightarrow> HardState \<Rightarrow> bool" where
  "covered G h \<longleftrightarrow> (\<forall>j t c. (j, t, c) \<in> G \<longrightarrow> later (t, c) (vote_hs h))"

fun appends_ok :: "HardState \<Rightarrow> MsgStorageAppend list \<Rightarrow> bool" where
  "appends_ok h [] \<longleftrightarrow> True"
| "appends_ok h (m # ms) \<longleftrightarrow>
     later (vote_hs h) (vote_hs (LogStore_setHardState m h)) \<and>
     covered (grants (set (m_Responses m))) (LogStore_setHardState m h) \<and>
     appends_ok (LogStore_setHardState m h) ms"

definition flushed :: "HardState \<Rightarrow> MsgStorageAppend list \<Rightarrow> HardState" where
  "flushed h ms = foldl (\<lambda>h m. LogStore_setHardState m h) h ms"

lemma flushed_simps [simp]:
  "flushed h [] = h" "flushed h (m # ms) = flushed (LogStore_setHardState m h) ms"
  "flushed h (ms @ ms') = flushed (flushed h ms) ms'"
  by (simp_all add: flushed_def)

lemma appends_ok_append [simp]:
  "appends_ok h (ms @ ms') \<longleftrightarrow> appends_ok h ms \<and> appends_ok (flushed h ms) ms'"
  by (induction ms arbitrary: h) auto

lemma appends_ok_later: "appends_ok h ms \<Longrightarrow> later (vote_hs h) (vote_hs (flushed h ms))"
  by (induction ms arbitrary: h) (auto intro: later_trans)

lemma covered_Un [simp]: "covered (G \<union> H) h \<longleftrightarrow> covered G h \<and> covered H h"
  by (auto simp: covered_def)

lemma covered_mono: "covered G h \<Longrightarrow> later (vote_hs h) (vote_hs h') \<Longrightarrow> covered G h'"
  unfolding covered_def by (blast intro: later_trans)

lemma covered_appends: "appends_ok h ms \<Longrightarrow> covered (queued ms) (flushed h ms)"
proof (induction ms arbitrary: h)
  case (Cons m ms)
  then show ?case using appends_ok_later covered_mono by auto
qed (simp add: covered_def)

section \<open>The invariant of a cluster\<close>

definition own :: "PeerID \<Rightarrow> granted_vote set \<Rightarrow> granted_vote set" where
  "own i G = {g \<in> G. fst g = i}"

lemma own_simps [simp]: "own i {} = {}" "own i (G \<union> H) = own i G \<union> own i H"
  by (auto simp: own_def)

abbreviation mb_voting :: "member \<Rightarrow> voting" where
  "mb_voting mb \<equiv> voting (rn_raft (mb_node mb))"

definition member_inv :: "JointConfig \<Rightarrow> granted_vote set \<Rightarrow> PeerID \<Rightarrow> member \<Rightarrow> bool" where
  "member_inv C N i mb \<longleftrightarrow>
     v_id (mb_voting mb) = i \<and> v_voters (mb_voting mb) = C \<and> rn_asyncStorageWrites (mb_node mb) \<and>
     voter_inv (own i N \<union> queued (mb_appends mb)) (mb_voting mb) \<and> backed C N (mb_voting mb) \<and>
     covered (own i N) (mb_durable mb) \<and> appends_ok (mb_durable mb) (mb_appends mb) \<and>
     vote_hs (flushed (mb_durable mb) (mb_appends mb)) = vote_hs (rn_prevHardSt (mb_node mb)) \<and>
     later (vote_hs (rn_prevHardSt (mb_node mb))) (vote_of (mb_voting mb))"

definition cluster_inv :: "JointConfig \<Rightarrow> cluster \<Rightarrow> bool" where
  "cluster_inv C S \<longleftrightarrow>
     (\<forall>i\<in>cl_ids S. member_inv C (grants (cl_net S)) i (cl_member S i)) \<and>
     (\<forall>j t c. (j, t, c) \<in> grants (cl_net S) \<longrightarrow> j \<in> cl_ids S \<and> t \<noteq> 0) \<and>
     (\<forall>t i. (t, i) \<in> cl_leaders S \<longrightarrow> elected C (grants (cl_net S)) t i)"

lemma member_inv_calledI:
  assumes inv: "member_inv C (grants net) i mb" and call: "call cd net (mb_node mb) rn"
    and lt: "r_Term (rn_raft (mb_node mb)) < MaxUint64" and C: "c_Voters (r_config (rn_raft rn)) = C"
    and nz: "\<And>j t c. (j, t, c) \<in> grants net \<Longrightarrow> t \<noteq> 0"
  shows "member_inv C (grants net) i (mb\<lparr>mb_node := rn\<rparr>)"
proof -
  note mb = inv [unfolded member_inv_def]
  have id: "r_id (rn_raft (mb_node mb)) = i" using mb by (simp add: voting_fields)
  obtain m where m: "vote_steps m (mb_voting mb) (voting (rn_raft rn))" "handles net i m"
    and rn: "rn_prevHardSt rn = rn_prevHardSt (mb_node mb)"
      "rn_asyncStorageWrites rn = rn_asyncStorageWrites (mb_node mb)"
    using call_steps [OF call _ lt] mb id by (auto simp: voter_inv_def)
  have 1: "voter_inv (own i (grants net) \<union> queued (mb_appends mb)) (voting (rn_raft rn)) \<and>
      v_id (voting (rn_raft rn)) = v_id (mb_voting mb)"
    using vote_steps_voter_inv [OF m(1)] mb m(2) by (auto simp: handles_def)
  have grant: "m_Term m \<noteq> 0 \<and> (m_From m, m_Term m, v_id (mb_voting mb)) \<in> grants net"
    if "m_Type m = MsgVoteResp" "\<not> m_Reject m"
  proof -
    have "m \<in> net" "m_To m = i" using m(2) that by (auto simp: handles_def)
    then have "(m_From m, m_Term m, i) \<in> grants net" using grants_I [of m net] that by (simp add: is_grant_def)
    then show ?thesis using nz mb by auto
  qed
  have 2: "backed C (grants net) (voting (rn_raft rn))"
    using vote_steps_backed [OF m(1), of C "grants net"] mb grant by auto
  show ?thesis
    using mb 1 2 C rn later_trans vote_steps_later [OF m(1)]
    by (simp add: member_inv_def voting_fields) blast
qed

lemma later_zero: "later a (0, 0) \<Longrightarrow> a = (0, 0)"
  by (cases a) (auto simp: later_def)

text \<open>The vote that a \<open>Ready\<close> makes durable is the vote of the node.\<close>

lemma vote_hs_ready:
  assumes "later (vote_hs h) (vote_of (voting r))"
    and "hs = (if isHardStateEqual (raft_hardState r) p then HardState_zero else raft_hardState r)"
    and "vote_hs h = vote_hs p"
  shows "vote_hs (if IsEmptyHardState hs then h else hs) = vote_of (voting r)"
proof -
  have v: "vote_hs (raft_hardState r) = vote_of (voting r)"
    by (simp add: vote_hs_def raft_hardState_def voting_fields)
  show ?thesis
  proof (cases "isHardStateEqual (raft_hardState r) p \<or> raft_hardState r = HardState_zero")
    case True
    then have "vote_hs h = vote_of (voting r)"
      using assms v later_zero [of "vote_hs h"]
      by (auto simp: isHardStateEqual_def vote_hs_def HardState_zero_def)
    moreover have "IsEmptyHardState hs"
      using True assms(2) by (auto simp: IsEmptyHardState_def isHardStateEqual_def)
    ultimately show ?thesis by simp
  next
    case False
    then show ?thesis using assms(2) v by (simp add: IsEmptyHardState_def isHardStateEqual_def)
  qed
qed

lemma grants_early:
  "v_early (voting r) = [] \<Longrightarrow> grants (plain ` set (map (\<lambda>m. with_responses m []) (r_msgs r))) = {}"
  by (auto simp: grants_def voting_def filter_empty_conv stray_def image_image)

lemma grants_after: "grants (set (r_msgsAfterAppend r)) = set (v_granted (voting r))"
  by (auto simp: grants_def voting_def)

lemma votes_ok_covered: "votes_ok G i (vote_hs h) \<Longrightarrow> covered G h"
  unfolding votes_ok_def covered_def by blast

lemma member_inv_readyI:
  assumes inv: "member_inv C N i mb" and rdy: "RawNode_Ready cd (mb_node mb) = Some (rn, rd)"
    and split: "splitLocalStorageMsgs (rd_Messages rd) = Some (others, app, apl)"
  shows "member_inv C N i (mb\<lparr>mb_node := rn, mb_appends := mb_appends mb @ (case app of Some m \<Rightarrow> [m] | None \<Rightarrow> [])\<rparr>)"
    and "grants (plain ` set others \<union> (case apl of Some m \<Rightarrow> set (m_Responses m) | None \<Rightarrow> {})) = {}"
proof -
  note mb = inv [unfolded member_inv_def]
  let ?r = "rn_raft (mb_node mb)" and ?h = "flushed (mb_durable mb) (mb_appends mb)"
  have early: "v_early (voting ?r) = []" using mb by (simp add: voter_inv_def)
  obtain rd0 where parts: "others = map (\<lambda>m. with_responses m []) (r_msgs ?r)"
      "app = (if needStorageAppendMsg ?r rd0 then Some (newStorageAppendMsg ?r rd0) else None)"
      "apl = (if needStorageApplyMsg rd0 then Some (newStorageApplyMsg ?r rd0) else None)"
    and hs: "rd_HardState rd0 = (if isHardStateEqual (raft_hardState ?r) (rn_prevHardSt (mb_node mb))
      then HardState_zero else raft_hardState ?r)" "rd_HardState rd = rd_HardState rd0"
    using RawNode_Ready_parts [OF rdy _ early] mb split by auto
  show "grants (plain ` set others \<union> (case apl of Some m \<Rightarrow> set (m_Responses m) | None \<Rightarrow> {})) = {}"
    using grants_early [OF early] by (simp add: parts newStorageApplyMsg_simps) (simp add: grants_def)
  obtain rd1 where "RawNode_acceptReady cd rd1 (mb_node mb) = Some rn" "rd1 = rd"
    using rdy by (auto simp: RawNode_Ready_def bind_Some_iff)
  then have acc: "voting (rn_raft rn) = (voting ?r)\<lparr>v_granted := [], v_early := []\<rparr>" "rn_asyncStorageWrites rn"
      "rn_prevHardSt rn = (if IsEmptyHardState (rd_HardState rd) then rn_prevHardSt (mb_node mb) else rd_HardState rd)"
    using RawNode_acceptReady_voting mb by blast+
  let ?h' = "if IsEmptyHardState (rd_HardState rd) then ?h else rd_HardState rd"
  let ?ms = "case app of Some m \<Rightarrow> [m] | None \<Rightarrow> []"
  have vh: "vote_hs ?h' = vote_of (voting ?r)"
    by (rule vote_hs_ready [where p = "rn_prevHardSt (mb_node mb)"]) (use mb hs in auto)
  have vp: "vote_hs (rn_prevHardSt rn) = vote_of (voting ?r)"
    unfolding acc(3) by (rule vote_hs_ready [where p = "rn_prevHardSt (mb_node mb)"]) (use mb hs in auto)
  have flush: "flushed ?h ?ms = ?h'"
    using hs(2) by (auto simp: parts(2) LogStore_setHardState_def newStorageAppendMsg_HardState Let_def
        needStorageAppendMsg_def)
  have queue: "queued ?ms = set (v_granted (voting ?r))"
    using grants_after [of ?r]
    by (auto simp: parts(2) newStorageAppendMsg_simps needStorageAppendMsg_def grants_def)
  have cov: "covered (set (v_granted (voting ?r))) ?h'"
    using mb vh by (intro votes_ok_covered [of _ i]) (auto simp: voter_inv_def intro: votes_ok_mono)
  have app: "appends_ok ?h ?ms"
    using flush queue cov vh mb by (auto split: option.splits)
  have voter: "voter_inv (own i N \<union> queued (mb_appends mb @ ?ms)) (voting (rn_raft rn))"
    using mb by (auto simp: acc(1) queue voter_inv_def role_ok_def Un_assoc)
  show "member_inv C N i (mb\<lparr>mb_node := rn, mb_appends := mb_appends mb @ ?ms\<rparr>)"
    unfolding member_inv_def using mb app voter vp acc(2) vh unfolding flush [symmetric]
    by (auto simp: acc(1) backed_def)
qed

lemma queued_own: "voter_inv G v \<Longrightarrow> H \<subseteq> G \<Longrightarrow> v_id v = i \<Longrightarrow> own i H = H"
  unfolding voter_inv_def votes_ok_def own_def by fastforce

lemma member_inv_appendedI:
  assumes inv: "member_inv C N i mb" and ms: "mb_appends mb = m # ms"
  shows "member_inv C (N \<union> grants (set (m_Responses m))) i
      (mb\<lparr>mb_appends := ms, mb_durable := LogStore_setHardState m (mb_durable mb)\<rparr>)"
    and "\<And>j t c. (j, t, c) \<in> grants (set (m_Responses m)) \<Longrightarrow> j = i \<and> t \<noteq> 0"
proof -
  note mb = inv [unfolded member_inv_def ms]
  let ?G = "grants (set (m_Responses m))"
  have own: "own i ?G = ?G"
    by (rule queued_own [of "own i N \<union> queued (m # ms)" "mb_voting mb"]) (use mb in auto)
  show "member_inv C (N \<union> ?G) i (mb\<lparr>mb_appends := ms, mb_durable := LogStore_setHardState m (mb_durable mb)\<rparr>)"
    using mb own covered_mono [of "own i N" "mb_durable mb" "LogStore_setHardState m (mb_durable mb)"]
    by (auto simp: member_inv_def Un_assoc intro: backed_mono)
  show "j = i \<and> t \<noteq> 0" if "(j, t, c) \<in> ?G" for j t c
    using mb that unfolding voter_inv_def votes_ok_def by auto
qed

lemma member_inv_other:
  assumes "member_inv C N k mb" and "\<And>j t c. (j, t, c) \<in> G \<Longrightarrow> j \<noteq> k"
  shows "member_inv C (N \<union> G) k mb"
proof -
  have "own k G = {}" using assms(2) by (auto simp: own_def)
  with assms(1) show ?thesis by (auto simp: member_inv_def intro: backed_mono)
qed

lemma member_inv_restartI:
  assumes cov: "votes_ok (own i N) i (vote_hs d)" and "rc_ID c = i" and "rc_AsyncStorageWrites c" and "rc_Storage c = Some st"
    and "st_InitialState st = Inr (d, cs)" and rn: "NewRawNode cd c = Some rn"
    and "c_Voters (r_config (rn_raft rn)) = C"
  shows "member_inv C N i \<lparr>mb_node = rn, mb_appends = [], mb_durable = d\<rparr>"
proof -
  obtain r where r: "newRaft cd c = Some r" "rn_raft rn = r" "rn_prevHardSt rn = raft_hardState r"
      "rn_asyncStorageWrites rn"
    using rn assms(3) by (auto simp: NewRawNode_def bind_Some_iff)
  obtain C' where v: "voting r = \<lparr>v_id = i, v_term = hs_Term d, v_vote = hs_Vote d, v_state = StateFollower,
      v_role = role_of StateFollower, v_ballots = fmempty, v_voters = C', v_granted = [], v_early = []\<rparr>"
    and "i \<noteq> PeerNone"
    using r(1) assms(2,4,5) by (auto elim!: newRaft_voting)
  have hs: "vote_hs (raft_hardState r) = vote_hs d" "vote_of (voting r) = vote_hs d"
    using v by (auto simp: vote_hs_def raft_hardState_def voting_def)
  moreover have "C' = C" using v r(2) assms(7) voting_fields(7) [of r] by simp
  ultimately show ?thesis
    using cov v r assms(7) \<open>i \<noteq> PeerNone\<close>
    by (auto simp: member_inv_def voter_inv_def role_ok_def backed_def votes_ok_covered voting_fields
        dest: votes_ok_covered)
qed

lemma with_environment_simps [simp]:
  "voting (rn_raft (with_environment st sl rn)) = voting (rn_raft rn)"
  "rn_prevHardSt (with_environment st sl rn) = rn_prevHardSt rn"
  "rn_asyncStorageWrites (with_environment st sl rn) = rn_asyncStorageWrites rn"
  by (simp_all add: with_environment_def)

lemma cluster_start_inv:
  assumes "cluster_start cd C S"
  shows "cluster_inv C S"
proof -
  have "member_inv C {} i (cl_member S i)" if i: "i \<in> cl_ids S" for i
  proof -
    obtain c st cs where c: "mb_appends (cl_member S i) = []" "rc_ID c = i" "rc_AsyncStorageWrites c"
      "rc_Storage c = Some st" "st_InitialState st = Inr (mb_durable (cl_member S i), cs)"
      "NewRawNode cd c = Some (mb_node (cl_member S i))"
      "c_Voters (r_config (rn_raft (mb_node (cl_member S i)))) = C"
      using assms i unfolding cluster_start_def by blast
    have "member_inv C {} i \<lparr>mb_node = mb_node (cl_member S i), mb_appends = [], mb_durable = mb_durable (cl_member S i)\<rparr>"
      using c by (intro member_inv_restartI) (auto simp: votes_ok_def)
    with c(1) show ?thesis by (cases "cl_member S i") simp
  qed
  with assms show ?thesis by (simp add: cluster_start_def cluster_inv_def)
qed

lemma cluster_inv_update:
  assumes inv: "cluster_inv C S" and i: "i \<in> cl_ids S"
    and mb: "member_inv C (grants (cl_net S) \<union> grants M) i mb"
    and M: "\<And>j t c. (j, t, c) \<in> grants M \<Longrightarrow> j = i \<and> t \<noteq> 0"
    and L: "\<And>t j. (t, j) \<in> L \<Longrightarrow> elected C (grants (cl_net S) \<union> grants M) t j"
  shows "cluster_inv C (S\<lparr>cl_member := (cl_member S)(i := mb), cl_net := cl_net S \<union> M,
    cl_leaders := cl_leaders S \<union> L\<rparr>)"
proof -
  have "member_inv C (grants (cl_net S) \<union> grants M) k (cl_member S k)" if "k \<in> cl_ids S" "k \<noteq> i" for k
    using inv that M by (intro member_inv_other) (auto simp: cluster_inv_def)
  moreover have "elected C (grants (cl_net S) \<union> grants M) t j" if "(t, j) \<in> cl_leaders S" for t j
    using inv that elected_mono [of C "grants (cl_net S)" t j] by (auto simp: cluster_inv_def)
  moreover have "(j, t, c) \<in> grants (cl_net S) \<Longrightarrow> j \<in> cl_ids S \<and> t \<noteq> 0" for j t c
    using inv by (auto simp: cluster_inv_def)
  ultimately show ?thesis using i mb M L by (auto simp: cluster_inv_def)
qed

lemma cluster_step_inv:
  assumes step: "cluster_step cd C S S'" and inv: "cluster_inv C S"
  shows "cluster_inv C S'"
proof -
  have mb: "member_inv C (grants (cl_net S)) i (cl_member S i)" if "i \<in> cl_ids S" for i
    using inv that by (simp add: cluster_inv_def)
  have nz: "(j, t, c) \<in> grants (cl_net S) \<Longrightarrow> t \<noteq> 0" for j t c
    using inv by (auto simp: cluster_inv_def)
  have upd: "cluster_inv C (S\<lparr>cl_member := (cl_member S)(i := mb), cl_net := cl_net S \<union> M,
      cl_leaders := cl_leaders S \<union> L\<rparr>)"
    if "i \<in> cl_ids S" "member_inv C (grants (cl_net S)) i mb" "grants M = {}"
      "\<And>t j. (t, j) \<in> L \<Longrightarrow> elected C (grants (cl_net S)) t j" for i mb M L
    using that by (intro cluster_inv_update [OF inv]) auto
  show ?thesis
    using step
  proof (cases rule: cluster_step.cases)
    case (called i mb rn)
    have "member_inv C (grants (cl_net S)) i (mb\<lparr>mb_node := rn\<rparr>)"
      using called mb nz by (intro member_inv_calledI) auto
    moreover from this have "elected C (grants (cl_net S)) t j" if "(t, j) \<in> led_by i rn" for t j
      using that by (auto simp: member_inv_def backed_def led_by_def voting_fields split: if_splits)
    ultimately show ?thesis using upd [of i _ "{}" "led_by i rn"] called by simp
  next
    case (ready i mb rn rd others app apl)
    then show ?thesis
      using member_inv_readyI [OF mb, of i cd rn rd others app apl]
        upd [of i _ "plain ` set others \<union> (case apl of Some m \<Rightarrow> set (m_Responses m) | None \<Rightarrow> {})" "{}"]
      by (simp add: Un_assoc)
  next
    case (appended i mb m ms)
    then show ?thesis
      using member_inv_appendedI [OF mb, of i m ms] cluster_inv_update [OF inv, of i "set (m_Responses m)" _ "{}"]
      by (simp add: MsgStorageAppend_OnDone_def)
  next
    case (restart i mb c st cs rn)
    have "votes_ok (own i (grants (cl_net S))) i (vote_hs (mb_durable mb))"
      using mb [of i] restart unfolding member_inv_def voter_inv_def votes_ok_def covered_def by auto
    then have "member_inv C (grants (cl_net S)) i \<lparr>mb_node = rn, mb_appends = [], mb_durable = mb_durable mb\<rparr>"
      using restart by (intro member_inv_restartI) auto
    moreover have "mb\<lparr>mb_node := rn, mb_appends := []\<rparr> = \<lparr>mb_node = rn, mb_appends = [], mb_durable = mb_durable mb\<rparr>"
      by (cases mb) simp
    ultimately have "member_inv C (grants (cl_net S)) i (mb\<lparr>mb_node := rn, mb_appends := []\<rparr>)"
      by (simp only:)
    then show ?thesis using upd [of i _ "{}" "{}"] restart(1,2) by simp
  next
    case (environment i mb st sl)
    then have "member_inv C (grants (cl_net S)) i (mb\<lparr>mb_node := with_environment st sl (mb_node mb)\<rparr>)"
      using mb [of i] by (simp add: member_inv_def)
    then show ?thesis using upd [of i _ "{}" "{}"] environment by simp
  qed
qed

lemma cluster_run_inv:
  "cluster_start cd C S0 \<Longrightarrow> (cluster_step cd C)\<^sup>*\<^sup>* S0 S \<Longrightarrow> cluster_inv C S"
  by (rotate_tac 1, erule rtranclp_induct) (auto intro: cluster_start_inv cluster_step_inv)

text \<open>A cluster of one node that campaigns and elects itself.\<close>

definition ex_disk :: Storage where
  "ex_disk = MemoryStorage_Storage (fixed_codec 10) (NewMemoryStorage\<lparr>ms_snapshot := Snapshot_zero
     \<lparr>s_Metadata := \<lparr>sm_ConfState = ConfState_zero\<lparr>cs_Voters := [1]\<rparr>, sm_Index = 0, sm_Term = 0\<rparr>\<rparr>\<rparr>)"

definition ex_config :: RaftConfig where
  "ex_config = \<lparr>rc_ID = 1, rc_ElectionTick = 10, rc_HeartbeatTick = 2, rc_Storage = Some ex_disk,
     rc_Applied = 0, rc_AsyncStorageWrites = True, rc_MaxSizePerMsg = 100, rc_MaxCommittedSizePerReady = 0,
     rc_MaxUncommittedEntriesSize = 0, rc_MaxInflightMsgs = 10, rc_MaxInflightBytes = 0,
     rc_CheckQuorum = False, rc_PreVote = False, rc_DisableProposalForwarding = False,
     rc_DisableConfChangeValidation = False, rc_StepDownOnRemoval = False, rc_StoreLiveness = AlwaysLive,
     rc_CRDBVersion = True, rc_Intn = (\<lambda>_ _. 0)\<rparr>"

definition ex_started :: RawNode where
  "ex_started = the (NewRawNode (fixed_codec 10) ex_config)"

definition ex_campaigning :: RawNode where
  "ex_campaigning = fst (the (RawNode_Campaign (fixed_codec 10) ex_started))"

definition ex_ready :: "RawNode \<times> Ready" where
  "ex_ready = the (RawNode_Ready (fixed_codec 10) ex_campaigning)"

definition ex_append :: MsgStorageAppend where
  "ex_append = last (rd_Messages (snd ex_ready))"

definition ex_ballot :: Message where
  "ex_ballot = hd (m_Responses ex_append)"

definition ex_leader :: RawNode where
  "ex_leader = fst (the (RawNode_Step (fixed_codec 10) ex_ballot (fst ex_ready)))"

lemma ex_run_results:
  "NewRawNode (fixed_codec 10) ex_config = Some ex_started"
  "RawNode_Campaign (fixed_codec 10) ex_started = Some (ex_campaigning, None)"
  "RawNode_Ready (fixed_codec 10) ex_campaigning = Some ex_ready"
  "splitLocalStorageMsgs (rd_Messages (snd ex_ready)) = Some ([], Some ex_append, None)"
  "RawNode_Step (fixed_codec 10) ex_ballot (fst ex_ready) = Some (ex_leader, None)"
proof -
  have "NewRawNode (fixed_codec 10) ex_config \<noteq> None" by code_simp
  then show "NewRawNode (fixed_codec 10) ex_config = Some ex_started" by (auto simp: ex_started_def)
  have "map_option snd (RawNode_Campaign (fixed_codec 10) ex_started) = Some None" by code_simp
  then show "RawNode_Campaign (fixed_codec 10) ex_started = Some (ex_campaigning, None)"
    by (auto simp: ex_campaigning_def)
  have "RawNode_Ready (fixed_codec 10) ex_campaigning \<noteq> None" by code_simp
  then show "RawNode_Ready (fixed_codec 10) ex_campaigning = Some ex_ready" by (auto simp: ex_ready_def)
  have "length (rd_Messages (snd ex_ready)) = 1" "m_Type ex_append = MsgStorageAppend" by code_simp+
  then have "rd_Messages (snd ex_ready) = [ex_append]"
    by (auto simp: ex_append_def length_Suc_conv)
  with \<open>m_Type ex_append = MsgStorageAppend\<close>
  show "splitLocalStorageMsgs (rd_Messages (snd ex_ready)) = Some ([], Some ex_append, None)"
    by (simp add: splitLocalStorageMsgs_def)
  have "map_option snd (RawNode_Step (fixed_codec 10) ex_ballot (fst ex_ready)) = Some None" by code_simp
  then show "RawNode_Step (fixed_codec 10) ex_ballot (fst ex_ready) = Some (ex_leader, None)"
    by (auto simp: ex_leader_def)
qed

lemma ex_run_facts:
  "c_Voters (r_config (rn_raft ex_started)) = (Some {|1|}, None)" "r_Term (rn_raft ex_started) < MaxUint64"
  "c_Voters (r_config (rn_raft ex_campaigning)) = (Some {|1|}, None)"
  "m_Responses ex_append \<noteq> []" "m_To ex_ballot = r_id (rn_raft (fst ex_ready))" "peer_message ex_ballot"
  "m_Term ex_ballot < MaxUint64" "r_Term (rn_raft (fst ex_ready)) < MaxUint64"
  "c_Voters (r_config (rn_raft ex_leader)) = (Some {|1|}, None)"
  "r_state (rn_raft ex_leader) = StateLeader" "r_Term (rn_raft ex_leader) = 1"
  by code_simp+

lemma ex_raft_Step:
  "raft_Step (fixed_codec 10) ex_ballot (rn_raft (fst ex_ready)) = Some (rn_raft ex_leader, None)"
proof -
  obtain r where r: "raft_Step (fixed_codec 10) ex_ballot (rn_raft (fst ex_ready)) = Some (r, None)"
    and eq: "(fst ex_ready)\<lparr>rn_raft := r\<rparr> = ex_leader"
    using ex_run_results(5) by (auto simp: RawNode_Step_def RawNode_raftStep_def bind_Some_iff split: if_splits)
  from arg_cong [OF eq, of rn_raft] r show ?thesis by simp
qed

definition ex_voters :: JointConfig where
  "ex_voters = (Some {|1|}, None)"

definition ex_member :: member where
  "ex_member = \<lparr>mb_node = ex_started, mb_appends = [], mb_durable = HardState_zero\<rparr>"

definition ex_cluster0 :: cluster where
  "ex_cluster0 = \<lparr>cl_ids = {1}, cl_member = (\<lambda>_. ex_member), cl_net = {}, cl_leaders = {}\<rparr>"

definition ex_cluster1 :: cluster where
  "ex_cluster1 = ex_cluster0\<lparr>cl_member := (cl_member ex_cluster0)(1 := ex_member\<lparr>mb_node := ex_campaigning\<rparr>),
     cl_leaders := cl_leaders ex_cluster0 \<union> led_by 1 ex_campaigning\<rparr>"

definition ex_cluster2 :: cluster where
  "ex_cluster2 = ex_cluster1\<lparr>cl_member := (cl_member ex_cluster1)(1 :=
     ex_member\<lparr>mb_node := fst ex_ready, mb_appends := [ex_append]\<rparr>)\<rparr>"

definition ex_cluster3 :: cluster where
  "ex_cluster3 = ex_cluster2\<lparr>cl_member := (cl_member ex_cluster2)(1 := ex_member\<lparr>mb_node := fst ex_ready,
     mb_durable := LogStore_setHardState ex_append HardState_zero\<rparr>), cl_net := set (m_Responses ex_append)\<rparr>"

definition ex_cluster4 :: cluster where
  "ex_cluster4 = ex_cluster3\<lparr>cl_member := (cl_member ex_cluster3)(1 := (cl_member ex_cluster3 1)\<lparr>mb_node := ex_leader\<rparr>),
     cl_leaders := cl_leaders ex_cluster3 \<union> led_by 1 ex_leader\<rparr>"

lemmas ex_cluster_defs = ex_cluster4_def ex_cluster3_def ex_cluster2_def ex_cluster1_def ex_cluster0_def ex_member_def

lemma ex_cluster_start: "cluster_start (fixed_codec 10) ex_voters ex_cluster0"
proof -
  have "st_InitialState ex_disk = Inr (HardState_zero, ConfState_zero\<lparr>cs_Voters := [1]\<rparr>)" by code_simp
  then show ?thesis
    unfolding cluster_start_def ex_cluster_defs ex_voters_def using ex_run_results(1) ex_run_facts(1)
    by (simp, intro exI [of _ ex_config] exI [of _ ex_disk]) (simp add: ex_config_def)
qed

lemma ex_cluster_run:
  "(cluster_step (fixed_codec 10) ex_voters)\<^sup>*\<^sup>* ex_cluster0 ex_cluster1"
  "(cluster_step (fixed_codec 10) ex_voters)\<^sup>*\<^sup>* ex_cluster0 ex_cluster4"
proof -
  let ?cd = "fixed_codec 10"
  have 1: "cluster_step ?cd ex_voters ex_cluster0 ex_cluster1"
    unfolding ex_cluster1_def using call.campaign [OF ex_run_results(2), of "{}"] ex_run_facts
    by (intro cluster_step.called) (simp_all add: ex_cluster_defs ex_voters_def)
  have 2: "cluster_step ?cd ex_voters ex_cluster1 ex_cluster2"
    using cluster_step.ready [of 1 ex_cluster1 "cl_member ex_cluster1 1" ?cd "fst ex_ready" "snd ex_ready" "[]"
        "Some ex_append" None ex_voters] ex_run_results(3,4) by (simp add: ex_cluster_defs)
  have 3: "cluster_step ?cd ex_voters ex_cluster2 ex_cluster3"
    using cluster_step.appended [of 1 ex_cluster2 "cl_member ex_cluster2 1" ex_append "[]" ?cd ex_voters]
    by (simp add: ex_cluster_defs MsgStorageAppend_OnDone_def)
  have "ex_ballot \<in> cl_net ex_cluster3" using ex_run_facts(4) by (simp add: ex_cluster3_def ex_ballot_def)
  from call.deliver [OF this ex_run_facts(5-7) ex_run_results(5)]
  have 4: "cluster_step ?cd ex_voters ex_cluster3 ex_cluster4"
    unfolding ex_cluster4_def using ex_run_facts(8,9)
    by (intro cluster_step.called) (simp_all add: ex_cluster_defs ex_voters_def)
  show "(cluster_step ?cd ex_voters)\<^sup>*\<^sup>* ex_cluster0 ex_cluster1" using 1 by blast
  show "(cluster_step ?cd ex_voters)\<^sup>*\<^sup>* ex_cluster0 ex_cluster4"
    using 1 2 3 4 by (meson converse_rtranclp_into_rtranclp rtranclp.rtrancl_refl)
qed

text \<open>
  Property C10: handling a message is a sequence of steps of the abstract election
  machine. In particular the term of the node never goes back, and within a term its
  vote is given at most once and never taken back.
\<close>

theorem raft_Step_refines_voting:
  assumes "raft_Step cd m r = Some (r', e)" and "role_ok (voting r)"
    and "r_Term r < MaxUint64" and "m_Term m < MaxUint64"
    and "IsMsgFromLeader (m_Type m) \<Longrightarrow> m_Term m \<noteq> 0"
  shows "vote_steps m (voting r) (voting r') \<and> role_ok (voting r') \<and>
    later (r_Term r, r_Vote r) (r_Term r', r_Vote r')"
  using raft_Step_steps [OF assms] vote_steps_role_ok vote_steps_later assms(2)
  by (fastforce simp: voting_fields)

theorem raft_Step_refines_voting_witness:
  "vote_steps ex_ballot (voting (rn_raft (fst ex_ready))) (voting (rn_raft ex_leader)) \<and>
   r_state (rn_raft (fst ex_ready)) = StateCandidate \<and> r_state (rn_raft ex_leader) = StateLeader"
proof -
  have "role_ok (voting (rn_raft (fst ex_ready)))" "m_Type ex_ballot = MsgVoteResp"
    "r_state (rn_raft (fst ex_ready)) = StateCandidate"
    by code_simp+
  then show ?thesis
    using raft_Step_refines_voting [OF ex_raft_Step] ex_run_facts by simp
qed

text \<open>
  Property C11: durability before sending. Whatever a node of a running cluster hands out
  in a \<open>Ready\<close>, the replica splits without a panic; the messages for the peers are those
  that may go at once, none of them a granted vote, and all others are responses of the
  append message, which carries the term and vote they depend on.
\<close>

theorem Ready_sends_votes_after_append:
  assumes "cluster_start cd C S0" and "(cluster_step cd C)\<^sup>*\<^sup>* S0 S" and "i \<in> cl_ids S"
    and "RawNode_Ready cd (mb_node (cl_member S i)) = Some (rn, rd)"
  defines "r \<equiv> rn_raft (mb_node (cl_member S i))"
  shows "\<exists>app apl. splitLocalStorageMsgs (rd_Messages rd) =
      Some (map (\<lambda>m. with_responses m []) (r_msgs r), app, apl) \<and>
    list_all (\<lambda>m. \<not> is_grant m) (r_msgs r) \<and>
    (r_msgsAfterAppend r = [] \<or>
      (\<exists>m. app = Some m \<and> set (r_msgsAfterAppend r) \<subseteq> set (m_Responses m) \<and>
        (MsgStorageAppend_HardState m = raft_hardState r \<or>
         raft_hardState r = rn_prevHardSt (mb_node (cl_member S i)))))"
proof -
  have mb: "member_inv C (grants (cl_net S)) i (cl_member S i)"
    using cluster_run_inv [OF assms(1,2)] assms(3) by (simp add: cluster_inv_def)
  then have early: "v_early (voting r) = []" and async: "rn_asyncStorageWrites (mb_node (cl_member S i))"
    by (simp_all add: member_inv_def voter_inv_def r_def)
  obtain rd0 where split: "splitLocalStorageMsgs (rd_Messages rd) =
      Some (map (\<lambda>m. with_responses m []) (r_msgs r),
        if needStorageAppendMsg r rd0 then Some (newStorageAppendMsg r rd0) else None,
        if needStorageApplyMsg rd0 then Some (newStorageApplyMsg r rd0) else None)"
    and hs: "rd_HardState rd0 = (if isHardStateEqual (raft_hardState r) (rn_prevHardSt (mb_node (cl_member S i)))
      then HardState_zero else raft_hardState r)"
    using RawNode_Ready_parts [OF assms(4) async] early unfolding r_def by metis
  have "list_all (\<lambda>m. \<not> is_grant m) (r_msgs r)"
    using early by (auto simp: voting_def list_all_iff filter_empty_conv stray_def)
  moreover have "needStorageAppendMsg r rd0 \<or> r_msgsAfterAppend r = []"
    by (auto simp: needStorageAppendMsg_def)
  moreover have "MsgStorageAppend_HardState (newStorageAppendMsg r rd0) = raft_hardState r \<or>
      raft_hardState r = rn_prevHardSt (mb_node (cl_member S i))"
    using hs by (auto simp: newStorageAppendMsg_HardState isHardStateEqual_def split: if_splits)
  ultimately show ?thesis
    using split newStorageAppendMsg_simps(2) [of r rd0] by auto
qed

theorem Ready_sends_votes_after_append_witness:
  "\<exists>m. splitLocalStorageMsgs (rd_Messages (snd ex_ready)) = Some ([], Some m, None) \<and> ex_ballot \<in> set (m_Responses m) \<and>
     is_grant ex_ballot"
proof -
  let ?r = "rn_raft ex_campaigning"
  have node: "mb_node (cl_member ex_cluster1 1) = ex_campaigning" "1 \<in> cl_ids ex_cluster1"
    by (simp_all add: ex_cluster_defs)
  have q: "r_msgs ?r = []" "r_msgsAfterAppend ?r \<noteq> []" by code_simp+
  have "hd (r_msgsAfterAppend ?r) = ex_ballot" "is_grant ex_ballot" by code_simp+
  moreover from this(1) q(2) have "ex_ballot \<in> set (r_msgsAfterAppend ?r)" using hd_in_set by metis
  ultimately show ?thesis
    using Ready_sends_votes_after_append [OF ex_cluster_start ex_cluster_run(1), of 1 "fst ex_ready" "snd ex_ready"]
      node ex_run_results(3,4) q by auto
qed

text \<open>
  Property C1: election safety. In every run of a cluster whose nodes handle messages,
  tick, store, fail and restart, with a network that may lose, repeat, delay and reorder
  messages, and with a fixed configuration of voters, no term ever has two leaders.
\<close>

theorem at_most_one_leader_per_term:
  assumes "cluster_start cd C S0" and "(cluster_step cd C)\<^sup>*\<^sup>* S0 S" and "JointConfig_IDs C \<noteq> {||}"
    and "(t, i) \<in> cl_leaders S" and "(t, j) \<in> cl_leaders S"
  shows "i = j"
proof -
  have inv: "cluster_inv C S" using cluster_run_inv assms(1,2) by blast
  have "c = d" if "(p, t, c) \<in> grants (cl_net S)" "(p, t, d) \<in> grants (cl_net S)" for p c d
  proof -
    have "member_inv C (grants (cl_net S)) p (cl_member S p)"
      using inv that(1) by (auto simp: cluster_inv_def)
    then have "votes_ok (own p (grants (cl_net S))) p (vote_of (mb_voting (cl_member S p)))"
      by (auto simp: member_inv_def voter_inv_def intro: votes_ok_mono)
    with that show ?thesis unfolding votes_ok_def own_def by auto
  qed
  moreover have "elected C (grants (cl_net S)) t i" "elected C (grants (cl_net S)) t j"
    using inv assms(4,5) unfolding cluster_inv_def by blast+
  ultimately show ?thesis using elected_unique assms(3) by blast
qed

theorem at_most_one_leader_per_term_witness:
  "cluster_start (fixed_codec 10) ex_voters ex_cluster0 \<and>
   (cluster_step (fixed_codec 10) ex_voters)\<^sup>*\<^sup>* ex_cluster0 ex_cluster4 \<and> {j. (1, j) \<in> cl_leaders ex_cluster4} = {1}"
proof -
  have led: "(1, 1) \<in> cl_leaders ex_cluster4" using ex_run_facts by (simp add: ex_cluster4_def led_by_def)
  have "JointConfig_IDs ex_voters \<noteq> {||}" by (simp add: ex_voters_def JointConfig_IDs_def)
  then have "{j. (1, j) \<in> cl_leaders ex_cluster4} = {1}"
    using at_most_one_leader_per_term [OF ex_cluster_start ex_cluster_run(2) _ led] led by blast
  then show ?thesis using ex_cluster_start ex_cluster_run(2) by simp
qed

end
