(* ===== verification/Raft_Status.thy ===== *)
theory Raft_Status
  imports Raft_Election
begin

text \<open>
  What a node reports to its application and how it is set up for first use: \<open>status.go\<close>,
  the accessors of \<open>rawnode.go\<close>, \<open>bootstrap.go\<close>, the set-up of \<open>node.go\<close>, and the mark that
  the log store derives from a write.
\<close>

section \<open>Status\<close>

record BasicStatus =
  bs_ID :: PeerID
  bs_HardState :: HardState
  bs_SoftState :: SoftState
  bs_Applied :: u64
  bs_LeadTransferee :: PeerID

text \<open>The maps are \<^term>\<open>None\<close> where the source leaves them nil.\<close>

record Status =
  sta_BasicStatus :: BasicStatus
  sta_Config :: Config
  sta_Progress :: "ProgressMap option"
  sta_LeadSupportUntil :: Timestamp

text \<open>A copy of a progress whose \<open>Inflights\<close> are nil: the other fields.\<close>

record SparseProgress =
  sp_Match :: u64
  sp_Next :: u64
  sp_SentCommit :: u64
  sp_MatchCommit :: u64
  sp_State :: Progress_StateType
  sp_PendingSnapshot :: u64
  sp_RecentActive :: bool
  sp_MsgAppProbesPaused :: bool
  sp_IsLearner :: bool

record SparseStatus =
  sst_BasicStatus :: BasicStatus
  sst_Progress :: "(PeerID, SparseProgress) fmap option"

record LeadSupportStatus =
  lss_BasicStatus :: BasicStatus
  lss_LeadSupportUntil :: Timestamp

definition BasicStatus_Empty :: "BasicStatus \<Rightarrow> bool" where
  "BasicStatus_Empty b \<longleftrightarrow>
     b = \<lparr>bs_ID = 0, bs_HardState = HardState_zero, bs_SoftState = \<lparr>ss_RaftState = StateFollower\<rparr>,
          bs_Applied = 0, bs_LeadTransferee = 0\<rparr>"

datatype ProgressType = ProgressTypePeer | ProgressTypeLearner

definition without_inflights :: "Progress \<Rightarrow> SparseProgress" where
  "without_inflights pr =
     \<lparr>sp_Match = pr_Match pr, sp_Next = pr_Next pr, sp_SentCommit = pr_SentCommit pr,
      sp_MatchCommit = pr_MatchCommit pr, sp_State = pr_State pr, sp_PendingSnapshot = pr_PendingSnapshot pr,
      sp_RecentActive = pr_RecentActive pr, sp_MsgAppProbesPaused = pr_MsgAppProbesPaused pr,
      sp_IsLearner = pr_IsLearner pr\<rparr>"

definition withProgress ::
    "raft \<Rightarrow> (PeerID \<Rightarrow> ProgressType \<Rightarrow> SparseProgress \<Rightarrow> 's \<Rightarrow> 's go) \<Rightarrow> 's \<Rightarrow> 's go" where
  "withProgress r visitor =
     ProgressTracker_Visit (\<lambda>i pr s.
       let typ = (if pr_IsLearner pr then ProgressTypeLearner else ProgressTypePeer)
       in visitor i typ (without_inflights pr) s) (r_trk r)"

definition getProgressCopy :: "raft \<Rightarrow> ProgressMap go" where
  "getProgressCopy r =
     ProgressTracker_Visit (\<lambda>i pr m.
       let p = pr\<lparr>pr_Inflights := Inflights_Clone (pr_Inflights pr)\<rparr> in Some (fmupd i p m)) (r_trk r) fmempty"

definition getBasicStatus :: "raft \<Rightarrow> BasicStatus" where
  "getBasicStatus r =
     (let s = \<lparr>bs_ID = r_id r, bs_HardState = raft_hardState r, bs_SoftState = raft_softState r,
               bs_Applied = rl_applied (r_raftLog r), bs_LeadTransferee = r_leadTransferee r\<rparr>
      in if ss_RaftState (bs_SoftState s) = StateFollower \<and> hs_Lead (bs_HardState s) = r_id r
         then s\<lparr>bs_HardState := (bs_HardState s)\<lparr>hs_Lead := PeerNone\<rparr>\<rparr> else s)"

definition getStatus :: "raft \<Rightarrow> Status go" where
  "getStatus r = do {
     let b = getBasicStatus r;
     progress \<leftarrow> (if ss_RaftState (bs_SoftState b) = StateLeader then map_option Some (getProgressCopy r) else Some None);
     Some \<lparr>sta_BasicStatus = b, sta_Config = Config_Clone (r_config r), sta_Progress = progress,
       sta_LeadSupportUntil = Timestamp 0 0\<rparr>
   }"

definition getSparseStatus :: "raft \<Rightarrow> SparseStatus go" where
  "getSparseStatus r = do {
     let b = getBasicStatus r;
     progress \<leftarrow> (if ss_RaftState (bs_SoftState b) = StateLeader
                  then map_option Some (withProgress r (\<lambda>i _ pr m. Some (fmupd i pr m)) fmempty) else Some None);
     Some \<lparr>sst_BasicStatus = b, sst_Progress = progress\<rparr>
   }"

definition getLeadSupportStatus :: "raft \<Rightarrow> LeadSupportStatus" where
  "getLeadSupportStatus r = \<lparr>lss_BasicStatus = getBasicStatus r, lss_LeadSupportUntil = Timestamp 0 0\<rparr>"

text \<open>The accessors of the node.\<close>

definition RawNode_Term :: "RawNode \<Rightarrow> u64" where
  "RawNode_Term rn = r_Term (rn_raft rn)"

definition RawNode_Lead :: "RawNode \<Rightarrow> PeerID" where
  "RawNode_Lead rn = r_lead (rn_raft rn)"

definition RawNode_Status :: "RawNode \<Rightarrow> Status go" where
  "RawNode_Status rn = getStatus (rn_raft rn)"

definition RawNode_BasicStatus :: "RawNode \<Rightarrow> BasicStatus" where
  "RawNode_BasicStatus rn = getBasicStatus (rn_raft rn)"

definition RawNode_SparseStatus :: "RawNode \<Rightarrow> SparseStatus go" where
  "RawNode_SparseStatus rn = getSparseStatus (rn_raft rn)"

definition RawNode_LeadSupportStatus :: "RawNode \<Rightarrow> LeadSupportStatus" where
  "RawNode_LeadSupportStatus rn = getLeadSupportStatus (rn_raft rn)"

definition RawNode_WithProgress ::
    "RawNode \<Rightarrow> (PeerID \<Rightarrow> ProgressType \<Rightarrow> SparseProgress \<Rightarrow> 's \<Rightarrow> 's go) \<Rightarrow> 's \<Rightarrow> 's go" where
  "RawNode_WithProgress rn visitor = withProgress (rn_raft rn) visitor"

section \<open>Bootstrap\<close>

record Peer =
  pe_ID :: PeerID
  pe_Context :: bytes

datatype bootstrap_error =
    ErrNoPeers
  | ErrLastIndex storage_error
  | ErrNonemptyStorage
  | ErrMarshalPeer
  | ErrInvalidSlice
  | ErrNotAppended

definition bootstrap_change :: "Peer \<Rightarrow> ConfChange" where
  "bootstrap_change peer =
     \<lparr>cc_Type = ConfChangeAddNode, cc_NodeID = pe_ID peer, cc_Context = pe_Context peer, cc_ID = 0\<rparr>"

text \<open>The first loop of \<open>Bootstrap\<close>; \<^term>\<open>None\<close> as a change cannot be marshalled.\<close>

fun bootstrap_entries :: "codec \<Rightarrow> nat \<Rightarrow> Peer list \<Rightarrow> Entry list option" where
  "bootstrap_entries cd i [] = Some []"
| "bootstrap_entries cd i (peer # peers) = do {
     data \<leftarrow> ConfChange_Marshal cd (bootstrap_change peer);
     es \<leftarrow> bootstrap_entries cd (Suc i) peers;
     Some (Entry_zero\<lparr>e_Type := EntryConfChange, e_Term := 1, e_Index := of_nat (i + 1), e_Data := data\<rparr> # es)
   }"

definition bootstrap_add :: "codec \<Rightarrow> Peer \<Rightarrow> raft \<Rightarrow> raft go" where
  "bootstrap_add cd peer r = do {
     (r, _) \<leftarrow> raft_applyConfChange cd (ConfChange_AsV2 \<lparr>cc_Type = ConfChangeAddNode, cc_NodeID = pe_ID peer,
       cc_Context = [], cc_ID = 0\<rparr>) r;
     Some r
   }"

definition RawNode_Bootstrap :: "codec \<Rightarrow> Peer list \<Rightarrow> RawNode \<Rightarrow> (RawNode \<times> bootstrap_error option) go" where
  "RawNode_Bootstrap cd peers rn =
     (if length peers = 0 then Some (rn, Some ErrNoPeers)
      else case st_LastIndex (rl_storage (r_raftLog (rn_raft rn))) of
        Inl err \<Rightarrow> Some (rn, Some (ErrLastIndex err))
      | Inr lastIndex \<Rightarrow>
          if lastIndex \<noteq> 0 then Some (rn, Some ErrNonemptyStorage)
          else do {
            let rn = rn\<lparr>rn_prevHardSt := HardState_zero\<rparr>;
            r \<leftarrow> raft_becomeFollower 1 PeerNone (rn_raft rn);
            let rn = rn\<lparr>rn_raft := r\<rparr>;
            case bootstrap_entries cd 0 peers of
              None \<Rightarrow> Some (rn, Some ErrMarshalPeer)
            | Some es \<Rightarrow>
                let app = \<lparr>ls_term = 1, ls_prev = \<lparr>id_term = 0, id_index = 0\<rparr>, ls_entries = es\<rparr> in
                if \<not> logSlice_valid app then Some (rn, Some ErrInvalidSlice)
                else case raftLog_append app (r_raftLog r) of (l, ok) \<Rightarrow>
                  if \<not> ok then Some (rn\<lparr>rn_raft := r\<lparr>r_raftLog := l\<rparr>\<rparr>, Some ErrNotAppended)
                  else do {
                    let r = r\<lparr>r_raftLog := l\<lparr>rl_committed := logSlice_lastIndex app\<rparr>\<rparr>;
                    r \<leftarrow> foldM (bootstrap_add cd) peers r;
                    Some (rn\<lparr>rn_raft := r\<rparr>, None)
                  }
          })"

text \<open>
  The set-up of a node for first use, \<open>setupNode\<close>, without the channels of the node: an
  error of \<open>Bootstrap\<close> is only logged.
\<close>

definition setupNode :: "codec \<Rightarrow> RaftConfig \<Rightarrow> Peer list \<Rightarrow> RawNode go" where
  "setupNode cd c peers = do {
     assertTrue (length peers \<noteq> 0);
     rn \<leftarrow> NewRawNode cd c;
     (rn, _) \<leftarrow> RawNode_Bootstrap cd peers rn;
     Some rn
   }"

section \<open>Collecting the progress\<close>

lemma collect_fold:
  assumes "set is \<subseteq> fset (fmdom m)"
  shows "\<exists>m'. foldM (\<lambda>i s. fmlookup m i \<bind> (\<lambda>pr. Some (fmupd i (f pr) s))) is s = Some m' \<and>
    (\<forall>i. fmlookup m' i = (if i \<in> set is then map_option f (fmlookup m i) else fmlookup s i))"
  using assms
proof (induction "is" arbitrary: s)
  case Nil
  then show ?case by simp
next
  case (Cons i "is")
  then obtain pr where pr: "fmlookup m i = Some pr"
    by (auto simp: fmlookup_dom_iff)
  obtain m' where "foldM (\<lambda>i s. fmlookup m i \<bind> (\<lambda>pr. Some (fmupd i (f pr) s))) is (fmupd i (f pr) s) = Some m'"
    and "\<forall>k. fmlookup m' k = (if k \<in> set is then map_option f (fmlookup m k) else fmlookup (fmupd i (f pr) s) k)"
    using Cons.IH [of "fmupd i (f pr) s"] Cons.prems by auto
  with pr show ?case by (intro exI [of _ m']) auto
qed

lemma Visit_collects:
  "ProgressTracker_Visit (\<lambda>i pr m. Some (fmupd i (f pr) m)) p fmempty = Some (fmmap f (pt_progress p))"
proof -
  obtain m' where "ProgressTracker_Visit (\<lambda>i pr m. Some (fmupd i (f pr) m)) p fmempty = Some m'"
    and "\<forall>i. fmlookup m' i = (if i |\<in>| fmdom (pt_progress p) then map_option f (fmlookup (pt_progress p) i) else None)"
    using collect_fold [of "ProgressTracker_ids p" "pt_progress p" f fmempty]
    by (auto simp: ProgressTracker_Visit_def)
  moreover from this(2) have "m' = fmmap f (pt_progress p)"
    by (intro fmap_ext) (auto simp: fmdom_notD)
  ultimately show ?thesis by simp
qed

lemma getProgressCopy_eq: "getProgressCopy r = Some (pt_progress (r_trk r))"
proof -
  have "fmmap (\<lambda>pr. pr) m = m" for m :: ProgressMap
    by (rule fmap_ext) (simp add: option.map_ident)
  then show ?thesis
    using Visit_collects [of "\<lambda>pr. pr"] by (simp add: getProgressCopy_def Inflights_Clone_def Let_def)
qed

lemma sparse_progress_eq:
  "withProgress r (\<lambda>i _ pr m. Some (fmupd i pr m)) fmempty = Some (fmmap without_inflights (pt_progress (r_trk r)))"
  using Visit_collects [of without_inflights] by (simp add: withProgress_def Let_def)

text \<open>
  What a node reports. \<open>Status\<close> never fails; it has the progress of every tracked
  peer on a leader and none elsewhere, and \<open>SparseStatus\<close> has the same without the
  in-flight messages. The reported leader is the known one, except that a follower does
  not report itself. The reported configuration is that of the node but never has
  \<open>AutoLeave\<close>, which \<open>Config.Clone\<close> does not copy.
\<close>

lemma Status_reports_node:
  "\<exists>s. getStatus r = Some s
    \<and> sta_Progress s = (if r_state r = StateLeader then Some (pt_progress (r_trk r)) else None)
    \<and> hs_Lead (bs_HardState (sta_BasicStatus s)) = (if r_state r = StateFollower \<and> r_lead r = r_id r then PeerNone else r_lead r)
    \<and> sta_Config s = (r_config r)\<lparr>c_AutoLeave := False\<rparr>
    \<and> getSparseStatus r = Some \<lparr>sst_BasicStatus = sta_BasicStatus s,
        sst_Progress = map_option (fmmap without_inflights) (sta_Progress s)\<rparr>"
  by (simp add: getStatus_def getSparseStatus_def getBasicStatus_def getProgressCopy_eq sparse_progress_eq
    raft_softState_def raft_hardState_def Config_Clone_def Let_def)

section \<open>Adding the first peers\<close>

lemma bootstrap_entries_Some:
  assumes "\<forall>p \<in> set peers. ConfChange_Marshal cd (bootstrap_change p) \<noteq> None"
  shows "\<exists>es. bootstrap_entries cd i peers = Some es \<and>
    (\<forall>t. t \<le> 1 \<longrightarrow> contig \<lparr>id_term = t, id_index = of_nat i\<rparr> es) \<and>
    list_all (\<lambda>e. e_Type e = EntryConfChange \<and> e_Term e = 1) es \<and>
    list_all2 (\<lambda>p e. ConfChange_Marshal cd (bootstrap_change p) = Some (e_Data e)) peers es"
  using assms
proof (induction peers arbitrary: i)
  case (Cons p ps)
  have rest: "\<forall>p \<in> set ps. ConfChange_Marshal cd (bootstrap_change p) \<noteq> None"
    using Cons.prems by simp
  obtain data where "ConfChange_Marshal cd (bootstrap_change p) = Some data"
    using Cons.prems by auto
  moreover obtain es where "bootstrap_entries cd (Suc i) ps = Some es"
    and "\<forall>t. t \<le> 1 \<longrightarrow> contig \<lparr>id_term = t, id_index = of_nat (Suc i)\<rparr> es"
    and "list_all (\<lambda>e. e_Type e = EntryConfChange \<and> e_Term e = 1) es"
    and "list_all2 (\<lambda>p e. ConfChange_Marshal cd (bootstrap_change p) = Some (e_Data e)) ps es"
    using Cons.IH [OF rest, of "Suc i"] by blast
  ultimately show ?case by (simp add: pbEntryID_def algebra_simps)
qed simp

lemma bootstrap_add_voter:
  assumes t: "tracked (r_config r) (pt_progress (r_trk r))" and n: "snd (c_Voters (r_config r)) = None"
    and v: "sets_of (r_config r) = (V, {||}, {||}, {||})" and i: "pe_ID peer \<noteq> 0" and "r_state r = StateFollower"
  shows "\<exists>cfg trk l. bootstrap_add cd peer r = Some (r\<lparr>r_config := cfg, r_trk := \<lparr>pt_progress = trk\<rparr>, r_isLearner := l\<rparr>) \<and>
    tracked cfg trk \<and> snd (c_Voters cfg) = None \<and> sets_of cfg = (finsert (pe_ID peer) V, {||}, {||}, {||})"
proof -
  let ?c = "raft_changer (r_config r) (pt_progress (r_trk r)) (r\<lparr>r_trk := (r_trk r)\<lparr>pt_progress := fmempty\<rparr>\<rparr>)"
  let ?cc = "\<lparr>ccs_Type = ConfChangeAddNode, ccs_NodeID = pe_ID peer\<rparr>"
  have "list_all known_change [?cc]" by (simp add: known_change_def)
  then obtain cfg trk where cfg: "tracked cfg trk" "sets_of cfg = sets_change ?cc (V, {||}, {||}, {||})"
      "snd (c_Voters cfg) = None"
    and simple: "Changer_Simple ?c [?cc] = Some
      (if keys (fst (c_Voters cfg)) = {||} then Inl RemovedAllVoters
       else if 1 < symdiff (fst (c_Voters (r_config r))) (fst (c_Voters cfg)) then Inl TooManyVotersChanged
       else Inr (cfg, trk))"
    using Changer_Simple_result [of ?c "[?cc]"] t n v by (auto simp: raft_changer_def)
  have sets: "sets_of cfg = (finsert (pe_ID peer) V, {||}, {||}, {||})"
    using cfg(2) i by (simp add: sets_change_def)
  then have "keys (fst (c_Voters cfg)) = finsert (pe_ID peer) V" "keys (fst (c_Voters (r_config r))) = V"
    using v by (simp_all add: config_sel_defs)
  moreover from this have "symdiff (fst (c_Voters (r_config r))) (fst (c_Voters cfg)) \<le> 1"
    by (cases "pe_ID peer |\<in>| V") (simp_all add: symdiff_card insert_Diff_if insert_absorb)
  ultimately have "Changer_Simple ?c [?cc] = Some (Inr (cfg, trk))"
    using simple by auto
  then have "bootstrap_add cd peer r = Some (r\<lparr>r_config := cfg, r_trk := \<lparr>pt_progress = trk\<rparr>,
      r_isLearner := (case fmlookup trk (r_id r) of None \<Rightarrow> False | Some p \<Rightarrow> pr_IsLearner p)\<rparr>)"
    using assms(5)
    by (auto simp: bootstrap_add_def raft_applyConfChange_def ProgressTracker_MoveProgressMap_def ConfChange_AsV2_def
      ConfChangeV2_LeaveJoint_def ConfChangeV2_EnterJoint_def raft_switchToConfig_def MakeProgressTracker_def
      ProgressTracker_Progress_def Let_def)
  with cfg sets show ?thesis by blast
qed

lemma bootstrap_adds:
  assumes "tracked (r_config r) (pt_progress (r_trk r))" and "snd (c_Voters (r_config r)) = None"
    and "sets_of (r_config r) = (V, {||}, {||}, {||})" and "\<forall>p \<in> set peers. pe_ID p \<noteq> 0"
    and "r_state r = StateFollower"
  shows "\<exists>cfg trk l. foldM (bootstrap_add cd) peers r =
      Some (r\<lparr>r_config := cfg, r_trk := \<lparr>pt_progress = trk\<rparr>, r_isLearner := l\<rparr>) \<and>
    tracked cfg trk \<and> snd (c_Voters cfg) = None \<and>
    sets_of cfg = (V |\<union>| fset_of_list (map pe_ID peers), {||}, {||}, {||})"
  using assms
proof (induction peers arbitrary: r V)
  case Nil
  then show ?case
    by (intro exI [of _ "r_config r"] exI [of _ "pt_progress (r_trk r)"] exI [of _ "r_isLearner r"]) simp
next
  case (Cons p ps)
  from bootstrap_add_voter [OF Cons.prems(1-3) _ Cons.prems(5), of p cd] Cons.prems(4)
  obtain cfg trk l where add: "bootstrap_add cd p r = Some (r\<lparr>r_config := cfg, r_trk := \<lparr>pt_progress = trk\<rparr>, r_isLearner := l\<rparr>)"
    and cfg: "tracked cfg trk" "snd (c_Voters cfg) = None" "sets_of cfg = (finsert (pe_ID p) V, {||}, {||}, {||})"
    by auto
  let ?r = "r\<lparr>r_config := cfg, r_trk := \<lparr>pt_progress = trk\<rparr>, r_isLearner := l\<rparr>"
  obtain cfg' trk' l' where "foldM (bootstrap_add cd) ps ?r =
      Some (?r\<lparr>r_config := cfg', r_trk := \<lparr>pt_progress = trk'\<rparr>, r_isLearner := l'\<rparr>)"
    and "tracked cfg' trk'" "snd (c_Voters cfg') = None"
      "sets_of cfg' = (finsert (pe_ID p) V |\<union>| fset_of_list (map pe_ID ps), {||}, {||}, {||})"
    using Cons.IH [of ?r "finsert (pe_ID p) V"] cfg Cons.prems(4,5) by auto
  with add show ?case
    by (intro exI [of _ cfg'] exI [of _ trk'] exI [of _ l']) (simp add: funion_finsert_left)
qed

lemma becomeFollower_unfortified:
  assumes "r_leadEpoch r = 0" and "pt_progress (r_trk r) = fmempty"
  shows "\<exists>r'. raft_becomeFollower term lead r = Some r' \<and> r_raftLog r' = r_raftLog r \<and> r_config r' = r_config r \<and>
    pt_progress (r_trk r') = fmempty \<and> r_state r' = StateFollower \<and> r_Term r' = term \<and> r_lead r' = lead"
proof -
  have "raft_assertNotSupporting (r\<lparr>r_step := s\<rparr>) = Some ()" for s
    using assms(1) by (simp add: raft_assertNotSupporting_def raft_supportingFortifiedLeader_def assertTrue_def)
  moreover have "fmmap_keys f fmempty = fmempty" for f :: "PeerID \<Rightarrow> Progress \<Rightarrow> Progress"
    by (rule fmap_ext) simp
  ultimately show ?thesis
    using assms(2)
    by (auto simp: raft_becomeFollower_def raft_reset_def raft_resetRandomizedElectionTimeout_def
      raft_abortLeaderTransfer_def Let_def)
qed

lemma empty_tracked: "tracked cfg trk \<Longrightarrow> sets_of cfg = ({||}, {||}, {||}, {||}) \<Longrightarrow> trk = fmempty"
  by (rule fmap_ext) (auto simp: tracked_def fmdom_notD)

section \<open>Properties\<close>

text \<open>
  Property C39: the first use of a node. On empty storage and with a node that has no
  members yet, \<open>Bootstrap\<close> with at least one peer does not fail: the node is a follower of
  term 1 without a leader whose voters are exactly the given peers; its log holds one
  committed and not yet applied configuration change for each peer, in their order, which
  the application will see; and the next \<open>Ready\<close> writes the hard state.
\<close>

theorem Bootstrap_makes_peers_voters:
  assumes "peers \<noteq> []" and "\<forall>p \<in> set peers. pe_ID p \<noteq> 0 \<and> ConfChange_Marshal cd (bootstrap_change p) \<noteq> None"
    and "length peers < 2 ^ 64" and "st_LastIndex (rl_storage (r_raftLog (rn_raft rn))) = Inr 0"
    and "rl_unstable (r_raftLog (rn_raft rn)) = newUnstable \<lparr>id_term = 0, id_index = 0\<rparr>"
    and "tracked (r_config (rn_raft rn)) (pt_progress (r_trk (rn_raft rn)))"
    and "snd (c_Voters (r_config (rn_raft rn))) = None"
    and "sets_of (r_config (rn_raft rn)) = ({||}, {||}, {||}, {||})" and "r_leadEpoch (rn_raft rn) = 0"
  shows "\<exists>rn' es. RawNode_Bootstrap cd peers rn = Some (rn', None)
    \<and> r_state (rn_raft rn') = StateFollower \<and> r_Term (rn_raft rn') = 1 \<and> r_lead (rn_raft rn') = PeerNone
    \<and> sets_of (r_config (rn_raft rn')) = (fset_of_list (map pe_ID peers), {||}, {||}, {||})
    \<and> tracked (r_config (rn_raft rn')) (pt_progress (r_trk (rn_raft rn')))
    \<and> u_entries (rl_unstable (r_raftLog (rn_raft rn'))) = es
    \<and> list_all2 (\<lambda>p e. ConfChange_Marshal cd (bootstrap_change p) = Some (e_Data e)) peers es
    \<and> list_all (\<lambda>e. e_Type e = EntryConfChange \<and> e_Term e = 1) es \<and> contig \<lparr>id_term = 0, id_index = 0\<rparr> es
    \<and> unat (rl_committed (r_raftLog (rn_raft rn'))) = length peers
    \<and> rl_applied (r_raftLog (rn_raft rn')) = rl_applied (r_raftLog (rn_raft rn))
    \<and> rn_prevHardSt rn' = HardState_zero"
proof -
  let ?r = "rn_raft rn"
  have pm: "pt_progress (r_trk ?r) = fmempty"
    by (rule empty_tracked [OF assms(6,8)])
  obtain r where r: "raft_becomeFollower 1 PeerNone ?r = Some r" "r_raftLog r = r_raftLog ?r" "r_config r = r_config ?r"
    "pt_progress (r_trk r) = fmempty" "r_state r = StateFollower" "r_Term r = 1" "r_lead r = PeerNone"
    using becomeFollower_unfortified [OF assms(9) pm] by blast
  obtain es where es: "bootstrap_entries cd 0 peers = Some es" "contig \<lparr>id_term = 0, id_index = 0\<rparr> es"
    "list_all (\<lambda>e. e_Type e = EntryConfChange \<and> e_Term e = 1) es"
    "list_all2 (\<lambda>p e. ConfChange_Marshal cd (bootstrap_change p) = Some (e_Data e)) peers es"
    using bootstrap_entries_Some [of peers cd 0] assms(2) by fastforce
  have len: "length es = length peers" "es \<noteq> []"
    using es(4) assms(1) list_all2_lengthD by fastforce+
  let ?app = "\<lparr>ls_term = 1, ls_prev = \<lparr>id_term = 0, id_index = 0\<rparr>, ls_entries = es\<rparr>"
  have "e_Term (last es) = 1"
    using es(3) len(2) by (auto simp: list_all_iff)
  then have valid: "logSlice_valid ?app"
    using es(2) len(2) by (simp add: logSlice_valid_contig last_id_def pbEntryID_def)
  obtain l where app: "raftLog_append ?app (r_raftLog r) = (l, True)" "u_entries (rl_unstable l) = es"
    "rl_applied l = rl_applied (r_raftLog ?r)"
    using assms(5) r(2)
    by (simp add: raftLog_append_def unstable_append_def newUnstable_def logSlice_lastEntryID_def)
  let ?r1 = "r\<lparr>r_raftLog := l\<lparr>rl_committed := logSlice_lastIndex ?app\<rparr>\<rparr>"
  obtain cfg trk x where fold: "foldM (bootstrap_add cd) peers ?r1 =
      Some (?r1\<lparr>r_config := cfg, r_trk := \<lparr>pt_progress = trk\<rparr>, r_isLearner := x\<rparr>)"
    and cfg: "tracked cfg trk" "sets_of cfg = (fset_of_list (map pe_ID peers), {||}, {||}, {||})"
    using bootstrap_adds [of ?r1 "{||}" peers cd] assms(2,6-8) r pm by auto
  have "RawNode_Bootstrap cd peers rn = Some (rn\<lparr>rn_prevHardSt := HardState_zero,
      rn_raft := ?r1\<lparr>r_config := cfg, r_trk := \<lparr>pt_progress = trk\<rparr>, r_isLearner := x\<rparr>\<rparr>, None)"
    using assms(1,4) r(1) es(1) valid app(1) fold by (simp add: RawNode_Bootstrap_def Let_def)
  moreover have "unat (logSlice_lastIndex ?app) = length peers"
    using len(1) assms(3) by (simp add: logSlice_lastIndex_def unat_len64)
  ultimately show ?thesis
    using r(5-7) es(2-4) app(2,3) cfg by simp
qed

definition ex_peers :: "Peer list" where
  "ex_peers = [\<lparr>pe_ID = 1, pe_Context = []\<rparr>, \<lparr>pe_ID = 2, pe_Context = []\<rparr>, \<lparr>pe_ID = 3, pe_Context = []\<rparr>]"

definition ex_codec :: codec where
  "ex_codec = (fixed_codec 10)\<lparr>ConfChange_Marshal := (\<lambda>c. Some (char_of (unat (cc_NodeID c)) # cc_Context c))\<rparr>"

definition ex_new :: RawNode where
  "ex_new = the (NewRawNode ex_codec
     (ex_config\<lparr>rc_Storage := Some (MemoryStorage_Storage ex_codec NewMemoryStorage)\<rparr>))"

lemma ex_new_facts:
  "st_LastIndex (rl_storage (r_raftLog (rn_raft ex_new))) = Inr 0"
  "rl_unstable (r_raftLog (rn_raft ex_new)) = newUnstable \<lparr>id_term = 0, id_index = 0\<rparr>"
  "r_config (rn_raft ex_new) = \<lparr>c_Voters = (Some {||}, None), c_AutoLeave = False, c_Learners = None, c_LearnersNext = None\<rparr>"
  "pt_progress (r_trk (rn_raft ex_new)) = fmempty" "r_leadEpoch (rn_raft ex_new) = 0"
  by code_simp+

theorem Bootstrap_makes_peers_voters_witness:
  "\<exists>rn'. RawNode_Bootstrap ex_codec ex_peers ex_new = Some (rn', None)
    \<and> sets_of (r_config (rn_raft rn')) = ({|1, 2, 3|}, {||}, {||}, {||})
    \<and> unat (rl_committed (r_raftLog (rn_raft rn'))) = 3"
proof -
  have marshal: "\<forall>p \<in> set ex_peers. pe_ID p \<noteq> 0 \<and> ConfChange_Marshal ex_codec (bootstrap_change p) \<noteq> None"
    by (simp add: ex_peers_def ex_codec_def)
  have "tracked (r_config (rn_raft ex_new)) (pt_progress (r_trk (rn_raft ex_new)))"
    and "snd (c_Voters (r_config (rn_raft ex_new))) = None"
    and "sets_of (r_config (rn_raft ex_new)) = ({||}, {||}, {||}, {||})"
    using ex_new_facts(3,4) by (simp_all add: tracked_def config_sel_defs canonical_def keys_def)
  from Bootstrap_makes_peers_voters [OF _ marshal _ ex_new_facts(1,2) this ex_new_facts(5)]
  obtain rn' where "RawNode_Bootstrap ex_codec ex_peers ex_new = Some (rn', None)"
    and "sets_of (r_config (rn_raft rn')) = (fset_of_list (map pe_ID ex_peers), {||}, {||}, {||})"
    and "unat (rl_committed (r_raftLog (rn_raft rn'))) = length ex_peers"
    by (auto simp: ex_peers_def)
  then show ?thesis by (auto simp: ex_peers_def)
qed

text \<open>
  Property C40: the mark that the log store derives from a write. \<open>Mark\<close> is documented to return
  the mark of the log in storage after the write. It returns the position of the snapshot
  with the accepted term for a write with a snapshot. For a write of entries without a
  snapshot it returns the zero mark, although the write, whose message carries the mark, ends
  at the last entry: \<open>Mark\<close> looks for entries in the acknowledgement, which never has any.
\<close>

theorem storage_append_mark_misses_entries:
  assumes "needStorageAppendRespMsg rd"
  shows "MsgStorageAppendDone_Mark (MsgStorageAppend_OnDone (newStorageAppendMsg r rd)) =
      (if IsEmptySnap (rd_Snapshot rd) then \<lparr>lm_Term = 0, lm_Index = 0\<rparr>
       else \<lparr>lm_Term = raftLog_accTerm (r_raftLog r), lm_Index = sm_Index (s_Metadata (rd_Snapshot rd))\<rparr>)
    \<and> (rd_Entries rd \<noteq> [] \<longrightarrow> m_LogTerm (newStorageAppendMsg r rd) = raftLog_accTerm (r_raftLog r)
        \<and> m_Index (newStorageAppendMsg r rd) = e_Index (last (rd_Entries rd)))"
  using assms
  by (auto simp: MsgStorageAppendDone_Mark_def MsgStorageAppend_OnDone_def newStorageAppendMsg_def with_responses_def
    newStorageAppendRespMsg_def Message.defs StorageMessage.defs nth_append Message_zero_def Let_def)

definition ex_first_entries :: Ready where
  "ex_first_entries = snd (the (RawNode_Ready (fixed_codec 10) ex_leader))"

theorem storage_append_mark_misses_entries_witness:
  "MsgStorageAppendDone_Mark (MsgStorageAppend_OnDone (newStorageAppendMsg (rn_raft ex_leader) ex_first_entries))
     = \<lparr>lm_Term = 0, lm_Index = 0\<rparr>
   \<and> m_LogTerm (newStorageAppendMsg (rn_raft ex_leader) ex_first_entries) = 1
   \<and> m_Index (newStorageAppendMsg (rn_raft ex_leader) ex_first_entries) = 1"
proof -
  have "needStorageAppendRespMsg ex_first_entries" "IsEmptySnap (rd_Snapshot ex_first_entries)"
    "rd_Entries ex_first_entries \<noteq> []" "e_Index (last (rd_Entries ex_first_entries)) = 1"
    "raftLog_accTerm (r_raftLog (rn_raft ex_leader)) = 1"
    by code_simp+
  with storage_append_mark_misses_entries [of ex_first_entries "rn_raft ex_leader"] show ?thesis by simp
qed

end
