(* ===== verification/Store_Support.thy ===== *)
theory Store_Support
  imports Hlc_Timestamp "HOL-Library.Finite_Map" "HOL-Library.Word"
begin

unbundle bit_operations_syntax

text \<open>
  The state of the store liveness protocol, \<open>kv/kvserver/storeliveness\<close>: what a store
  records as a supporter of other stores (\<open>supporter_state.go\<close>) and as a requester of
  support from them (\<open>requester_state.go\<close>), and what of it is on disk (\<open>persist.go\<close>).
  The messages are those of \<open>storelivenesspb/service.proto\<close>. An update is checked out,
  filled and checked in again; its checked-in view is the state of the handler, to which
  the source keeps a pointer. Locks are not modelled: all updates come from one
  goroutine. An \<open>Epoch\<close> is an \<open>int64\<close>.
\<close>

section \<open>Data\<close>

datatype StoreIdent = StoreIdent (si_NodeID: int) (si_StoreID: int)

instantiation StoreIdent :: linorder
begin

definition less_eq_StoreIdent :: "StoreIdent \<Rightarrow> StoreIdent \<Rightarrow> bool" where
  "less_eq_StoreIdent a b \<longleftrightarrow>
     si_NodeID a < si_NodeID b \<or> si_NodeID a = si_NodeID b \<and> si_StoreID a \<le> si_StoreID b"

definition less_StoreIdent :: "StoreIdent \<Rightarrow> StoreIdent \<Rightarrow> bool" where
  "less_StoreIdent a b \<longleftrightarrow>
     si_NodeID a < si_NodeID b \<or> si_NodeID a = si_NodeID b \<and> si_StoreID a < si_StoreID b"

instance
  by standard (auto simp: less_eq_StoreIdent_def less_StoreIdent_def intro: StoreIdent.expand)

end

record SupportState =
  ss_Target :: StoreIdent
  ss_Epoch :: int
  ss_Expiration :: Timestamp

definition SupportState_zero :: SupportState where
  "SupportState_zero = \<lparr>ss_Target = StoreIdent 0 0, ss_Epoch = 0, ss_Expiration = Timestamp 0 0\<rparr>"

record RequesterMeta =
  rm_MaxEpoch :: int
  rm_MaxRequested :: Timestamp

definition RequesterMeta_zero :: RequesterMeta where
  "RequesterMeta_zero = \<lparr>rm_MaxEpoch = 0, rm_MaxRequested = Timestamp 0 0\<rparr>"

record SupporterMeta =
  spm_MaxWithdrawn :: Timestamp

definition SupporterMeta_zero :: SupporterMeta where
  "SupporterMeta_zero = \<lparr>spm_MaxWithdrawn = Timestamp 0 0\<rparr>"

datatype SlMessageType = SlMsgHeartbeat | SlMsgHeartbeatResp | SlMsgUnknown int

record SlMessage =
  slm_Type :: SlMessageType
  slm_From :: StoreIdent
  slm_To :: StoreIdent
  slm_Epoch :: int
  slm_Expiration :: Timestamp

text \<open>The values of a map in the order of the keys; the source visits them in any order.\<close>

definition entries_of :: "('k::linorder, 'a) fmap \<Rightarrow> ('k \<times> 'a) list" where
  "entries_of m = List.map_filter (\<lambda>i. map_option (Pair i) (fmlookup m i)) (sorted_list_of_fset (fmdom m))"

section \<open>The disk\<close>

text \<open>
  On disk a support state is kept under the key of its target, with the target itself left
  out. The key of a store is the big-endian form of a \<open>uint64\<close> (\<open>keys/keys.go\<close>); keys are
  ordered as these numbers are.
\<close>

definition StoreLivenessSupportForKey :: "int \<Rightarrow> int \<Rightarrow> 64 word" where
  "StoreLivenessSupportForKey nodeID storeID = push_bit 32 (word_of_int nodeID) OR word_of_int storeID"

definition DecodeStoreLivenessSupportForKey :: "64 word \<Rightarrow> StoreIdent" where
  "DecodeStoreLivenessSupportForKey k =
     StoreIdent (wrap_int32 (uint (drop_bit 32 k))) (wrap_int32 (uint (k AND 0xFFFFFFFF)))"

record SlDisk =
  dk_RequesterMeta :: RequesterMeta
  dk_SupporterMeta :: SupporterMeta
  dk_SupportFor :: "(64 word, SupportState) fmap"

definition SlDisk_empty :: SlDisk where
  "SlDisk_empty = \<lparr>dk_RequesterMeta = RequesterMeta_zero, dk_SupporterMeta = SupporterMeta_zero,
     dk_SupportFor = fmempty\<rparr>"

text \<open>
  The storage engine is a parameter: a write either fails or yields the new contents, and
  a read may fail.
\<close>

datatype sl_put = PutRequesterMeta RequesterMeta | PutSupporterMeta SupporterMeta
  | PutSupportFor "64 word" SupportState

type_synonym sl_engine = "sl_put \<Rightarrow> SlDisk \<Rightarrow> SlDisk option"

datatype sl_read = ReadRequesterMeta | ReadSupporterMeta | ReadSupportFor

type_synonym sl_read_fails = "sl_read \<Rightarrow> bool"

text \<open>An engine whose writes succeed.\<close>

fun reliable_engine :: sl_engine where
  "reliable_engine (PutRequesterMeta rm) d = Some (d\<lparr>dk_RequesterMeta := rm\<rparr>)"
| "reliable_engine (PutSupporterMeta sm) d = Some (d\<lparr>dk_SupporterMeta := sm\<rparr>)"
| "reliable_engine (PutSupportFor k ss) d = Some (d\<lparr>dk_SupportFor := fmupd k ss (dk_SupportFor d)\<rparr>)"

subsection \<open>Reading\<close>

datatype sl_error = SlReadError

definition readRequesterMeta :: "sl_read_fails \<Rightarrow> SlDisk \<Rightarrow> sl_error + RequesterMeta" where
  "readRequesterMeta rd d = (if rd ReadRequesterMeta then Inl SlReadError else Inr (dk_RequesterMeta d))"

definition readSupporterMeta :: "sl_read_fails \<Rightarrow> SlDisk \<Rightarrow> sl_error + SupporterMeta" where
  "readSupporterMeta rd d = (if rd ReadSupporterMeta then Inl SlReadError else Inr (dk_SupporterMeta d))"

text \<open>The scan excludes its upper end.\<close>

definition readSupportForState :: "sl_read_fails \<Rightarrow> SlDisk \<Rightarrow> sl_error + SupportState list" where
  "readSupportForState rd d =
     (let minKey = StoreLivenessSupportForKey 0 0;
          maxKey = StoreLivenessSupportForKey MaxInt32 MaxInt32 in
      if rd ReadSupportFor then Inl SlReadError
      else Inr (map (\<lambda>(k, ss). ss\<lparr>ss_Target := DecodeStoreLivenessSupportForKey k\<rparr>)
        (filter (\<lambda>(k, _). minKey \<le> k \<and> k < maxKey) (entries_of (dk_SupportFor d)))))"

subsection \<open>Writing\<close>

text \<open>The results of writing: what is on disk, and whether there was an error.\<close>

type_synonym written = "SlDisk \<times> bool"

definition put :: "sl_engine \<Rightarrow> sl_put \<Rightarrow> SlDisk \<Rightarrow> written" where
  "put eng p d = (case eng p d of Some d' \<Rightarrow> (d', False) | None \<Rightarrow> (d, True))"

definition writeRequesterMeta :: "sl_engine \<Rightarrow> RequesterMeta \<Rightarrow> SlDisk \<Rightarrow> written" where
  "writeRequesterMeta eng rm = put eng (PutRequesterMeta rm)"

definition writeSupporterMeta :: "sl_engine \<Rightarrow> SupporterMeta \<Rightarrow> SlDisk \<Rightarrow> written" where
  "writeSupporterMeta eng sm = put eng (PutSupporterMeta sm)"

definition writeSupportForState :: "sl_engine \<Rightarrow> SupportState \<Rightarrow> SlDisk \<Rightarrow> written" where
  "writeSupportForState eng ss =
     (let key = StoreLivenessSupportForKey (si_NodeID (ss_Target ss)) (si_StoreID (ss_Target ss)) in
      put eng (PutSupportFor key (ss\<lparr>ss_Target := StoreIdent 0 0\<rparr>)))"

section \<open>The supporter\<close>

record supporterState =
  sps_meta :: SupporterMeta
  sps_supportFor :: "(StoreIdent, SupportState) fmap"

definition supporterState_zero :: supporterState where
  "supporterState_zero = \<lparr>sps_meta = SupporterMeta_zero, sps_supportFor = fmempty\<rparr>"

record supporterStateForUpdate =
  su_checkedIn :: supporterState
  su_inProgress :: supporterState

text \<open>\<open>ssh_update\<close> is the in-progress view of the update that may be checked out.\<close>

record supporterStateHandler =
  ssh_supporterState :: supporterState
  ssh_update :: "supporterState option"

definition newSupporterStateHandler :: supporterStateHandler where
  "newSupporterStateHandler =
     \<lparr>ssh_supporterState = supporterState_zero, ssh_update = Some supporterState_zero\<rparr>"

definition supporterStateHandler_getSupportFor :: "StoreIdent \<Rightarrow> supporterStateHandler \<Rightarrow> SupportState" where
  "supporterStateHandler_getSupportFor i ssh =
     (case fmlookup (sps_supportFor (ssh_supporterState ssh)) i of Some ss \<Rightarrow> ss | None \<Rightarrow> SupportState_zero)"

definition ssfu_assertMeta :: "supporterStateForUpdate \<Rightarrow> unit go" where
  "ssfu_assertMeta u = assertTrue (Timestamp_LessEq (spm_MaxWithdrawn (sps_meta (su_checkedIn u)))
     (spm_MaxWithdrawn (sps_meta (su_inProgress u))))"

definition ssfu_getMeta :: "supporterStateForUpdate \<Rightarrow> SupporterMeta go" where
  "ssfu_getMeta u =
     (if sps_meta (su_inProgress u) \<noteq> SupporterMeta_zero then do {
        ssfu_assertMeta u;
        Some (sps_meta (su_inProgress u))
      } else Some (sps_meta (su_checkedIn u)))"

definition ssfu_getSupportFor :: "StoreIdent \<Rightarrow> supporterStateForUpdate \<Rightarrow> SupportState option" where
  "ssfu_getSupportFor i u =
     (case fmlookup (sps_supportFor (su_inProgress u)) i of
        Some ss \<Rightarrow> Some ss
      | None \<Rightarrow> fmlookup (sps_supportFor (su_checkedIn u)) i)"

text \<open>The loop over the changed states; it ends at the first error.\<close>

fun write_states :: "sl_engine \<Rightarrow> SupportState list \<Rightarrow> SlDisk \<Rightarrow> written" where
  "write_states eng [] d = (d, False)"
| "write_states eng (ss # sss) d =
     (let (d, err) = writeSupportForState eng ss d in if err then (d, True) else write_states eng sss d)"

definition ssfu_write :: "sl_engine \<Rightarrow> supporterStateForUpdate \<Rightarrow> SlDisk \<Rightarrow> written go" where
  "ssfu_write eng u d =
     (let meta = sps_meta (su_inProgress u); changed = sps_supportFor (su_inProgress u) in
      if meta = SupporterMeta_zero \<and> changed = fmempty then Some (d, False)
      else do {
        (d, err) \<leftarrow> (if meta \<noteq> SupporterMeta_zero then do {
            ssfu_assertMeta u;
            Some (writeSupporterMeta eng meta d)
          } else Some (d, False));
        Some (if err then (d, True) else write_states eng (map snd (entries_of changed)) d)
      })"

definition supporterStateHandler_read ::
    "sl_read_fails \<Rightarrow> SlDisk \<Rightarrow> supporterStateHandler \<Rightarrow> sl_error + supporterStateHandler" where
  "supporterStateHandler_read rd d ssh =
     (case readSupporterMeta rd d of
        Inl err \<Rightarrow> Inl err
      | Inr meta \<Rightarrow> (case readSupportForState rd d of
          Inl err \<Rightarrow> Inl err
        | Inr sss \<Rightarrow> Inr (ssh\<lparr>ssh_supporterState := \<lparr>sps_meta = meta,
            sps_supportFor = foldl (\<lambda>m s. fmupd (ss_Target s) s m) fmempty sss\<rparr>\<rparr>)))"

definition ssh_checkOutUpdate :: "supporterStateHandler \<Rightarrow> (supporterStateHandler \<times> supporterStateForUpdate) go" where
  "ssh_checkOutUpdate ssh = do {
     p \<leftarrow> ssh_update ssh;
     Some (ssh\<lparr>ssh_update := None\<rparr>, \<lparr>su_checkedIn = ssh_supporterState ssh, su_inProgress = p\<rparr>)
   }"

definition ssh_checkInUpdate :: "supporterStateForUpdate \<Rightarrow> supporterStateHandler \<Rightarrow> supporterStateHandler go" where
  "ssh_checkInUpdate u ssh = do {
     let meta = sps_meta (su_inProgress u);
     let changed = sps_supportFor (su_inProgress u);
     let st = su_checkedIn u;
     st \<leftarrow> (if meta = SupporterMeta_zero \<and> changed = fmempty then Some st
           else do {
             st \<leftarrow> (if meta \<noteq> SupporterMeta_zero then do {
                 ssfu_assertMeta u;
                 Some (st\<lparr>sps_meta := meta\<rparr>)
               } else Some st);
             Some (st\<lparr>sps_supportFor := sps_supportFor st ++\<^sub>f changed\<rparr>)
           });
     Some (ssh\<lparr>ssh_supporterState := st, ssh_update := Some supporterState_zero\<rparr>)
   }"

subsection \<open>Heartbeats\<close>

definition handleHeartbeat :: "SlMessage \<Rightarrow> SupportState \<Rightarrow> SupportState go" where
  "handleHeartbeat msg ss =
     (if ss_Epoch ss = slm_Epoch msg
      then Some (ss\<lparr>ss_Expiration := fst (Timestamp_Forward (ss_Expiration ss) (slm_Expiration msg))\<rparr>)
      else if ss_Epoch ss < slm_Epoch msg then do {
        assertTrue (Timestamp_Less (ss_Expiration ss) (slm_Expiration msg));
        Some (ss\<lparr>ss_Epoch := slm_Epoch msg, ss_Expiration := slm_Expiration msg\<rparr>)
      } else Some ss)"

definition ssfu_handleHeartbeat ::
    "SlMessage \<Rightarrow> supporterStateForUpdate \<Rightarrow> (supporterStateForUpdate \<times> SlMessage) go" where
  "ssfu_handleHeartbeat msg u = do {
     let from = slm_From msg;
     let ss = (case ssfu_getSupportFor from u of
                 Some ss \<Rightarrow> ss | None \<Rightarrow> SupportState_zero\<lparr>ss_Target := from\<rparr>);
     ssNew \<leftarrow> handleHeartbeat msg ss;
     let u = (if ss \<noteq> ssNew then u\<lparr>su_inProgress := (su_inProgress u)
                \<lparr>sps_supportFor := fmupd from ssNew (sps_supportFor (su_inProgress u))\<rparr>\<rparr> else u);
     Some (u, \<lparr>slm_Type = SlMsgHeartbeatResp, slm_From = slm_To msg, slm_To = slm_From msg,
       slm_Epoch = ss_Epoch ssNew, slm_Expiration = ss_Expiration ssNew\<rparr>)
   }"

subsection \<open>Withdrawal\<close>

definition maybeWithdrawSupport :: "Timestamp \<Rightarrow> SupportState \<Rightarrow> SupportState" where
  "maybeWithdrawSupport now ss =
     (if \<not> Timestamp_IsEmpty (ss_Expiration ss) \<and> Timestamp_LessEq (ss_Expiration ss) now
      then ss\<lparr>ss_Epoch := wrap_int64 (ss_Epoch ss + 1), ss_Expiration := Timestamp 0 0\<rparr> else ss)"

definition withdraw_one :: "Timestamp \<Rightarrow> StoreIdent \<times> SupportState \<Rightarrow> supporterStateForUpdate \<Rightarrow> supporterStateForUpdate go" where
  "withdraw_one now e u =
     (case e of (i, ss) \<Rightarrow>
        let ssNew = maybeWithdrawSupport now ss in
        if ss \<noteq> ssNew then do {
          let u = u\<lparr>su_inProgress := (su_inProgress u)
            \<lparr>sps_supportFor := fmupd i ssNew (sps_supportFor (su_inProgress u))\<rparr>\<rparr>;
          meta \<leftarrow> ssfu_getMeta u;
          let (w, changed) = Timestamp_Forward (spm_MaxWithdrawn meta) now;
          Some (if changed then u\<lparr>su_inProgress := (su_inProgress u)\<lparr>sps_meta := meta\<lparr>spm_MaxWithdrawn := w\<rparr>\<rparr>\<rparr>
                else u)
        } else Some u)"

definition ssfu_withdrawSupport :: "Timestamp \<Rightarrow> supporterStateForUpdate \<Rightarrow> supporterStateForUpdate go" where
  "ssfu_withdrawSupport now u = do {
     assertTrue (sps_supportFor (su_inProgress u) = fmempty);
     foldM (withdraw_one now) (entries_of (sps_supportFor (su_checkedIn u))) u
   }"

section \<open>The requester\<close>

record requestedSupport =
  rq_state :: SupportState
  rq_recentlyQueried :: bool

record requesterState =
  rqs_meta :: RequesterMeta
  rqs_supportFrom :: "(StoreIdent, requestedSupport) fmap"

definition requesterState_zero :: requesterState where
  "requesterState_zero = \<lparr>rqs_meta = RequesterMeta_zero, rqs_supportFrom = fmempty\<rparr>"

record requesterStateForUpdate =
  ru_checkedIn :: requesterState
  ru_inProgress :: requesterState

record requesterStateHandler =
  rsh_requesterState :: requesterState
  rsh_update :: "requesterState option"

definition newRequesterStateHandler :: requesterStateHandler where
  "newRequesterStateHandler =
     \<lparr>rsh_requesterState = requesterState_zero, rsh_update = Some requesterState_zero\<rparr>"

definition requesterStateHandler_getSupportFrom ::
    "StoreIdent \<Rightarrow> requesterStateHandler \<Rightarrow> requesterStateHandler \<times> SupportState option" where
  "requesterStateHandler_getSupportFrom i rsh =
     (let st = rsh_requesterState rsh in
      case fmlookup (rqs_supportFrom st) i of
        Some rs \<Rightarrow>
          (rsh\<lparr>rsh_requesterState := st\<lparr>rqs_supportFrom :=
             fmupd i (rs\<lparr>rq_recentlyQueried := True\<rparr>) (rqs_supportFrom st)\<rparr>\<rparr>, Some (rq_state rs))
      | None \<Rightarrow> (rsh, None))"

definition rsfu_assertMeta :: "requesterStateForUpdate \<Rightarrow> unit go" where
  "rsfu_assertMeta u = do {
     assertTrue (rm_MaxEpoch (rqs_meta (ru_checkedIn u)) \<le> rm_MaxEpoch (rqs_meta (ru_inProgress u)));
     assertTrue (Timestamp_LessEq (rm_MaxRequested (rqs_meta (ru_checkedIn u)))
       (rm_MaxRequested (rqs_meta (ru_inProgress u))))
   }"

definition rsfu_getMeta :: "requesterStateForUpdate \<Rightarrow> RequesterMeta go" where
  "rsfu_getMeta u =
     (if rqs_meta (ru_inProgress u) \<noteq> RequesterMeta_zero then do {
        rsfu_assertMeta u;
        Some (rqs_meta (ru_inProgress u))
      } else Some (rqs_meta (ru_checkedIn u)))"

definition rsfu_getSupportFrom :: "StoreIdent \<Rightarrow> requesterStateForUpdate \<Rightarrow> SupportState option" where
  "rsfu_getSupportFrom i u =
     map_option rq_state
       (case fmlookup (rqs_supportFrom (ru_inProgress u)) i of
          Some rs \<Rightarrow> Some rs
        | None \<Rightarrow> fmlookup (rqs_supportFrom (ru_checkedIn u)) i)"

definition rsfu_write :: "sl_engine \<Rightarrow> requesterStateForUpdate \<Rightarrow> SlDisk \<Rightarrow> written go" where
  "rsfu_write eng u d =
     (if rqs_meta (ru_inProgress u) = RequesterMeta_zero then Some (d, False)
      else do {
        rsfu_assertMeta u;
        Some (writeRequesterMeta eng (rqs_meta (ru_inProgress u)) d)
      })"

definition requesterStateHandler_read ::
    "sl_read_fails \<Rightarrow> SlDisk \<Rightarrow> requesterStateHandler \<Rightarrow> sl_error + requesterStateHandler" where
  "requesterStateHandler_read rd d rsh =
     (case readRequesterMeta rd d of
        Inl err \<Rightarrow> Inl err
      | Inr meta \<Rightarrow> Inr (rsh\<lparr>rsh_requesterState := (rsh_requesterState rsh)\<lparr>rqs_meta := meta\<rparr>\<rparr>))"

definition rsh_checkOutUpdate :: "requesterStateHandler \<Rightarrow> (requesterStateHandler \<times> requesterStateForUpdate) go" where
  "rsh_checkOutUpdate rsh = do {
     p \<leftarrow> rsh_update rsh;
     Some (rsh\<lparr>rsh_update := None\<rparr>, \<lparr>ru_checkedIn = rsh_requesterState rsh, ru_inProgress = p\<rparr>)
   }"

text \<open>Checking in one changed state goes through the pointer in the checked-in view, which may be nil.\<close>

definition checkIn_one :: "StoreIdent \<times> requestedSupport \<Rightarrow> requesterState \<Rightarrow> requesterState go" where
  "checkIn_one e st =
     (case e of (i, rs) \<Rightarrow> do {
        old \<leftarrow> fmlookup (rqs_supportFrom st) i;
        Some (st\<lparr>rqs_supportFrom := fmupd i (old\<lparr>rq_state := rq_state rs\<rparr>) (rqs_supportFrom st)\<rparr>)
      })"

definition rsh_checkInUpdate :: "requesterStateForUpdate \<Rightarrow> requesterStateHandler \<Rightarrow> requesterStateHandler go" where
  "rsh_checkInUpdate u rsh = do {
     let meta = rqs_meta (ru_inProgress u);
     let changed = rqs_supportFrom (ru_inProgress u);
     let st = ru_checkedIn u;
     st \<leftarrow> (if meta = RequesterMeta_zero \<and> changed = fmempty then Some st
           else do {
             st \<leftarrow> (if meta \<noteq> RequesterMeta_zero then do {
                 rsfu_assertMeta u;
                 Some (st\<lparr>rqs_meta := meta\<rparr>)
               } else Some st);
             foldM checkIn_one (entries_of changed) st
           });
     Some (rsh\<lparr>rsh_requesterState := st, rsh_update := Some requesterState_zero\<rparr>)
   }"

text \<open>
  Adding and removing stores checks an update out and in again around the change of the
  state itself.
\<close>

definition requesterStateHandler_addStore :: "StoreIdent \<Rightarrow> requesterStateHandler \<Rightarrow> requesterStateHandler go" where
  "requesterStateHandler_addStore i rsh = do {
     (rsh, u) \<leftarrow> rsh_checkOutUpdate rsh;
     let st = rsh_requesterState rsh;
     let st = (case fmlookup (rqs_supportFrom st) i of
         Some _ \<Rightarrow> st
       | None \<Rightarrow> st\<lparr>rqs_supportFrom := fmupd i
           \<lparr>rq_state = SupportState_zero\<lparr>ss_Target := i, ss_Epoch := rm_MaxEpoch (rqs_meta st)\<rparr>,
            rq_recentlyQueried = True\<rparr> (rqs_supportFrom st)\<rparr>);
     rsh_checkInUpdate (u\<lparr>ru_checkedIn := st\<rparr>) (rsh\<lparr>rsh_requesterState := st\<rparr>)
   }"

definition requesterStateHandler_removeIdleStores :: "requesterStateHandler \<Rightarrow> requesterStateHandler go" where
  "requesterStateHandler_removeIdleStores rsh = do {
     (rsh, u) \<leftarrow> rsh_checkOutUpdate rsh;
     let st = rsh_requesterState rsh;
     let st = st\<lparr>rqs_supportFrom := fmmap (\<lambda>rs. rs\<lparr>rq_recentlyQueried := False\<rparr>)
       (fmfilter (\<lambda>i. case fmlookup (rqs_supportFrom st) i of Some rs \<Rightarrow> rq_recentlyQueried rs | None \<Rightarrow> False)
         (rqs_supportFrom st))\<rparr>;
     rsh_checkInUpdate (u\<lparr>ru_checkedIn := st\<rparr>) (rsh\<lparr>rsh_requesterState := st\<rparr>)
   }"

subsection \<open>Heartbeats\<close>

definition rsfu_updateMaxRequested :: "Timestamp \<Rightarrow> int \<Rightarrow> requesterStateForUpdate \<Rightarrow> requesterStateForUpdate go" where
  "rsfu_updateMaxRequested now interval u = do {
     let newMaxRequested = Timestamp_Add now interval 0;
     meta \<leftarrow> rsfu_getMeta u;
     let (r, changed) = Timestamp_Forward (rm_MaxRequested meta) newMaxRequested;
     Some (if changed then u\<lparr>ru_inProgress := (ru_inProgress u)\<lparr>rqs_meta := meta\<lparr>rm_MaxRequested := r\<rparr>\<rparr>\<rparr> else u)
   }"

definition rsfu_generateHeartbeats :: "StoreIdent \<Rightarrow> requesterStateForUpdate \<Rightarrow> SlMessage list go" where
  "rsfu_generateHeartbeats from u = do {
     meta \<leftarrow> rsfu_getMeta u;
     assertTrue (rqs_supportFrom (ru_inProgress u) = fmempty);
     Some (map (\<lambda>(i, rs). \<lparr>slm_Type = SlMsgHeartbeat, slm_From = from, slm_To = ss_Target (rq_state rs),
         slm_Epoch = ss_Epoch (rq_state rs), slm_Expiration = rm_MaxRequested meta\<rparr>)
       (entries_of (rqs_supportFrom (ru_checkedIn u))))
   }"

definition rsfu_getHeartbeatsToSend ::
    "StoreIdent \<Rightarrow> Timestamp \<Rightarrow> int \<Rightarrow> requesterStateForUpdate \<Rightarrow> (requesterStateForUpdate \<times> SlMessage list) go" where
  "rsfu_getHeartbeatsToSend from now interval u = do {
     u \<leftarrow> rsfu_updateMaxRequested now interval u;
     hbs \<leftarrow> rsfu_generateHeartbeats from u;
     Some (u, hbs)
   }"

subsection \<open>Responses\<close>

definition handleHeartbeatResponse ::
    "SlMessage \<Rightarrow> RequesterMeta \<Rightarrow> SupportState \<Rightarrow> (RequesterMeta \<times> SupportState) go" where
  "handleHeartbeatResponse msg rm ss = do {
     let rm = (if rm_MaxEpoch rm < slm_Epoch msg then rm\<lparr>rm_MaxEpoch := slm_Epoch msg\<rparr> else rm);
     if ss_Epoch ss = slm_Epoch msg
     then Some (rm, ss\<lparr>ss_Expiration := fst (Timestamp_Forward (ss_Expiration ss) (slm_Expiration msg))\<rparr>)
     else if ss_Epoch ss < slm_Epoch msg then do {
       assertTrue (ss_Epoch ss = wrap_int64 (slm_Epoch msg - 1));
       assertTrue (slm_Expiration msg = Timestamp 0 0);
       Some (rm, ss\<lparr>ss_Epoch := slm_Epoch msg, ss_Expiration := slm_Expiration msg\<rparr>)
     } else Some (rm, ss)
   }"

definition rsfu_handleHeartbeatResponse :: "SlMessage \<Rightarrow> requesterStateForUpdate \<Rightarrow> requesterStateForUpdate go" where
  "rsfu_handleHeartbeatResponse msg u = do {
     let from = slm_From msg;
     meta \<leftarrow> rsfu_getMeta u;
     let ss = (case rsfu_getSupportFrom from u of
                 Some ss \<Rightarrow> ss | None \<Rightarrow> SupportState_zero\<lparr>ss_Target := from\<rparr>);
     (metaNew, ssNew) \<leftarrow> handleHeartbeatResponse msg meta ss;
     let u = (if meta \<noteq> metaNew then u\<lparr>ru_inProgress := (ru_inProgress u)\<lparr>rqs_meta := metaNew\<rparr>\<rparr> else u);
     Some (if ss \<noteq> ssNew
           then u\<lparr>ru_inProgress := (ru_inProgress u)\<lparr>rqs_supportFrom :=
                  fmupd from \<lparr>rq_state = ssNew, rq_recentlyQueried = False\<rparr> (rqs_supportFrom (ru_inProgress u))\<rparr>\<rparr>
           else u)
   }"

definition rsfu_incrementMaxEpoch :: "requesterStateForUpdate \<Rightarrow> requesterStateForUpdate go" where
  "rsfu_incrementMaxEpoch u = do {
     meta \<leftarrow> rsfu_getMeta u;
     Some (u\<lparr>ru_inProgress := (ru_inProgress u)
       \<lparr>rqs_meta := meta\<lparr>rm_MaxEpoch := wrap_int64 (rm_MaxEpoch meta + 1)\<rparr>\<rparr>\<rparr>)
   }"

section \<open>Keys\<close>

text \<open>The stores whose key is scanned: their ids are not negative, and not both the largest.\<close>

definition store_ok :: "StoreIdent \<Rightarrow> bool" where
  "store_ok i \<longleftrightarrow> 0 \<le> si_NodeID i \<and> si_NodeID i \<le> MaxInt32 \<and> 0 \<le> si_StoreID i \<and> si_StoreID i \<le> MaxInt32
     \<and> i \<noteq> StoreIdent MaxInt32 MaxInt32"

definition store_key :: "StoreIdent \<Rightarrow> 64 word" where
  "store_key i = StoreLivenessSupportForKey (si_NodeID i) (si_StoreID i)"

lemma int_or_disjoint:
  fixes n s :: int
  assumes "0 \<le> s" and "s < 2 ^ k"
  shows "push_bit k n OR s = n * 2 ^ k + s"
proof -
  have s: "take_bit k s = s"
    using assms by (simp add: take_bit_int_eq_self)
  have "push_bit k n + s = push_bit k n OR s"
  proof (rule disjunctive_add)
    fix i
    show "\<not> bit (push_bit k n) i \<or> \<not> bit s i"
      by (subst s [symmetric]) (auto simp: bit_push_bit_iff bit_take_bit_iff)
  qed
  then show ?thesis
    by (simp add: push_bit_eq_mult)
qed

lemma uint_StoreLivenessSupportForKey:
  assumes "0 \<le> n" "n \<le> MaxInt32" "0 \<le> s" "s \<le> MaxInt32"
  shows "uint (StoreLivenessSupportForKey n s) = n * 2 ^ 32 + s"
proof -
  have "uint (word_of_int n :: 64 word) = n" and "uint (word_of_int s :: 64 word) = s"
    using assms by (simp_all add: uint_word_of_int)
  then have "uint (StoreLivenessSupportForKey n s) = take_bit 64 (push_bit 32 n) OR s"
    by (simp only: StoreLivenessSupportForKey_def unsigned_or_eq unsigned_push_bit_eq) simp
  also have "take_bit 64 (push_bit 32 n) = push_bit 32 n"
    using assms by (intro take_bit_int_eq_self) (simp_all add: push_bit_eq_mult)
  also have "push_bit 32 n OR s = n * 2 ^ 32 + s"
    using assms by (intro int_or_disjoint) simp_all
  finally show ?thesis .
qed

lemma uint_and_low: "uint (w AND 0xFFFFFFFF :: 64 word) = uint w mod 2 ^ 32"
proof -
  have "(0xFFFFFFFF :: 64 word) = mask 32"
    by (simp add: mask_eq_exp_minus_1)
  then have "w AND 0xFFFFFFFF = take_bit 32 w"
    by (simp add: take_bit_eq_mask)
  then show ?thesis
    by (simp add: take_bit_eq_mod uint_mod)
qed

lemma uint_drop_low: "uint (drop_bit 32 w :: 64 word) = uint w div 2 ^ 32"
  by (simp add: drop_bit_eq_div uint_div)

lemma decode_store_key [simp]: "store_ok i \<Longrightarrow> DecodeStoreLivenessSupportForKey (store_key i) = i"
  by (cases i) (simp add: store_ok_def store_key_def DecodeStoreLivenessSupportForKey_def
    uint_and_low uint_drop_low uint_StoreLivenessSupportForKey)

lemma store_key_inject: "store_ok i \<Longrightarrow> store_ok j \<Longrightarrow> store_key i = store_key j \<longleftrightarrow> i = j"
  by (metis decode_store_key)

lemma store_key_scanned:
  assumes "store_ok i"
  shows "StoreLivenessSupportForKey 0 0 \<le> store_key i"
    and "store_key i < StoreLivenessSupportForKey MaxInt32 MaxInt32"
  using assms
  by (cases i; auto simp: store_ok_def store_key_def word_le_def word_less_def uint_StoreLivenessSupportForKey)+

section \<open>Updates as overlays\<close>

lemma set_entries_of [simp]: "(i, x) \<in> set (entries_of m) \<longleftrightarrow> fmlookup m i = Some x"
  by (auto simp: entries_of_def List.map_filter_def fmdomI intro!: rev_image_eqI [of i])

lemma distinct_entries_of: "distinct (map fst (entries_of m))"
proof -
  have "map fst (List.map_filter (\<lambda>i. map_option (Pair i) (fmlookup m i)) xs)
      = filter (\<lambda>i. fmlookup m i \<noteq> None) xs" for xs
    by (induction xs) (auto simp: List.map_filter_simps split: option.splits)
  then show ?thesis
    by (simp add: entries_of_def)
qed

text \<open>The state an update will be checked in as.\<close>

definition eff_sup :: "supporterStateForUpdate \<Rightarrow> supporterState" where
  "eff_sup u = \<lparr>sps_meta = (if sps_meta (su_inProgress u) \<noteq> SupporterMeta_zero
       then sps_meta (su_inProgress u) else sps_meta (su_checkedIn u)),
     sps_supportFor = sps_supportFor (su_checkedIn u) ++\<^sub>f sps_supportFor (su_inProgress u)\<rparr>"

definition eff_req :: "requesterStateForUpdate \<Rightarrow> requesterState" where
  "eff_req u = \<lparr>rqs_meta = (if rqs_meta (ru_inProgress u) \<noteq> RequesterMeta_zero
       then rqs_meta (ru_inProgress u) else rqs_meta (ru_checkedIn u)),
     rqs_supportFrom = rqs_supportFrom (ru_checkedIn u) ++\<^sub>f rqs_supportFrom (ru_inProgress u)\<rparr>"

lemma ssh_checkInUpdate_eff:
  assumes "ssh_checkInUpdate u ssh = Some ssh'"
  shows "ssh' = \<lparr>ssh_supporterState = eff_sup u, ssh_update = Some supporterState_zero\<rparr>"
  using assms
  by (cases "su_checkedIn u")
    (auto simp: ssh_checkInUpdate_def eff_sup_def Let_def go_cases split: if_splits)

lemma ssfu_getSupportFor_eff: "ssfu_getSupportFor i u = fmlookup (sps_supportFor (eff_sup u)) i"
  by (auto simp: ssfu_getSupportFor_def eff_sup_def fmlookup_add fmdom_notD fmdomI split: option.splits)

lemma rsfu_getSupportFrom_eff: "rsfu_getSupportFrom i u = map_option rq_state (fmlookup (rqs_supportFrom (eff_req u)) i)"
  by (auto simp: rsfu_getSupportFrom_def eff_req_def fmlookup_add fmdom_notD fmdomI split: option.splits)

lemma getMeta_eff:
  "ssfu_getMeta u = Some sm \<Longrightarrow> sm = sps_meta (eff_sup u)"
  "rsfu_getMeta w = Some rm \<Longrightarrow> rm = rqs_meta (eff_req w)"
  by (auto simp: ssfu_getMeta_def rsfu_getMeta_def eff_sup_def eff_req_def go_cases split: if_splits)

section \<open>The disk mirrors the memory\<close>

definition sup_wf :: "supporterState \<Rightarrow> bool" where
  "sup_wf st \<longleftrightarrow> (\<forall>i ss. fmlookup (sps_supportFor st) i = Some ss \<longrightarrow> ss_Target ss = i \<and> store_ok i)"

definition on_disk :: "SupportState \<Rightarrow> SupportState" where
  "on_disk ss = ss\<lparr>ss_Target := StoreIdent 0 0\<rparr>"

definition sup_disk :: "SlDisk \<Rightarrow> supporterState \<Rightarrow> bool" where
  "sup_disk d st \<longleftrightarrow> dk_SupporterMeta d = sps_meta st
     \<and> (\<forall>i. store_ok i \<longrightarrow> fmlookup (dk_SupportFor d) (store_key i) = map_option on_disk (fmlookup (sps_supportFor st) i))
     \<and> (\<forall>k ss. fmlookup (dk_SupportFor d) k = Some ss \<longrightarrow> (\<exists>i. store_ok i \<and> k = store_key i))"

definition put_all :: "('a \<Rightarrow> 'k) \<Rightarrow> ('a \<Rightarrow> 'v) \<Rightarrow> 'a list \<Rightarrow> ('k, 'v) fmap \<Rightarrow> ('k, 'v) fmap" where
  "put_all k v xs m = foldl (\<lambda>m x. fmupd (k x) (v x) m) m xs"

lemma put_all_other: "i \<notin> k ` set xs \<Longrightarrow> fmlookup (put_all k v xs m) i = fmlookup m i"
  unfolding put_all_def by (induction xs arbitrary: m) auto

lemma put_all_same:
  assumes "distinct (map k xs)" and "x \<in> set xs"
  shows "fmlookup (put_all k v xs m) (k x) = Some (v x)"
  using assms
proof (induction xs arbitrary: m)
  case (Cons y ys)
  show ?case
  proof (cases "x = y")
    case True
    with Cons.prems put_all_other [of "k y" k ys v "fmupd (k y) (v y) m"] show ?thesis
      by (simp add: put_all_def)
  next
    case False
    with Cons.prems Cons.IH [of "fmupd (k y) (v y) m"] show ?thesis
      by (simp add: put_all_def)
  qed
qed simp

lemma write_states_reliable:
  "write_states reliable_engine sss d =
     (d\<lparr>dk_SupportFor := put_all (store_key \<circ> ss_Target) on_disk sss (dk_SupportFor d)\<rparr>, False)"
proof (induction sss arbitrary: d)
  case (Cons ss sss)
  have "write_states reliable_engine (ss # sss) d
      = write_states reliable_engine sss (d\<lparr>dk_SupportFor := fmupd (store_key (ss_Target ss)) (on_disk ss) (dk_SupportFor d)\<rparr>)"
    unfolding write_states.simps writeSupportForState_def put_def Let_def store_key_def [symmetric]
      on_disk_def [symmetric] by simp
  then show ?case
    by (simp add: Cons.IH put_all_def)
qed (simp add: put_all_def)

lemma changed_targets:
  assumes "sup_wf (eff_sup u)"
  defines "changed \<equiv> map snd (entries_of (sps_supportFor (su_inProgress u)))"
  shows "map ss_Target changed = map fst (entries_of (sps_supportFor (su_inProgress u)))"
    and "distinct (map (store_key \<circ> ss_Target) changed)" and "\<And>ss. ss \<in> set changed \<Longrightarrow> store_ok (ss_Target ss)"
proof -
  have wf: "ss_Target ss = i \<and> store_ok i" if "(i, ss) \<in> set (entries_of (sps_supportFor (su_inProgress u)))" for i ss
    using assms(1) that by (auto simp: sup_wf_def eff_sup_def fmlookup_add fmdomI)
  then show targets: "map ss_Target changed = map fst (entries_of (sps_supportFor (su_inProgress u)))"
    unfolding changed_def by auto
  show ok: "store_ok (ss_Target ss)" if "ss \<in> set changed" for ss
    using that wf unfolding changed_def by auto
  have "inj_on store_key (set (map ss_Target changed))"
    using ok by (auto intro!: inj_onI simp: store_key_inject)
  then show "distinct (map (store_key \<circ> ss_Target) changed)"
    using distinct_entries_of targets by (metis distinct_map map_map)
qed

lemma ssfu_write_reliable:
  assumes "ssfu_write reliable_engine u d = Some (d', err)"
    and "sup_wf (eff_sup u)" and "sup_disk d (su_checkedIn u)"
  shows "\<not> err" and "sup_disk d' (eff_sup u)" and "dk_RequesterMeta d' = dk_RequesterMeta d"
proof -
  let ?changed = "map snd (entries_of (sps_supportFor (su_inProgress u)))"
  let ?all = "put_all (store_key \<circ> ss_Target) on_disk ?changed (dk_SupportFor d)"
  have empty: "?all = dk_SupportFor d" if "sps_supportFor (su_inProgress u) = fmempty"
    using that by (simp add: entries_of_def List.map_filter_def put_all_def)
  have d': "\<not> err \<and> d' = d\<lparr>dk_SupporterMeta := sps_meta (eff_sup u), dk_SupportFor := ?all\<rparr>"
    using assms(1,3) empty
    by (auto simp: ssfu_write_def Let_def go_cases writeSupporterMeta_def put_def write_states_reliable
      eff_sup_def sup_disk_def split: if_splits)
  note changed = changed_targets [OF assms(2)]
  have looked_up: "fmlookup ?all (store_key i) = map_option on_disk (fmlookup (sps_supportFor (eff_sup u)) i)"
    if "store_ok i" for i
  proof (cases "fmlookup (sps_supportFor (su_inProgress u)) i")
    case None
    have "store_key i \<notin> (store_key \<circ> ss_Target) ` set ?changed"
    proof
      assume "store_key i \<in> (store_key \<circ> ss_Target) ` set ?changed"
      then obtain ss where "ss \<in> set ?changed" and "store_key i = store_key (ss_Target ss)" by auto
      then have "i \<in> set (map ss_Target ?changed)"
        using changed(3) that store_key_inject by auto
      with None show False unfolding changed(1) by auto
    qed
    then show ?thesis
      using that None assms(3) by (simp add: put_all_other sup_disk_def eff_sup_def fmlookup_add fmdom_notI)
  next
    case (Some ss)
    then have "ss_Target ss = i"
      using assms(2) by (simp add: sup_wf_def eff_sup_def fmlookup_add fmdomI)
    moreover have "ss \<in> set ?changed"
      using Some by (metis image_eqI list.set_map set_entries_of snd_conv)
    ultimately show ?thesis
      using put_all_same [OF changed(2), of ss on_disk "dk_SupportFor d"] Some
      by (simp add: eff_sup_def fmlookup_add fmdomI)
  qed
  have keys: "\<exists>i. store_ok i \<and> k = store_key i" if "fmlookup ?all k = Some ss" for k ss
  proof (cases "k \<in> (store_key \<circ> ss_Target) ` set ?changed")
    case True
    then show ?thesis using changed(3) by auto
  next
    case False
    then show ?thesis using that assms(3) by (auto simp: put_all_other sup_disk_def)
  qed
  show "\<not> err" and "dk_RequesterMeta d' = dk_RequesterMeta d" using d' by simp_all
  show "sup_disk d' (eff_sup u)"
    using d' looked_up keys by (auto simp: sup_disk_def)
qed

text \<open>What a store reads at a restart.\<close>

definition decode_entry :: "64 word \<times> SupportState \<Rightarrow> SupportState" where
  "decode_entry e = (snd e)\<lparr>ss_Target := DecodeStoreLivenessSupportForKey (fst e)\<rparr>"

lemma disk_entry:
  assumes "sup_wf st" and "sup_disk d st" and "e \<in> set (entries_of (dk_SupportFor d))"
  obtains i where "store_ok i" and "fst e = store_key i"
    and "fmlookup (sps_supportFor st) i = Some (decode_entry e)" and "ss_Target (decode_entry e) = i"
proof -
  obtain k x where e: "e = (k, x)" by (cases e)
  then have x: "fmlookup (dk_SupportFor d) k = Some x"
    using assms(3) by simp
  then obtain i where i: "store_ok i" "k = store_key i"
    using assms(2) unfolding sup_disk_def by blast
  then have "map_option on_disk (fmlookup (sps_supportFor st) i) = Some x"
    using x assms(2) unfolding sup_disk_def by metis
  then obtain ss where ss: "fmlookup (sps_supportFor st) i = Some ss" "x = on_disk ss"
    by blast
  then have "ss_Target ss = i"
    using assms(1) unfolding sup_wf_def by blast
  with ss i e have "decode_entry e = ss"
    by (simp add: decode_entry_def on_disk_def)
  with that [of i] ss i e \<open>ss_Target ss = i\<close> show thesis by simp
qed

lemma readSupportForState_disk:
  assumes "readSupportForState rd d = Inr sss" and "sup_wf st" and "sup_disk d st"
  shows "sss = map decode_entry (entries_of (dk_SupportFor d))"
proof -
  have "case e of (k, _) \<Rightarrow> StoreLivenessSupportForKey 0 0 \<le> k \<and> k < StoreLivenessSupportForKey MaxInt32 MaxInt32"
    if "e \<in> set (entries_of (dk_SupportFor d))" for e
    by (rule disk_entry [OF assms(2,3) that]) (simp only: case_prod_beta store_key_scanned simp_thms)
  then have "filter (\<lambda>(k, _). StoreLivenessSupportForKey 0 0 \<le> k \<and> k < StoreLivenessSupportForKey MaxInt32 MaxInt32)
      (entries_of (dk_SupportFor d)) = entries_of (dk_SupportFor d)"
    by (rule filter_True [OF ballI])
  with assms(1) show ?thesis
    by (auto simp: readSupportForState_def Let_def decode_entry_def split: if_splits)
qed

lemma decoded_targets_distinct:
  assumes "sup_wf st" and "sup_disk d st"
  shows "distinct (map (ss_Target \<circ> decode_entry) (entries_of (dk_SupportFor d)))"
proof -
  have "inj_on (ss_Target \<circ> decode_entry) (set (entries_of (dk_SupportFor d)))"
  proof (rule inj_onI)
    fix e f
    assume e: "e \<in> set (entries_of (dk_SupportFor d))" and f: "f \<in> set (entries_of (dk_SupportFor d))"
      and eq: "(ss_Target \<circ> decode_entry) e = (ss_Target \<circ> decode_entry) f"
    have "fst e = fst f"
    proof (rule disk_entry [OF assms e], rule disk_entry [OF assms f])
    qed (use eq in simp)
    with e f show "e = f"
      using distinct_entries_of by (metis distinct_map inj_onD)
  qed
  then show ?thesis
    using distinct_entries_of distinct_map by metis
qed

lemma supporterStateHandler_read_disk:
  assumes "supporterStateHandler_read rd d ssh = Inr ssh'" and "sup_wf st" and "sup_disk d st"
  shows "ssh' = ssh\<lparr>ssh_supporterState := st\<rparr>"
proof -
  let ?es = "entries_of (dk_SupportFor d)"
  let ?read = "put_all (ss_Target \<circ> decode_entry) decode_entry ?es fmempty"
  have "?read = sps_supportFor st"
  proof (rule fmap_ext)
    fix i
    show "fmlookup ?read i = fmlookup (sps_supportFor st) i"
    proof (cases "i \<in> (ss_Target \<circ> decode_entry) ` set ?es")
      case True
      then obtain e where e: "e \<in> set ?es" and i: "i = (ss_Target \<circ> decode_entry) e" by blast
      have "fmlookup ?read i = Some (decode_entry e)"
        unfolding i by (rule put_all_same [OF decoded_targets_distinct [OF assms(2,3)] e])
      moreover have "fmlookup (sps_supportFor st) i = Some (decode_entry e)"
        by (rule disk_entry [OF assms(2,3) e]) (simp add: i)
      ultimately show ?thesis by simp
    next
      case False
      have "fmlookup (sps_supportFor st) i = None"
      proof (rule ccontr)
        assume "fmlookup (sps_supportFor st) i \<noteq> None"
        then obtain ss where ss: "fmlookup (sps_supportFor st) i = Some ss" by blast
        then have i: "store_ok i" "ss_Target ss = i" using assms(2) unfolding sup_wf_def by blast+
        then have "(store_key i, on_disk ss) \<in> set ?es"
          using ss assms(3) unfolding sup_disk_def by simp
        moreover have "ss_Target (decode_entry (store_key i, on_disk ss)) = i"
          using i by (simp add: decode_entry_def)
        ultimately show False using False by (metis comp_apply image_eqI)
      qed
      with False show ?thesis by (simp add: put_all_other)
    qed
  qed
  moreover obtain sss where sss: "readSupportForState rd d = Inr sss"
    and "ssh' = ssh\<lparr>ssh_supporterState := \<lparr>sps_meta = sps_meta st,
      sps_supportFor = foldl (\<lambda>m s. fmupd (ss_Target s) s m) fmempty sss\<rparr>\<rparr>"
    using assms(1,3) by (auto simp: supporterStateHandler_read_def readSupporterMeta_def sup_disk_def
      split: if_splits sum.splits)
  ultimately show ?thesis
    unfolding readSupportForState_disk [OF sss assms(2,3)] by (simp add: put_all_def foldl_map)
qed

section \<open>Properties\<close>

text \<open>
  Property C37: the support a store provides survives a restart. When an update is written
  to disk and checked in, a new handler that reads the disk has the state of the old one,
  every support state under its target, provided the disk mirrored the state before. The
  keys of the states (\<open>StoreLivenessSupportForKey\<close>) are injective, decodable and scanned
  for every store with ids that are not negative.
\<close>

theorem supporter_state_survives_restart:
  assumes "ssfu_write reliable_engine u d = Some (d', err)" and "ssh_checkInUpdate u ssh = Some ssh'"
    and "sup_wf (eff_sup u)" and "sup_disk d (su_checkedIn u)"
  shows "\<not> err \<and> supporterStateHandler_read (\<lambda>_. False) d' newSupporterStateHandler = Inr ssh'"
proof -
  note written = ssfu_write_reliable [OF assms(1,3,4)]
  obtain ssh'' where read: "supporterStateHandler_read (\<lambda>_. False) d' newSupporterStateHandler = Inr ssh''"
    by (simp add: supporterStateHandler_read_def readSupporterMeta_def readSupportForState_def Let_def)
  have "ssh'' = ssh'"
    using supporterStateHandler_read_disk [OF read assms(3) written(2)] ssh_checkInUpdate_eff [OF assms(2)]
    by (simp add: newSupporterStateHandler_def)
  with read written(1) show ?thesis by simp
qed

definition ex_support :: SupportState where
  "ex_support = \<lparr>ss_Target = StoreIdent 2 7, ss_Epoch = 3, ss_Expiration = Timestamp 50 1\<rparr>"

definition ex_update :: supporterStateForUpdate where
  "ex_update = \<lparr>su_checkedIn = supporterState_zero,
     su_inProgress = supporterState_zero\<lparr>sps_supportFor := fmupd (StoreIdent 2 7) ex_support fmempty\<rparr>\<rparr>"

theorem supporter_state_survives_restart_witness:
  "supporterStateHandler_read (\<lambda>_. False) (fst (the (ssfu_write reliable_engine ex_update SlDisk_empty)))
     newSupporterStateHandler
   = Inr \<lparr>ssh_supporterState = eff_sup ex_update, ssh_update = Some supporterState_zero\<rparr>"
proof -
  have "ssfu_write reliable_engine ex_update SlDisk_empty
      = Some (fst (the (ssfu_write reliable_engine ex_update SlDisk_empty)),
          snd (the (ssfu_write reliable_engine ex_update SlDisk_empty)))"
    by (simp add: ssfu_write_def ex_update_def supporterState_zero_def Let_def)
  moreover have "ssh_checkInUpdate ex_update newSupporterStateHandler
      = Some \<lparr>ssh_supporterState = eff_sup ex_update, ssh_update = Some supporterState_zero\<rparr>"
    by (simp add: ssh_checkInUpdate_def ex_update_def supporterState_zero_def eff_sup_def Let_def
      newSupporterStateHandler_def SupporterMeta_zero_def)
  moreover have "sup_wf (eff_sup ex_update)"
    by (simp add: sup_wf_def eff_sup_def ex_update_def supporterState_zero_def ex_support_def store_ok_def)
  moreover have "sup_disk SlDisk_empty (su_checkedIn ex_update)"
    by (simp add: sup_disk_def SlDisk_empty_def ex_update_def supporterState_zero_def)
  ultimately show ?thesis
    using supporter_state_survives_restart by blast
qed

end
