(* ===== verification/Hlc_Clock.thy ===== *)
theory Hlc_Clock
  imports Hlc_Timestamp
begin

text \<open>
  The hybrid logical clock, \<open>src/pkg/util/hlc/hlc.go\<close>. The wall clock is an interface of
  the source: each reading of it is an argument, in nanoseconds. A \<open>log.Fatalf\<close> ends the
  process, as a panic does. Locks and atomics are not modelled; every operation is one
  step. The monitoring goroutine enters through the operations it calls.
\<close>

section \<open>Data\<close>

record Clock =
  ck_maxOffset :: int
  ck_toleratedOffset :: int
  ck_lastPhysicalTime :: int
  ck_monotonicityErrorsCount :: int
  ck_forwardClockJumpCheckEnabled :: bool
  ck_timestamp :: Timestamp
  ck_isMonitoringForwardClockJumps :: bool
  ck_wallTimeUpperBound :: int

definition NewClock :: "int \<Rightarrow> int \<Rightarrow> Clock" where
  "NewClock maxOffset toleratedOffset =
     \<lparr>ck_maxOffset = maxOffset, ck_toleratedOffset = toleratedOffset, ck_lastPhysicalTime = 0,
      ck_monotonicityErrorsCount = 0, ck_forwardClockJumpCheckEnabled = False,
      ck_timestamp = Timestamp 0 0, ck_isMonitoringForwardClockJumps = False,
      ck_wallTimeUpperBound = 0\<rparr>"

text \<open>Division of Go rounds towards zero.\<close>

definition go_div :: "int \<Rightarrow> int \<Rightarrow> int" where
  "go_div a b = sgn a * sgn b * (\<bar>a\<bar> div \<bar>b\<bar>)"

section \<open>Physical time\<close>

definition Clock_toleratedForwardClockJump :: "Clock \<Rightarrow> int" where
  "Clock_toleratedForwardClockJump c = go_div (ck_maxOffset c) 2"

definition Clock_checkPhysicalClock :: "int \<Rightarrow> int \<Rightarrow> Clock \<Rightarrow> Clock go" where
  "Clock_checkPhysicalClock oldTime newTime c =
     (if oldTime = 0 then Some c
      else do {
        let interval = wrap_int64 (oldTime - newTime);
        let c = (if interval > go_div (ck_maxOffset c) 10
                 then c\<lparr>ck_monotonicityErrorsCount := wrap_int32 (ck_monotonicityErrorsCount c + 1)\<rparr> else c);
        assertTrue (\<not> (ck_forwardClockJumpCheckEnabled c \<and>
          Clock_toleratedForwardClockJump c \<le> wrap_int64 (- interval)));
        Some c
      })"

definition Clock_getPhysicalClockAndCheck :: "int \<Rightarrow> Clock \<Rightarrow> Clock go" where
  "Clock_getPhysicalClockAndCheck newTime c =
     Clock_checkPhysicalClock (ck_lastPhysicalTime c) newTime (c\<lparr>ck_lastPhysicalTime := newTime\<rparr>)"

definition Clock_setForwardJumpCheckEnabled :: "bool \<Rightarrow> Clock \<Rightarrow> Clock" where
  "Clock_setForwardJumpCheckEnabled b c = c\<lparr>ck_forwardClockJumpCheckEnabled := b\<rparr>"

definition Clock_setMonitoringClockJump :: "Clock \<Rightarrow> Clock \<times> bool" where
  "Clock_setMonitoringClockJump c =
     (c\<lparr>ck_isMonitoringForwardClockJumps := True\<rparr>, ck_isMonitoringForwardClockJumps c)"

section \<open>Reading\<close>

definition Clock_enforceWallTimeWithinBoundLocked :: "Clock \<Rightarrow> unit go" where
  "Clock_enforceWallTimeWithinBoundLocked c =
     assertTrue (\<not> (ck_wallTimeUpperBound c \<noteq> 0 \<and> WallTime (ck_timestamp c) > ck_wallTimeUpperBound c))"

definition Clock_NowAsClockTimestamp :: "int \<Rightarrow> Clock \<Rightarrow> (Clock \<times> Timestamp) go" where
  "Clock_NowAsClockTimestamp physicalClock c = do {
     c \<leftarrow> Clock_getPhysicalClockAndCheck physicalClock c;
     let t = ck_timestamp c;
     let c = (if WallTime t \<ge> physicalClock
              then c\<lparr>ck_timestamp := Timestamp (WallTime t) (wrap_int32 (Logical t + 1))\<rparr>
              else c\<lparr>ck_timestamp := Timestamp physicalClock 0\<rparr>);
     Clock_enforceWallTimeWithinBoundLocked c;
     Some (c, ck_timestamp c)
   }"

definition Clock_Now :: "int \<Rightarrow> Clock \<Rightarrow> (Clock \<times> Timestamp) go" where
  "Clock_Now = Clock_NowAsClockTimestamp"

section \<open>Updating\<close>

definition Clock_Update :: "Timestamp \<Rightarrow> Clock \<Rightarrow> Clock go" where
  "Clock_Update rt c =
     (let t = ck_timestamp c in
      if WallTime rt < WallTime t then Some c
      else do {
        let c = (if WallTime rt > WallTime t
                 then c\<lparr>ck_timestamp := Timestamp (WallTime rt) (Logical rt)\<rparr>
                 else if WallTime rt = WallTime t \<and> Logical rt > Logical t
                 then c\<lparr>ck_timestamp := Timestamp (WallTime t) (Logical rt)\<rparr>
                 else c);
        Clock_enforceWallTimeWithinBoundLocked c;
        Some c
      })"

text \<open>The boolean tells whether the remote time was refused.\<close>

definition Clock_UpdateAndCheckMaxOffset :: "int \<Rightarrow> Timestamp \<Rightarrow> Clock \<Rightarrow> (Clock \<times> bool) go" where
  "Clock_UpdateAndCheckMaxOffset physicalClock rt c = do {
     c \<leftarrow> Clock_getPhysicalClockAndCheck physicalClock c;
     let offset = wrap_int64 (WallTime rt - physicalClock);
     if ck_maxOffset c > 0 \<and> offset > ck_maxOffset c then Some (c, True)
     else do {
       c \<leftarrow> (if physicalClock > WallTime rt then Clock_Update (Timestamp physicalClock 0) c
             else Clock_Update rt c);
       Some (c, False)
     }
   }"

section \<open>The upper bound\<close>

text \<open>\<open>persistFn\<close> tells whether the bound could not be persisted.\<close>

definition Clock_persistHLCUpperBound :: "(int \<Rightarrow> bool) \<Rightarrow> int \<Rightarrow> Clock \<Rightarrow> Clock \<times> bool" where
  "Clock_persistHLCUpperBound persistFn hlcUpperBound c =
     (if persistFn hlcUpperBound then (c, True)
      else (c\<lparr>ck_wallTimeUpperBound := hlcUpperBound\<rparr>, False))"

definition Clock_RefreshHLCUpperBound :: "int \<Rightarrow> (int \<Rightarrow> bool) \<Rightarrow> int \<Rightarrow> Clock \<Rightarrow> (Clock \<times> bool) go" where
  "Clock_RefreshHLCUpperBound physicalClock persistFn delta c =
     (if delta < 0 then Some (c, True)
      else do {
        (c, now) \<leftarrow> Clock_Now physicalClock c;
        Some (Clock_persistHLCUpperBound persistFn (wrap_int64 (WallTime now + delta)) c)
      })"

definition Clock_ResetHLCUpperBound :: "(int \<Rightarrow> bool) \<Rightarrow> Clock \<Rightarrow> Clock \<times> bool" where
  "Clock_ResetHLCUpperBound persistFn = Clock_persistHLCUpperBound persistFn 0"

section \<open>Sleeping\<close>

text \<open>
  Subtracting times of Go saturates. The rounds of the loop are a list: whether the context
  is done, the reading of the wall clock, and whether the context is done while it sleeps.
  The result has the durations slept; a loop that is not over when the rounds end is still
  sleeping.
\<close>

definition Time_Sub :: "int \<Rightarrow> int \<Rightarrow> int" where
  "Time_Sub t u = max (- (2 ^ 63)) (min MaxInt64 (t - u))"

datatype sleep_outcome = SleptUntil | SleepCancelled | StillSleeping

definition sleep_duration :: "Timestamp \<Rightarrow> Timestamp \<Rightarrow> int" where
  "sleep_duration now t =
     (let minSleep = 25000; maxSleep = 1000000000; d = Time_Sub (WallTime now) (WallTime t) in
      if d < minSleep then minSleep else if d > maxSleep then maxSleep else d)"

fun Clock_SleepUntil :: "(bool \<times> int \<times> bool) list \<Rightarrow> Timestamp \<Rightarrow> Clock \<Rightarrow> (Clock \<times> int list \<times> sleep_outcome) go" where
  "Clock_SleepUntil [] t c = Some (c, [], StillSleeping)"
| "Clock_SleepUntil ((ctxErr, physicalClock, cancelled) # rounds) t c =
     (if ctxErr then Some (c, [], SleepCancelled)
      else do {
        (c, now) \<leftarrow> Clock_Now physicalClock c;
        if Timestamp_LessEq t now then Some (c, [], SleptUntil)
        else do {
          let d = sleep_duration now t;
          if \<not> d < 1000000 \<and> cancelled then Some (c, [d], SleepCancelled)
          else do {
            (c, ds, outcome) \<leftarrow> Clock_SleepUntil rounds t c;
            Some (c, d # ds, outcome)
          }
        }
      })"

section \<open>Events of a clock\<close>

text \<open>
  A clock in use: it is read, and it hears of timestamps. A run yields the timestamps heard
  and accepted, and those read.
\<close>

datatype clock_event = CkRead int | CkUpdate Timestamp | CkUpdateAndCheck int Timestamp

fun clock_handle :: "clock_event \<Rightarrow> Clock \<Rightarrow> (Clock \<times> Timestamp list \<times> Timestamp list) go" where
  "clock_handle (CkRead p) c = do { (c, t) \<leftarrow> Clock_Now p c; Some (c, [], [t]) }"
| "clock_handle (CkUpdate rt) c = do { c \<leftarrow> Clock_Update rt c; Some (c, [rt], []) }"
| "clock_handle (CkUpdateAndCheck p rt) c = do {
     (c, refused) \<leftarrow> Clock_UpdateAndCheckMaxOffset p rt c;
     Some (c, if refused then [] else [rt], []) }"

fun clock_run :: "clock_event list \<Rightarrow> Clock \<Rightarrow> (Clock \<times> Timestamp list \<times> Timestamp list) go" where
  "clock_run [] c = Some (c, [], [])"
| "clock_run (e # es) c = do {
     (c, heard, reads) \<leftarrow> clock_handle e c;
     (c, heard', reads') \<leftarrow> clock_run es c;
     Some (c, heard @ heard', reads @ reads')
   }"

text \<open>The logical components an event brings.\<close>

fun event_logical :: "clock_event \<Rightarrow> int" where
  "event_logical (CkRead p) = 0"
| "event_logical (CkUpdate rt) = Logical rt"
| "event_logical (CkUpdateAndCheck p rt) = Logical rt"

lemma getPhysicalClockAndCheck_timestamp:
  "Clock_getPhysicalClockAndCheck p c = Some c' \<Longrightarrow> ck_timestamp c' = ck_timestamp c"
  by (auto simp: Clock_getPhysicalClockAndCheck_def Clock_checkPhysicalClock_def Let_def go_cases
    split: if_splits)

lemma Clock_Now_increases:
  assumes "Clock_Now p c = Some (c', t)"
    and "0 \<le> Logical (ck_timestamp c)" and "Logical (ck_timestamp c) < MaxInt32"
  shows "ck_timestamp c' = t" and "ck_timestamp c < t"
    and "0 \<le> Logical t" and "Logical t \<le> Logical (ck_timestamp c) + 1"
  using assms
  by (auto simp: Clock_Now_def Clock_NowAsClockTimestamp_def Let_def go_cases Timestamp_order_defs
    dest!: getPhysicalClockAndCheck_timestamp split: if_splits)

lemma Clock_Update_max: "Clock_Update rt c = Some c' \<Longrightarrow> ck_timestamp c' = max (ck_timestamp c) rt"
  by (cases rt; cases "ck_timestamp c")
    (auto simp: Clock_Update_def Let_def go_cases max_def Timestamp_order_defs split: if_splits)

lemma Clock_UpdateAndCheckMaxOffset_later:
  assumes "Clock_UpdateAndCheckMaxOffset p rt c = Some (c', refused)"
  shows "ck_timestamp c \<le> ck_timestamp c'" and "\<not> refused \<Longrightarrow> rt \<le> ck_timestamp c'"
    and "ck_timestamp c' \<in> {ck_timestamp c, rt, Timestamp p 0}"
proof -
  have "rt \<le> Timestamp p 0" if "p > WallTime rt"
    using that by (simp add: Timestamp_order_defs)
  moreover obtain d where "ck_timestamp d = ck_timestamp c"
    and "refused \<and> c' = d \<or> \<not> refused \<and> p > WallTime rt \<and> Clock_Update (Timestamp p 0) d = Some c'
      \<or> \<not> refused \<and> Clock_Update rt d = Some c'"
    using assms getPhysicalClockAndCheck_timestamp
    unfolding Clock_UpdateAndCheckMaxOffset_def
    by (fastforce simp: Let_def go_cases split: if_splits)
  ultimately show "ck_timestamp c \<le> ck_timestamp c'" "\<not> refused \<Longrightarrow> rt \<le> ck_timestamp c'"
    "ck_timestamp c' \<in> {ck_timestamp c, rt, Timestamp p 0}"
    by (auto simp: max_def dest!: Clock_Update_max)
qed

lemma clock_handle_step:
  assumes "clock_handle e c = Some (c', heard, reads)"
    and "0 \<le> Logical (ck_timestamp c)" and "Logical (ck_timestamp c) \<le> B"
    and "0 \<le> event_logical e" and "event_logical e \<le> B" and "B < MaxInt32"
  shows "ck_timestamp c \<le> ck_timestamp c'" and "\<And>t. t \<in> set reads \<Longrightarrow> ck_timestamp c < t"
    and "\<And>t. t \<in> set heard \<union> set reads \<Longrightarrow> t \<le> ck_timestamp c'"
    and "0 \<le> Logical (ck_timestamp c')" and "Logical (ck_timestamp c') \<le> B + 1"
proof -
  have "ck_timestamp c \<le> ck_timestamp c' \<and> (\<forall>t \<in> set reads. ck_timestamp c < t)
      \<and> (\<forall>t \<in> set heard \<union> set reads. t \<le> ck_timestamp c')
      \<and> 0 \<le> Logical (ck_timestamp c') \<and> Logical (ck_timestamp c') \<le> B + 1"
  proof (cases e)
    case (CkRead p)
    with assms obtain t where "Clock_Now p c = Some (c', t)" and "heard = []" and "reads = [t]"
      by (auto simp: go_cases)
    with Clock_Now_increases [of p c c' t] assms show ?thesis by auto
  next
    case (CkUpdate rt)
    with assms show ?thesis
      by (auto simp: go_cases max_def dest!: Clock_Update_max)
  next
    case (CkUpdateAndCheck p rt)
    with assms obtain refused where "Clock_UpdateAndCheckMaxOffset p rt c = Some (c', refused)"
      and "heard = (if refused then [] else [rt])" and "reads = []"
      by (auto simp: go_cases)
    with assms CkUpdateAndCheck show ?thesis
      using Clock_UpdateAndCheckMaxOffset_later [of p rt c c' refused] by auto
  qed
  then show "ck_timestamp c \<le> ck_timestamp c'" and "\<And>t. t \<in> set reads \<Longrightarrow> ck_timestamp c < t"
    and "\<And>t. t \<in> set heard \<union> set reads \<Longrightarrow> t \<le> ck_timestamp c'"
    and "0 \<le> Logical (ck_timestamp c')" and "Logical (ck_timestamp c') \<le> B + 1"
    by auto
qed

lemma clock_run_later:
  assumes "clock_run es c = Some (c', heard, reads)"
    and "0 \<le> Logical (ck_timestamp c)" and "Logical (ck_timestamp c) \<le> B"
    and "\<And>e. e \<in> set es \<Longrightarrow> 0 \<le> event_logical e \<and> event_logical e \<le> B"
    and "B + int (length es) \<le> MaxInt32"
  shows "(\<forall>t \<in> set reads. ck_timestamp c < t) \<and> sorted_wrt (<) reads
    \<and> (\<forall>t \<in> set heard \<union> set reads. t \<le> ck_timestamp c') \<and> ck_timestamp c \<le> ck_timestamp c'
    \<and> 0 \<le> Logical (ck_timestamp c') \<and> Logical (ck_timestamp c') \<le> B + int (length es)"
  using assms
proof (induction es arbitrary: c B heard reads)
  case Nil
  then show ?case by auto
next
  case (Cons e es)
  then obtain d heard1 reads1 heard2 reads2
    where e: "clock_handle e c = Some (d, heard1, reads1)"
      and es: "clock_run es d = Some (c', heard2, reads2)"
      and split: "heard = heard1 @ heard2" "reads = reads1 @ reads2"
    by (auto simp: go_cases)
  have "B < MaxInt32" and "0 \<le> event_logical e" and "event_logical e \<le> B"
    using Cons.prems(4,5) by (auto simp del: power_numeral)
  note step = clock_handle_step [OF e Cons.prems(2,3) this(2,3,1)]
  have "length reads1 \<le> 1"
    using e by (cases e) (auto simp: go_cases)
  then have "sorted_wrt (<) reads1"
    by (cases reads1) auto
  moreover have "B + 1 + int (length es) \<le> MaxInt32"
    using Cons.prems(5) by simp
  moreover have "0 \<le> event_logical x \<and> event_logical x \<le> B + 1" if "x \<in> set es" for x
    using Cons.prems(4) [of x] that by simp
  ultimately show ?case
    using Cons.IH [OF es step(4,5)] step(1-3) unfolding split
    by (fastforce simp: sorted_wrt_append)
qed

lemma clock_run_append:
  "clock_run (es @ fs) c = do {
     (c, heard, reads) \<leftarrow> clock_run es c;
     (c, heard', reads') \<leftarrow> clock_run fs c;
     Some (c, heard @ heard', reads @ reads')
   }"
  by (induction es arbitrary: c) (auto split: bind_splits)

lemma sleep_duration_waiting: "\<not> t \<le> now \<Longrightarrow> sleep_duration now t = 25000"
  by (auto simp: sleep_duration_def Time_Sub_def Timestamp_order_defs)

section \<open>Properties\<close>

text \<open>
  Property C32: a reading of the clock is later than every timestamp that was read from it or
  that it accepted before (\<open>NowAsClockTimestamp\<close>, \<open>Update\<close>, \<open>UpdateAndCheckMaxOffset\<close>),
  whatever the wall clock does, as long as the logical component does not overflow: the
  logical components seen and the number of events are within an \<open>int32\<close>. So the clock
  models causality.
\<close>

theorem Clock_reads_after_all_seen:
  assumes "clock_run es c = Some (c', heard, reads)" and "clock_run fs c' = Some (c'', heard', reads')"
    and "0 \<le> Logical (ck_timestamp c)" and "Logical (ck_timestamp c) \<le> B"
    and "\<forall>e \<in> set (es @ fs). 0 \<le> event_logical e \<and> event_logical e \<le> B"
    and "B + int (length (es @ fs)) \<le> MaxInt32"
    and "u \<in> set heard \<union> set reads" and "t \<in> set reads'"
  shows "u < t"
proof -
  have es: "\<And>e. e \<in> set es \<Longrightarrow> 0 \<le> event_logical e \<and> event_logical e \<le> B"
    "B + int (length es) \<le> MaxInt32"
    using assms(5,6) by auto
  note first = clock_run_later [OF assms(1,3,4) es]
  have fs: "\<And>e. e \<in> set fs \<Longrightarrow> 0 \<le> event_logical e \<and> event_logical e \<le> B + int (length es)"
    "B + int (length es) + int (length fs) \<le> MaxInt32"
    using assms(5,6) by (auto intro: add_increasing2)
  have "u \<le> ck_timestamp c'"
    using first assms(7) by blast
  moreover have "ck_timestamp c' < t"
    using clock_run_later [OF assms(2) _ _ fs] first assms(8) by blast
  ultimately show ?thesis by simp
qed

definition ex_clock :: Clock where
  "ex_clock = fst (the (clock_run [CkRead 5, CkUpdate (Timestamp 7 3)] (NewClock 0 0)))"

theorem Clock_reads_after_all_seen_witness:
  "clock_run [CkRead 5, CkUpdate (Timestamp 7 3)] (NewClock 0 0)
     = Some (ex_clock, [Timestamp 7 3], [Timestamp 5 0])
   \<and> clock_run [CkRead 6] ex_clock
     = Some (fst (the (clock_run [CkRead 6] ex_clock)), [], [Timestamp 7 4])
   \<and> Timestamp 7 3 < Timestamp 7 4"
proof -
  have 1: "clock_run [CkRead 5, CkUpdate (Timestamp 7 3)] (NewClock 0 0)
      = Some (ex_clock, [Timestamp 7 3], [Timestamp 5 0])"
    by code_simp
  have 2: "clock_run [CkRead 6] ex_clock
      = Some (fst (the (clock_run [CkRead 6] ex_clock)), [], [Timestamp 7 4])"
    by code_simp
  have "Timestamp 7 3 < Timestamp 7 4"
    by (rule Clock_reads_after_all_seen [OF 1 2, where B = 3]) (simp_all add: NewClock_def)
  with 1 2 show ?thesis by blast
qed



end
