(* ===== verification/Support_Manager.thy ===== *)
theory Support_Manager
  imports Store_Support Hlc_Clock
begin

text \<open>
  The manager of a store that requests and provides support,
  \<open>kv/kvserver/storeliveness/support_manager.go\<close>. One goroutine runs all that changes its
  state: heartbeats, withdrawals, the removal of idle stores and the handling of received
  messages; each is one step here. The readings of the wall clock, whether the cluster has
  the protocol enabled, and the storage engine are arguments. A manager is kept with its
  disk, and the messages it gives to its sender are returned.
\<close>

section \<open>Data\<close>

text \<open>Durations are in nanoseconds.\<close>

record SlOptions =
  op_HeartbeatInterval :: int
  op_LivenessInterval :: int
  op_SupportExpiryInterval :: int
  op_IdleSupportFromInterval :: int
  op_SupportWithdrawalGracePeriod :: int

definition NewOptions :: "int \<Rightarrow> int \<Rightarrow> int \<Rightarrow> SlOptions" where
  "NewOptions heartbeatInterval livenessInterval supportWithdrawalGracePeriod =
     \<lparr>op_HeartbeatInterval = heartbeatInterval, op_LivenessInterval = livenessInterval,
      op_SupportExpiryInterval = 1000000000, op_IdleSupportFromInterval = 60 * 1000000000,
      op_SupportWithdrawalGracePeriod = supportWithdrawalGracePeriod\<rparr>"

record SupportManager =
  sm_storeID :: StoreIdent
  sm_options :: SlOptions
  sm_clock :: Clock
  sm_receiveQueue :: "SlMessage list"
  sm_storesToAdd :: "StoreIdent fset"
  sm_minWithdrawalTS :: Timestamp
  sm_supporter :: supporterStateHandler
  sm_requester :: requesterStateHandler
  sm_disk :: SlDisk

definition NewSupportManager :: "StoreIdent \<Rightarrow> SlDisk \<Rightarrow> SlOptions \<Rightarrow> Clock \<Rightarrow> SupportManager" where
  "NewSupportManager storeID engine options clock =
     \<lparr>sm_storeID = storeID, sm_options = options, sm_clock = clock, sm_receiveQueue = [], sm_storesToAdd = {||},
      sm_minWithdrawalTS = Timestamp 0 0, sm_supporter = newSupporterStateHandler,
      sm_requester = newRequesterStateHandler, sm_disk = engine\<rparr>"

section \<open>Queries\<close>

definition SupportManager_SupportFor :: "StoreIdent \<Rightarrow> SupportManager \<Rightarrow> int \<times> bool" where
  "SupportManager_SupportFor i sm =
     (let ss = supporterStateHandler_getSupportFor i (sm_supporter sm) in
      if Timestamp_IsEmpty (ss_Expiration ss) then (0, False) else (ss_Epoch ss, True))"

text \<open>A query of an unknown store enqueues it to be added.\<close>

definition storesToAdd_addStore :: "StoreIdent \<Rightarrow> StoreIdent fset \<Rightarrow> StoreIdent fset" where
  "storesToAdd_addStore i sta = finsert i sta"

definition SupportManager_SupportFrom ::
    "StoreIdent \<Rightarrow> SupportManager \<Rightarrow> SupportManager \<times> int \<times> Timestamp \<times> bool" where
  "SupportManager_SupportFrom i sm =
     (case requesterStateHandler_getSupportFrom i (sm_requester sm) of (rsh, res) \<Rightarrow>
        let sm = sm\<lparr>sm_requester := rsh\<rparr> in
        case res of
          None \<Rightarrow> (sm\<lparr>sm_storesToAdd := storesToAdd_addStore i (sm_storesToAdd sm)\<rparr>, 0, Timestamp 0 0, False)
        | Some ss \<Rightarrow>
            if Timestamp_IsEmpty (ss_Expiration ss) then (sm, 0, Timestamp 0 0, False)
            else (sm, ss_Epoch ss, ss_Expiration ss, True))"

definition SupportManager_SupportFromEnabled :: "bool \<Rightarrow> bool \<Rightarrow> bool" where
  "SupportManager_SupportFromEnabled clusterSetting versionGate = (clusterSetting \<and> versionGate)"

section \<open>The receive queue\<close>

definition receiveQueue_Append :: "SlMessage \<Rightarrow> SlMessage list \<Rightarrow> SlMessage list" where
  "receiveQueue_Append msg msgs = msgs @ [msg]"

definition receiveQueue_Drain :: "SlMessage list \<Rightarrow> SlMessage list \<times> SlMessage list" where
  "receiveQueue_Drain msgs = ([], msgs)"

definition SupportManager_HandleMessage :: "SlMessage \<Rightarrow> SupportManager \<Rightarrow> SupportManager" where
  "SupportManager_HandleMessage msg sm =
     sm\<lparr>sm_receiveQueue := receiveQueue_Append msg (sm_receiveQueue sm)\<rparr>"

section \<open>The actions of the loop\<close>

definition drainStoresToAdd :: "StoreIdent fset \<Rightarrow> StoreIdent fset \<times> StoreIdent list" where
  "drainStoresToAdd sta = ({||}, sorted_list_of_fset sta)"

definition SupportManager_maybeAddStores :: "SupportManager \<Rightarrow> SupportManager go" where
  "SupportManager_maybeAddStores sm = do {
     let (sta, stores) = drainStoresToAdd (sm_storesToAdd sm);
     rsh \<leftarrow> foldM requesterStateHandler_addStore stores (sm_requester sm);
     Some (sm\<lparr>sm_storesToAdd := sta, sm_requester := rsh\<rparr>)
   }"

text \<open>The messages are returned; they are sent after the state is on disk.\<close>

definition SupportManager_sendHeartbeats ::
    "sl_engine \<Rightarrow> int \<Rightarrow> SupportManager \<Rightarrow> (SupportManager \<times> SlMessage list) go" where
  "SupportManager_sendHeartbeats eng physicalClock sm = do {
     (rsh, rsfu) \<leftarrow> rsh_checkOutUpdate (sm_requester sm);
     let livenessInterval = op_LivenessInterval (sm_options sm);
     (clock, now) \<leftarrow> Clock_Now physicalClock (sm_clock sm);
     (rsfu, heartbeats) \<leftarrow> rsfu_getHeartbeatsToSend (sm_storeID sm) now livenessInterval rsfu;
     (d, err) \<leftarrow> rsfu_write eng rsfu (sm_disk sm);
     let sm = sm\<lparr>sm_clock := clock, sm_requester := rsh, sm_disk := d\<rparr>;
     if err then Some (sm, [])
     else do {
       rsh \<leftarrow> rsh_checkInUpdate rsfu (sm_requester sm);
       Some (sm\<lparr>sm_requester := rsh\<rparr>, heartbeats)
     }
   }"

definition SupportManager_withdrawSupport :: "sl_engine \<Rightarrow> int \<Rightarrow> SupportManager \<Rightarrow> SupportManager go" where
  "SupportManager_withdrawSupport eng physicalClock sm = do {
     (clock, now) \<leftarrow> Clock_NowAsClockTimestamp physicalClock (sm_clock sm);
     let sm = sm\<lparr>sm_clock := clock\<rparr>;
     if Timestamp_Less now (sm_minWithdrawalTS sm) then Some sm
     else do {
       (ssh, ssfu) \<leftarrow> ssh_checkOutUpdate (sm_supporter sm);
       ssfu \<leftarrow> ssfu_withdrawSupport now ssfu;
       (d, _) \<leftarrow> ssfu_write eng ssfu (sm_disk sm);
       ssh \<leftarrow> ssh_checkInUpdate ssfu ssh;
       Some (sm\<lparr>sm_supporter := ssh, sm_disk := d\<rparr>)
     }
   }"

definition SupportManager_removeIdleStores :: "SupportManager \<Rightarrow> SupportManager go" where
  "SupportManager_removeIdleStores sm = do {
     rsh \<leftarrow> requesterStateHandler_removeIdleStores (sm_requester sm);
     Some (sm\<lparr>sm_requester := rsh\<rparr>)
   }"

text \<open>The loop over the messages.\<close>

definition handle_one :: "SlMessage \<Rightarrow> requesterStateForUpdate \<times> supporterStateForUpdate \<times> SlMessage list \<Rightarrow>
    (requesterStateForUpdate \<times> supporterStateForUpdate \<times> SlMessage list) go" where
  "handle_one msg s =
     (case s of (rsfu, ssfu, responses) \<Rightarrow>
        (case slm_Type msg of
           SlMsgHeartbeat \<Rightarrow> do {
             (ssfu, resp) \<leftarrow> ssfu_handleHeartbeat msg ssfu;
             Some (rsfu, ssfu, responses @ [resp])
           }
         | SlMsgHeartbeatResp \<Rightarrow> do {
             rsfu \<leftarrow> rsfu_handleHeartbeatResponse msg rsfu;
             Some (rsfu, ssfu, responses)
           }
         | SlMsgUnknown _ \<Rightarrow> Some (rsfu, ssfu, responses)))"

text \<open>
  The writes go to a batch. An error of a write is only logged, and the batch is committed
  with what went into it; \<open>commit\<close> tells whether that succeeds.
\<close>

definition SupportManager_handleMessages ::
    "sl_engine \<Rightarrow> bool \<Rightarrow> SlMessage list \<Rightarrow> SupportManager \<Rightarrow> (SupportManager \<times> SlMessage list) go" where
  "SupportManager_handleMessages eng commit msgs sm = do {
     (rsh, rsfu) \<leftarrow> rsh_checkOutUpdate (sm_requester sm);
     (ssh, ssfu) \<leftarrow> ssh_checkOutUpdate (sm_supporter sm);
     (rsfu, ssfu, responses) \<leftarrow> foldM handle_one msgs (rsfu, ssfu, []);
     (batch, _) \<leftarrow> rsfu_write eng rsfu (sm_disk sm);
     (batch, _) \<leftarrow> ssfu_write eng ssfu batch;
     if \<not> commit then Some (sm\<lparr>sm_requester := rsh, sm_supporter := ssh\<rparr>, [])
     else do {
       rsh \<leftarrow> rsh_checkInUpdate rsfu rsh;
       ssh \<leftarrow> ssh_checkInUpdate ssfu ssh;
       Some (sm\<lparr>sm_requester := rsh, sm_supporter := ssh, sm_disk := batch\<rparr>, responses)
     }
   }"

section \<open>Restarts\<close>

text \<open>
  What happens around a restart: which reads of the disk fail, the readings of the wall
  clock, and the rounds of the sleep. A restart whose sleep is not over has not returned.
\<close>

record sl_restart =
  rst_readFails :: sl_read_fails
  rst_physicalUpdate :: int
  rst_rounds :: "(bool \<times> int \<times> bool) list"
  rst_physicalNow :: int

datatype restart_outcome = RestartDone | RestartError | RestartSleeping

text \<open>The last part: the grace period, and the increment of the epoch.\<close>

definition SupportManager_newEpoch ::
    "sl_engine \<Rightarrow> int \<Rightarrow> SupportManager \<Rightarrow> (SupportManager \<times> restart_outcome) go" where
  "SupportManager_newEpoch eng physicalClock sm = do {
     (clock, now) \<leftarrow> Clock_Now physicalClock (sm_clock sm);
     let sm = sm\<lparr>sm_clock := clock, sm_minWithdrawalTS :=
       Timestamp_Add now (op_SupportWithdrawalGracePeriod (sm_options sm)) 0\<rparr>;
     (rsh, rsfu) \<leftarrow> rsh_checkOutUpdate (sm_requester sm);
     rsfu \<leftarrow> rsfu_incrementMaxEpoch rsfu;
     (d, err) \<leftarrow> rsfu_write eng rsfu (sm_disk sm);
     let sm = sm\<lparr>sm_disk := d\<rparr>;
     if err then Some (sm\<lparr>sm_requester := rsh\<rparr>, RestartError)
     else do {
       rsh \<leftarrow> rsh_checkInUpdate rsfu rsh;
       Some (sm\<lparr>sm_requester := rsh\<rparr>, RestartDone)
     }
   }"

definition SupportManager_onRestart ::
    "sl_engine \<Rightarrow> sl_restart \<Rightarrow> SupportManager \<Rightarrow> (SupportManager \<times> restart_outcome) go" where
  "SupportManager_onRestart eng rst sm =
     (case supporterStateHandler_read (rst_readFails rst) (sm_disk sm) (sm_supporter sm) of
        Inl _ \<Rightarrow> Some (sm, RestartError)
      | Inr ssh \<Rightarrow>
     (let sm = sm\<lparr>sm_supporter := ssh\<rparr> in
      case requesterStateHandler_read (rst_readFails rst) (sm_disk sm) (sm_requester sm) of
        Inl _ \<Rightarrow> Some (sm, RestartError)
      | Inr rsh \<Rightarrow> do {
          let sm = sm\<lparr>sm_requester := rsh\<rparr>;
          (clock, refused) \<leftarrow> Clock_UpdateAndCheckMaxOffset (rst_physicalUpdate rst)
            (spm_MaxWithdrawn (sps_meta (ssh_supporterState (sm_supporter sm)))) (sm_clock sm);
          let sm = sm\<lparr>sm_clock := clock\<rparr>;
          if refused then Some (sm, RestartError)
          else do {
            (clock, _, outcome) \<leftarrow> Clock_SleepUntil (rst_rounds rst)
              (rm_MaxRequested (rqs_meta (rsh_requesterState (sm_requester sm)))) (sm_clock sm);
            let sm = sm\<lparr>sm_clock := clock\<rparr>;
            (case outcome of
               SleepCancelled \<Rightarrow> Some (sm, RestartError)
             | StillSleeping \<Rightarrow> Some (sm, RestartSleeping)
             | SleptUntil \<Rightarrow> SupportManager_newEpoch eng (rst_physicalNow rst) sm)
          }
        }))"

section \<open>The loop\<close>

text \<open>
  The events the loop selects from. With a tick of the heartbeat ticker comes whether the
  protocol is enabled, and with a signal of the receive queue whether the commit succeeds.
\<close>

datatype SlEvent = SlHeartbeatTick bool bool int | SlSupportExpiryTick int | SlIdleSupportFromTick
  | SlReceiveQueueSig bool

definition SupportManager_heartbeatTick ::
    "sl_engine \<Rightarrow> bool \<Rightarrow> bool \<Rightarrow> int \<Rightarrow> SupportManager \<Rightarrow> (SupportManager \<times> SlMessage list) go" where
  "SupportManager_heartbeatTick eng clusterSetting versionGate physicalClock sm = do {
     sm \<leftarrow> SupportManager_maybeAddStores sm;
     if SupportManager_SupportFromEnabled clusterSetting versionGate
     then SupportManager_sendHeartbeats eng physicalClock sm
     else Some (sm, [])
   }"

fun SupportManager_startLoop ::
    "sl_engine \<Rightarrow> SlEvent \<Rightarrow> SupportManager \<Rightarrow> (SupportManager \<times> SlMessage list) go" where
  "SupportManager_startLoop eng (SlHeartbeatTick clusterSetting versionGate p) sm =
     SupportManager_heartbeatTick eng clusterSetting versionGate p sm"
| "SupportManager_startLoop eng (SlSupportExpiryTick p) sm =
     do { sm \<leftarrow> SupportManager_withdrawSupport eng p sm; Some (sm, []) }"
| "SupportManager_startLoop eng SlIdleSupportFromTick sm =
     do { sm \<leftarrow> SupportManager_removeIdleStores sm; Some (sm, []) }"
| "SupportManager_startLoop eng (SlReceiveQueueSig commit) sm =
     (case receiveQueue_Drain (sm_receiveQueue sm) of (q, msgs) \<Rightarrow>
        SupportManager_handleMessages eng commit msgs (sm\<lparr>sm_receiveQueue := q\<rparr>))"

end
