(* ===== verification/Support_Protocol.thy ===== *)
theory Support_Protocol
  imports Support_Manager
begin

text \<open>
  The store liveness protocol itself, without batches, disks and handlers: what each store
  promised and believes, and the messages ever sent. Messages may be lost, duplicated and
  reordered. The protocol keeps the promise that \<open>fabric.go\<close> documents: support that a
  requester counts on is known to its supporter, until the clock of the supporter has
  passed the expiration.
\<close>

section \<open>Views\<close>

text \<open>
  \<open>vw_for j\<close> is the epoch and expiration of the support for \<open>j\<close>, and \<open>vw_from j\<close> that of
  the support from \<open>j\<close>, for a store that is heartbeated.
\<close>

record sl_view =
  vw_for :: "StoreIdent \<Rightarrow> int \<times> Timestamp"
  vw_withdrawn :: Timestamp
  vw_from :: "StoreIdent \<Rightarrow> (int \<times> Timestamp) option"
  vw_maxEpoch :: int
  vw_maxRequested :: Timestamp

abbreviation never :: Timestamp where "never \<equiv> Timestamp 0 0"

definition sl_heartbeat :: "StoreIdent \<Rightarrow> StoreIdent \<Rightarrow> int \<times> Timestamp \<Rightarrow> SlMessage" where
  "sl_heartbeat i j p = \<lparr>slm_Type = SlMsgHeartbeat, slm_From = i, slm_To = j,
     slm_Epoch = fst p, slm_Expiration = snd p\<rparr>"

definition sl_response :: "StoreIdent \<Rightarrow> StoreIdent \<Rightarrow> int \<times> Timestamp \<Rightarrow> SlMessage" where
  "sl_response i j p = \<lparr>slm_Type = SlMsgHeartbeatResp, slm_From = i, slm_To = j,
     slm_Epoch = fst p, slm_Expiration = snd p\<rparr>"

lemma sl_message_eq_iff [simp]:
  "sl_heartbeat i j p = sl_heartbeat i' j' p' \<longleftrightarrow> i = i' \<and> j = j' \<and> p = p'"
  "sl_response i j p = sl_response i' j' p' \<longleftrightarrow> i = i' \<and> j = j' \<and> p = p'"
  "sl_heartbeat i j p \<noteq> sl_response i' j' p'"
  "sl_response i' j' p' \<noteq> sl_heartbeat i j p"
  by (auto simp: sl_heartbeat_def sl_response_def prod_eq_iff)

text \<open>A supporter hears a heartbeat, and a requester a response.\<close>

definition beat :: "int \<times> Timestamp \<Rightarrow> int \<times> Timestamp \<Rightarrow> int \<times> Timestamp" where
  "beat m p = (if fst p = fst m then (fst p, max (snd p) (snd m)) else if fst p < fst m then m else p)"

section \<open>Steps\<close>

text \<open>A step of store \<open>i\<close> when the messages \<open>N\<close> have been sent; the last argument has what it sends.\<close>

inductive vw_step :: "StoreIdent \<Rightarrow> SlMessage set \<Rightarrow> sl_view \<Rightarrow> sl_view \<Rightarrow> SlMessage set \<Rightarrow> bool"
  for i :: StoreIdent and N :: "SlMessage set" where
  hear: "sl_heartbeat j i m \<in> N \<Longrightarrow> p = beat m (vw_for v j) \<Longrightarrow>
    vw_step i N v (v\<lparr>vw_for := (vw_for v)(j := p)\<rparr>) {sl_response i j p}"
| ack: "sl_response j i m \<in> N \<Longrightarrow> vw_from v j = Some p \<Longrightarrow> fst p < fst m \<longrightarrow> snd m = never \<Longrightarrow>
    vw_step i N v (v\<lparr>vw_from := (vw_from v)(j \<mapsto> beat m p), vw_maxEpoch := max (vw_maxEpoch v) (fst m)\<rparr>) {}"
| raise: "vw_step i N v (v\<lparr>vw_maxEpoch := max (vw_maxEpoch v) e\<rparr>) {}"
| withdraw: "vw_for v j = (e, x) \<Longrightarrow> x \<noteq> never \<Longrightarrow> x \<le> now \<Longrightarrow>
    vw_step i N v (v\<lparr>vw_for := (vw_for v)(j := (e + 1, never)), vw_withdrawn := max (vw_withdrawn v) now\<rparr>) {}"
| request: "vw_step i N v (v\<lparr>vw_maxRequested := max (vw_maxRequested v) t\<rparr>) {}"
| send: "vw_from v j = Some (e, x) \<Longrightarrow> vw_step i N v v {sl_heartbeat i j (e, vw_maxRequested v)}"
| add: "vw_from v j = None \<Longrightarrow> vw_step i N v (v\<lparr>vw_from := (vw_from v)(j \<mapsto> (vw_maxEpoch v, never))\<rparr>) {}"
| forget: "vw_step i N v (v\<lparr>vw_from := vw_from v |` J\<rparr>) {}"
| restart: "vw_step i N v (v\<lparr>vw_from := Map.empty, vw_maxEpoch := vw_maxEpoch v + 1\<rparr>) {}"

inductive sys_step :: "(StoreIdent \<Rightarrow> sl_view) \<times> SlMessage set \<Rightarrow> (StoreIdent \<Rightarrow> sl_view) \<times> SlMessage set \<Rightarrow> bool" where
  sys_step: "vw_step i N (V i) v S \<Longrightarrow> sys_step (V, N) (V(i := v), N \<union> S)"

section \<open>The invariant\<close>

text \<open>
  What store \<open>b\<close> owes store \<open>a\<close> after answering with an epoch and an expiration: it still
  supports that epoch, at least that long; or its clock has passed the expiration; or \<open>a\<close>
  itself asked for support in a later epoch.
\<close>

definition owed :: "int \<times> Timestamp \<Rightarrow> int \<times> Timestamp \<Rightarrow> Timestamp \<Rightarrow> int set \<Rightarrow> bool" where
  "owed p r withdrawn asked \<longleftrightarrow>
     fst r = fst p \<and> snd p \<le> snd r \<or>
     fst p < fst r \<and> (snd p \<le> withdrawn \<or> (\<exists>e \<in> asked. fst p < e \<and> e \<le> fst r))"

definition asked :: "StoreIdent \<Rightarrow> StoreIdent \<Rightarrow> SlMessage set \<Rightarrow> int set" where
  "asked a b N = {fst m | m. sl_heartbeat a b m \<in> N}"

definition promise :: "StoreIdent \<Rightarrow> StoreIdent \<Rightarrow> (StoreIdent \<Rightarrow> sl_view) \<Rightarrow> SlMessage set \<Rightarrow> int \<times> Timestamp \<Rightarrow> bool" where
  "promise a b V N p \<longleftrightarrow> owed p (vw_for (V b) a) (vw_withdrawn (V b)) (asked a b N)"

definition view_times :: "sl_view \<Rightarrow> bool" where
  "view_times v \<longleftrightarrow> never \<le> vw_maxRequested v \<and> (\<forall>j. never \<le> snd (vw_for v j))
     \<and> (\<forall>j p. vw_from v j = Some p \<longrightarrow> never \<le> snd p)"

definition net_times :: "SlMessage set \<Rightarrow> bool" where
  "net_times N \<longleftrightarrow> (\<forall>m \<in> N. never \<le> slm_Expiration m)"

definition times_ok :: "(StoreIdent \<Rightarrow> sl_view) \<times> SlMessage set \<Rightarrow> bool" where
  "times_ok s \<longleftrightarrow> (\<forall>i. view_times (fst s i)) \<and> net_times (snd s)"

definition epochs_ok :: "(StoreIdent \<Rightarrow> sl_view) \<times> SlMessage set \<Rightarrow> bool" where
  "epochs_ok s \<longleftrightarrow> (case s of (V, N) \<Rightarrow>
     (\<forall>i j m. sl_heartbeat i j m \<in> N \<longrightarrow> fst m \<le> vw_maxEpoch (V i))
     \<and> (\<forall>i j p. vw_from (V i) j = Some p \<longrightarrow> fst p \<le> vw_maxEpoch (V i)
          \<and> (\<forall>m. sl_heartbeat i j m \<in> N \<longrightarrow> fst m \<le> fst p)))"

definition promises_ok :: "(StoreIdent \<Rightarrow> sl_view) \<times> SlMessage set \<Rightarrow> bool" where
  "promises_ok s \<longleftrightarrow> (case s of (V, N) \<Rightarrow>
     (\<forall>a b p. sl_response b a p \<in> N \<longrightarrow> snd p \<noteq> never \<longrightarrow> promise a b V N p)
     \<and> (\<forall>a b p. vw_from (V a) b = Some p \<longrightarrow> snd p \<noteq> never \<longrightarrow> promise a b V N p))"

lemma beat_times: "never \<le> snd m \<Longrightarrow> never \<le> snd p \<Longrightarrow> never \<le> snd (beat m p)"
  by (auto simp: beat_def max_def)

lemma net_times_messages:
  assumes "net_times N"
  shows "sl_heartbeat i j m \<in> N \<Longrightarrow> never \<le> snd m" and "sl_response i j m \<in> N \<Longrightarrow> never \<le> snd m"
  using assms by (force simp: net_times_def sl_heartbeat_def sl_response_def)+

lemma vw_step_times:
  assumes "vw_step i N v v' S" and "view_times v" and "net_times N"
  shows "view_times v' \<and> net_times S"
  using assms(1)
proof cases
  case (ack j m p)
  then have "never \<le> snd (beat m p)"
    using assms(2) net_times_messages [OF assms(3)] beat_times unfolding view_times_def by metis
  with ack show ?thesis
    using assms(2) by (simp add: view_times_def net_times_def del: split_paired_All)
next
  case (hear j m p)
  then have "never \<le> snd p"
    using assms(2) net_times_messages [OF assms(3)] beat_times unfolding view_times_def by metis
  with hear show ?thesis
    using assms(2) by (simp add: view_times_def net_times_def sl_response_def)
qed (use assms(2) in \<open>auto simp: view_times_def net_times_def sl_heartbeat_def restrict_map_def
  intro: max.coboundedI1 split: if_splits\<close>)

lemma sys_step_times: "sys_step s s' \<Longrightarrow> times_ok s \<Longrightarrow> times_ok s'"
  by (induction rule: sys_step.induct)
    (auto simp: times_ok_def net_times_def dest: vw_step_times)

lemma sys_step_epochs: "sys_step s s' \<Longrightarrow> epochs_ok s \<Longrightarrow> epochs_ok s'"
proof (induction rule: sys_step.induct)
  case (sys_step i N V v S)
  from sys_step(1) show ?case
  proof cases
    case (ack j m p)
    then have "fst p \<le> fst (beat m p)" and "fst (beat m p) \<le> max (fst p) (fst m)"
      by (auto simp: beat_def)
    with ack show ?thesis
      using sys_step(2) unfolding epochs_ok_def prod.case
      by (simp add: max_def del: split_paired_All) (smt (verit))
  next
    case (send j e x)
    then have "e \<le> vw_maxEpoch (V i)"
      using sys_step(2) unfolding epochs_ok_def prod.case by fastforce
    with send show ?thesis
      using sys_step(2) unfolding epochs_ok_def prod.case
      by (auto simp del: split_paired_All split: if_splits)
  qed (use sys_step(2) in \<open>(fastforce simp: epochs_ok_def restrict_map_def max_def split: if_splits)+\<close>)
qed

text \<open>A promise stays: whatever the supporter does, and whatever is sent.\<close>

lemma owed_mono: "owed p r w H \<Longrightarrow> w \<le> w' \<Longrightarrow> H \<subseteq> H' \<Longrightarrow> owed p r w' H'"
  unfolding owed_def by (meson order_trans subsetD)

lemma owed_beat: "owed p r w H \<Longrightarrow> fst m \<in> H \<Longrightarrow> owed p (beat m r) w H"
  unfolding owed_def beat_def by (auto simp: le_max_iff_disj)

lemma owed_withdraw:
  assumes "owed p (e, x) w H" and "x \<le> now"
  shows "owed p (e + 1, never) (max w now) H"
  using assms unfolding owed_def by (force simp: le_max_iff_disj)

lemma asked_mono: "N \<subseteq> N' \<Longrightarrow> asked a b N \<subseteq> asked a b N'"
  unfolding asked_def by blast

lemma promise_stays:
  assumes "promise a b V N p" and "vw_step i N (V i) v S"
  shows "promise a b (V(i := v)) (N \<union> S) p"
proof -
  note sent = asked_mono [of N "N \<union> S" a b]
  have kept: ?thesis if "i = b \<Longrightarrow> vw_for v a = vw_for (V b) a \<and> vw_withdrawn (V b) \<le> vw_withdrawn v"
    using assms(1) sent that unfolding promise_def
    by (cases "i = b") (auto intro: owed_mono)
  from assms(2) show ?thesis
  proof cases
    case (hear j m q)
    show ?thesis
    proof (cases "i = b \<and> j = a")
      case True
      have "fst m \<in> asked a b N"
        using True hear unfolding asked_def by blast
      then show ?thesis
        using True hear assms(1) sent unfolding promise_def
        by (auto intro: owed_mono dest: owed_beat)
    next
      case False
      show ?thesis by (rule kept) (use hear False in auto)
    qed
  next
    case (withdraw j e x now)
    show ?thesis
    proof (cases "i = b \<and> j = a")
      case True
      then show ?thesis
        using withdraw assms(1) owed_withdraw unfolding promise_def by auto
    next
      case False
      show ?thesis by (rule kept) (use withdraw False in auto)
    qed
  qed (rule kept, simp)+
qed

lemma sys_step_promises: "sys_step s s' \<Longrightarrow> promises_ok s \<Longrightarrow> promises_ok s'"
proof (induction rule: sys_step.induct)
  case (sys_step i N V v S)
  have old: "promise a b (V(i := v)) (N \<union> S) p"
    if "sl_response b a p \<in> N \<or> vw_from (V a) b = Some p" and "snd p \<noteq> never" for a b p
    using that sys_step promise_stays unfolding promises_ok_def prod.case by blast
  have new: "promise a b (V(i := v)) (N \<union> S) p" if "sl_response b a p \<in> S" for a b p
    using sys_step(1) that by cases (auto simp: promise_def owed_def)
  have beat_old: "beat m p = m \<or> beat m p = p \<or> snd (beat m p) = never"
    if "fst p < fst m \<longrightarrow> snd m = never" for m p :: "int \<times> Timestamp"
    using that by (auto simp: beat_def max_def prod_eq_iff)
  have from_old: "sl_response b a p \<in> N \<or> vw_from (V a) b = Some p"
    if "vw_from ((V(i := v)) a) b = Some p" and "snd p \<noteq> never" for a b p
    using sys_step(1)
  proof cases
    case (ack j m q)
    with that beat_old [of q m] show ?thesis by (auto split: if_splits)
  qed (use that in \<open>auto simp: restrict_map_def split: if_splits\<close>)
  show ?case
    unfolding promises_ok_def prod.case using old new from_old by blast
qed

definition sys_inv :: "(StoreIdent \<Rightarrow> sl_view) \<times> SlMessage set \<Rightarrow> bool" where
  "sys_inv s \<longleftrightarrow> times_ok s \<and> epochs_ok s \<and> promises_ok s"

lemma sys_steps_inv: "sys_step\<^sup>*\<^sup>* s s' \<Longrightarrow> sys_inv s \<Longrightarrow> sys_inv s'"
  by (induction rule: rtranclp_induct)
    (auto simp: sys_inv_def intro: sys_step_times sys_step_epochs sys_step_promises)

text \<open>What the invariant says of a requester and its supporter.\<close>

lemma sys_inv_support:
  assumes "sys_inv (V, N)" and "vw_from (V a) b = Some (e, x)" and "x \<noteq> never"
  shows "(\<exists>y. vw_for (V b) a = (e, y) \<and> y \<noteq> never \<and> x \<le> y) \<or> x \<le> vw_withdrawn (V b)"
proof -
  have "promise a b V N (e, x)" and "never \<le> x"
    using assms unfolding sys_inv_def promises_ok_def times_ok_def view_times_def by fastforce+
  moreover have "m \<le> e" if "m \<in> asked a b N" for m
    using assms(1,2) that unfolding sys_inv_def epochs_ok_def asked_def by fastforce
  ultimately show ?thesis
    using assms(3) unfolding promise_def owed_def by (cases "vw_for (V b) a") force
qed

end
