(* ===== verification/Support_Run.thy ===== *)
theory Support_Run
  imports Support_Protocol
begin

text \<open>
  Runs of stores: each store is a \<open>SupportManager\<close> with its disk; the network may lose,
  duplicate and reorder messages, and stores crash and restart. Every action of a manager
  is simulated by steps of the protocol, so its promise holds for what \<open>SupportFor\<close> and
  \<open>SupportFrom\<close> answer.
\<close>

section \<open>The view of a manager\<close>

definition ss_pair :: "SupportState \<Rightarrow> int \<times> Timestamp" where
  "ss_pair ss = (ss_Epoch ss, ss_Expiration ss)"

definition for_of :: "supporterState \<Rightarrow> StoreIdent \<Rightarrow> int \<times> Timestamp" where
  "for_of st j = (case fmlookup (sps_supportFor st) j of Some ss \<Rightarrow> ss_pair ss | None \<Rightarrow> (0, never))"

definition from_of :: "requesterState \<Rightarrow> StoreIdent \<Rightarrow> (int \<times> Timestamp) option" where
  "from_of st j = map_option (\<lambda>rs. ss_pair (rq_state rs)) (fmlookup (rqs_supportFrom st) j)"

definition view_of :: "supporterState \<Rightarrow> requesterState \<Rightarrow> sl_view" where
  "view_of st req = \<lparr>vw_for = for_of st, vw_withdrawn = spm_MaxWithdrawn (sps_meta st), vw_from = from_of req,
     vw_maxEpoch = rm_MaxEpoch (rqs_meta req), vw_maxRequested = rm_MaxRequested (rqs_meta req)\<rparr>"

text \<open>The steps of one store, with the messages sent so far.\<close>

definition i_step :: "StoreIdent \<Rightarrow> sl_view \<times> SlMessage set \<Rightarrow> sl_view \<times> SlMessage set \<Rightarrow> bool" where
  "i_step i s s' \<longleftrightarrow> (\<exists>S. vw_step i (snd s) (fst s) (fst s') S \<and> snd s' = snd s \<union> S)"

abbreviation i_steps :: "StoreIdent \<Rightarrow> sl_view \<times> SlMessage set \<Rightarrow> sl_view \<times> SlMessage set \<Rightarrow> bool" where
  "i_steps i \<equiv> (i_step i)\<^sup>*\<^sup>*"

lemma i_step_silent: "vw_step i N v v' {} \<Longrightarrow> i_steps i (v, N) (v', N)"
  by (rule r_into_rtranclp) (auto simp: i_step_def)

lemma i_step_sends: "vw_step i N v v' S \<Longrightarrow> i_steps i (v, N) (v', N \<union> S)"
  by (rule r_into_rtranclp) (auto simp: i_step_def)

lemma i_steps_sys:
  assumes "i_steps i s s'"
  shows "V i = fst s \<Longrightarrow> sys_step\<^sup>*\<^sup>* (V, snd s) (V(i := fst s'), snd s')"
  using assms
proof (induction rule: rtranclp_induct)
  case base
  then show ?case by (metis fun_upd_triv rtranclp.rtrancl_refl)
next
  case (step t t')
  obtain S where "vw_step i (snd t) (fst t) (fst t') S" and "snd t' = snd t \<union> S"
    using step(2) unfolding i_step_def by blast
  then have "sys_step (V(i := fst t), snd t) ((V(i := fst t))(i := fst t'), snd t')"
    using sys_step.intros [of i "snd t" "V(i := fst t)" "fst t'" S] by simp
  then show ?case
    using step(3) [OF step(4)] unfolding fun_upd_upd by (rule rtranclp.rtrancl_into_rtrancl [rotated])
qed

lemma slm_cases:
  "slm_Type m = SlMsgHeartbeat \<Longrightarrow> m = sl_heartbeat (slm_From m) (slm_To m) (slm_Epoch m, slm_Expiration m)"
  "slm_Type m = SlMsgHeartbeatResp \<Longrightarrow> m = sl_response (slm_From m) (slm_To m) (slm_Epoch m, slm_Expiration m)"
  by (simp_all add: sl_heartbeat_def sl_response_def)

section \<open>Messages\<close>

text \<open>Well-formed states of a requester and of a supporter, with metadata that have not gone back below zero.\<close>

definition req_wf :: "requesterState \<Rightarrow> bool" where
  "req_wf st \<longleftrightarrow> (\<forall>j rs. fmlookup (rqs_supportFrom st) j = Some rs \<longrightarrow> ss_Target (rq_state rs) = j)
     \<and> 0 \<le> rm_MaxEpoch (rqs_meta st) \<and> never \<le> rm_MaxRequested (rqs_meta st)"

definition sup_ok :: "supporterState \<Rightarrow> bool" where
  "sup_ok st \<longleftrightarrow> sup_wf st \<and> never \<le> spm_MaxWithdrawn (sps_meta st)"

lemma handleHeartbeat_beat:
  assumes "handleHeartbeat msg ss = Some ss'"
  shows "ss_pair ss' = beat (slm_Epoch msg, slm_Expiration msg) (ss_pair ss)" and "ss_Target ss' = ss_Target ss"
  using assms
  by (auto simp: handleHeartbeat_def ss_pair_def beat_def Timestamp_Forward_max go_cases split: if_splits)

lemma ssfu_handleHeartbeat_eff:
  assumes "ssfu_handleHeartbeat msg u = Some (u', resp)"
  defines "p \<equiv> beat (slm_Epoch msg, slm_Expiration msg) (for_of (eff_sup u) (slm_From msg))"
  shows "for_of (eff_sup u') = (for_of (eff_sup u))(slm_From msg := p)"
    and "sps_meta (eff_sup u') = sps_meta (eff_sup u)" and "su_checkedIn u' = su_checkedIn u"
    and "resp = sl_response (slm_To msg) (slm_From msg) p"
    and "sup_wf (eff_sup u) \<Longrightarrow> store_ok (slm_From msg) \<Longrightarrow> sup_wf (eff_sup u')"
proof -
  let ?j = "slm_From msg"
  let ?ss = "case fmlookup (sps_supportFor (eff_sup u)) ?j of
    Some ss \<Rightarrow> ss | None \<Rightarrow> SupportState_zero\<lparr>ss_Target := ?j\<rparr>"
  obtain ss' where ss': "handleHeartbeat msg ?ss = Some ss'"
    and u': "u' = (if ?ss \<noteq> ss' then u\<lparr>su_inProgress := (su_inProgress u)
                \<lparr>sps_supportFor := fmupd ?j ss' (sps_supportFor (su_inProgress u))\<rparr>\<rparr> else u)"
    and resp: "resp = sl_response (slm_To msg) ?j (ss_pair ss')"
    using assms(1)
    by (auto simp: ssfu_handleHeartbeat_def ssfu_getSupportFor_eff Let_def go_cases sl_response_def ss_pair_def)
  have "ss_pair ?ss = for_of (eff_sup u) ?j"
    by (simp add: for_of_def ss_pair_def SupportState_zero_def split: option.split)
  then have p: "ss_pair ss' = p"
    using handleHeartbeat_beat(1) [OF ss'] unfolding p_def by simp
  have eff: "eff_sup u' = (if ?ss \<noteq> ss' then (eff_sup u)\<lparr>sps_supportFor := fmupd ?j ss' (sps_supportFor (eff_sup u))\<rparr>
      else eff_sup u)"
    unfolding u' by (auto simp: eff_sup_def intro!: fmap_ext)
  show "for_of (eff_sup u') = (for_of (eff_sup u))(?j := p)"
    unfolding eff using p \<open>ss_pair ?ss = _\<close> by (auto simp: for_of_def)
  show "sps_meta (eff_sup u') = sps_meta (eff_sup u)" and "su_checkedIn u' = su_checkedIn u"
    using eff u' by simp_all
  show "resp = sl_response (slm_To msg) ?j p"
    using resp p by simp
  show "sup_wf (eff_sup u')" if "sup_wf (eff_sup u)" and "store_ok ?j"
    unfolding eff using that handleHeartbeat_beat(2) [OF ss']
    by (auto simp: sup_wf_def split: option.splits if_splits)
qed

lemma handleHeartbeatResponse_beat:
  assumes "handleHeartbeatResponse msg rm ss = Some (rm', ss')"
  shows "ss_pair ss' = beat (slm_Epoch msg, slm_Expiration msg) (ss_pair ss)" and "ss_Target ss' = ss_Target ss"
    and "ss_Epoch ss < slm_Epoch msg \<longrightarrow> slm_Expiration msg = never"
    and "rm' = rm\<lparr>rm_MaxEpoch := max (rm_MaxEpoch rm) (slm_Epoch msg)\<rparr>"
  using assms
  by (auto simp: handleHeartbeatResponse_def ss_pair_def beat_def Timestamp_Forward_max go_cases Let_def
    max_def split: if_splits)

text \<open>
  A response that changes the state of a store that is not in the checked-in view makes the
  update impossible to check in. Such an update is excluded by its domain.
\<close>

definition upd_dom :: "requesterStateForUpdate \<Rightarrow> bool" where
  "upd_dom w \<longleftrightarrow> fmdom (rqs_supportFrom (ru_inProgress w)) |\<subseteq>| fmdom (rqs_supportFrom (ru_checkedIn w))"

lemma rsfu_handleHeartbeatResponse_cases:
  assumes "rsfu_handleHeartbeatResponse msg w = Some w'" and "req_wf (eff_req w)"
  defines "ss \<equiv> case rsfu_getSupportFrom (slm_From msg) w of
    Some ss \<Rightarrow> ss | None \<Rightarrow> SupportState_zero\<lparr>ss_Target := slm_From msg\<rparr>"
  obtains ss' where "ss_pair ss' = beat (slm_Epoch msg, slm_Expiration msg) (ss_pair ss)"
    and "ss_Target ss' = ss_Target ss" and "ss_Epoch ss < slm_Epoch msg \<longrightarrow> slm_Expiration msg = never"
    and "rqs_meta (eff_req w') = (rqs_meta (eff_req w))
      \<lparr>rm_MaxEpoch := max (rm_MaxEpoch (rqs_meta (eff_req w))) (slm_Epoch msg)\<rparr>"
    and "ru_checkedIn w' = ru_checkedIn w"
    and "rqs_supportFrom (ru_inProgress w') = (if ss \<noteq> ss' then fmupd (slm_From msg)
      \<lparr>rq_state = ss', rq_recentlyQueried = False\<rparr> (rqs_supportFrom (ru_inProgress w)) else rqs_supportFrom (ru_inProgress w))"
proof -
  obtain meta' ss' where h: "handleHeartbeatResponse msg (rqs_meta (eff_req w)) ss = Some (meta', ss')"
    and w': "w' = (let u = (if rqs_meta (eff_req w) \<noteq> meta' then w\<lparr>ru_inProgress := (ru_inProgress w)\<lparr>rqs_meta := meta'\<rparr>\<rparr> else w) in
       if ss \<noteq> ss'
       then u\<lparr>ru_inProgress := (ru_inProgress u)\<lparr>rqs_supportFrom :=
              fmupd (slm_From msg) \<lparr>rq_state = ss', rq_recentlyQueried = False\<rparr> (rqs_supportFrom (ru_inProgress u))\<rparr>\<rparr>
       else u)"
    using assms(1) unfolding rsfu_handleHeartbeatResponse_def ss_def
    by (auto simp: Let_def go_cases dest!: getMeta_eff)
  note beat = handleHeartbeatResponse_beat [OF h]
  have checkedIn: "ru_checkedIn w' = ru_checkedIn w"
    unfolding w' Let_def by simp
  have meta: "rqs_meta (eff_req w') = meta'"
  proof (cases "rqs_meta (eff_req w) = meta'")
    case True
    then have "rqs_meta (ru_inProgress w') = rqs_meta (ru_inProgress w)"
      unfolding w' Let_def by simp
    then have "rqs_meta (eff_req w') = rqs_meta (eff_req w)"
      unfolding eff_req_def checkedIn by simp
    with True show ?thesis by simp
  next
    case False
    then have "rqs_meta (ru_inProgress w') = meta'"
      unfolding w' Let_def by simp
    moreover have "meta' \<noteq> RequesterMeta_zero"
      using False beat(4) assms(2)
      by (cases "rqs_meta (eff_req w)") (auto simp: req_wf_def RequesterMeta_zero_def max_def split: if_splits)
    ultimately show ?thesis
      unfolding eff_req_def by simp
  qed
  show thesis
  proof (rule that)
    show "ru_checkedIn w' = ru_checkedIn w" and "rqs_supportFrom (ru_inProgress w') = (if ss \<noteq> ss'
      then fmupd (slm_From msg) \<lparr>rq_state = ss', rq_recentlyQueried = False\<rparr> (rqs_supportFrom (ru_inProgress w))
      else rqs_supportFrom (ru_inProgress w))"
      unfolding w' Let_def by simp_all
  qed (use beat meta in simp_all)
qed

lemma rsfu_handleHeartbeatResponse_eff:
  assumes "rsfu_handleHeartbeatResponse msg w = Some w'" and "req_wf (eff_req w)" and "upd_dom w'"
  defines "m \<equiv> (slm_Epoch msg, slm_Expiration msg)"
  shows "case from_of (eff_req w) (slm_From msg) of
      Some p \<Rightarrow> from_of (eff_req w') = (from_of (eff_req w))(slm_From msg \<mapsto> beat m p) \<and> (fst p < fst m \<longrightarrow> snd m = never)
    | None \<Rightarrow> from_of (eff_req w') = from_of (eff_req w)"
    and "rqs_meta (eff_req w') = (rqs_meta (eff_req w))
      \<lparr>rm_MaxEpoch := max (rm_MaxEpoch (rqs_meta (eff_req w))) (slm_Epoch msg)\<rparr>"
    and "ru_checkedIn w' = ru_checkedIn w" and "req_wf (eff_req w')" and "upd_dom w"
proof -
  let ?j = "slm_From msg"
  let ?ss = "case rsfu_getSupportFrom ?j w of Some ss \<Rightarrow> ss | None \<Rightarrow> SupportState_zero\<lparr>ss_Target := ?j\<rparr>"
  obtain ss' where ss': "ss_pair ss' = beat m (ss_pair ?ss)" "ss_Target ss' = ss_Target ?ss"
      "ss_Epoch ?ss < slm_Epoch msg \<longrightarrow> slm_Expiration msg = never"
    and meta: "rqs_meta (eff_req w') = (rqs_meta (eff_req w))
      \<lparr>rm_MaxEpoch := max (rm_MaxEpoch (rqs_meta (eff_req w))) (slm_Epoch msg)\<rparr>"
    and checkedIn: "ru_checkedIn w' = ru_checkedIn w"
    and inProgress: "rqs_supportFrom (ru_inProgress w') = (if ?ss \<noteq> ss' then fmupd ?j
      \<lparr>rq_state = ss', rq_recentlyQueried = False\<rparr> (rqs_supportFrom (ru_inProgress w)) else rqs_supportFrom (ru_inProgress w))"
    unfolding m_def by (rule rsfu_handleHeartbeatResponse_cases [OF assms(1,2)])
  have eff: "fmlookup (rqs_supportFrom (eff_req w')) = (if ?ss \<noteq> ss' then (fmlookup (rqs_supportFrom (eff_req w)))
      (?j \<mapsto> \<lparr>rq_state = ss', rq_recentlyQueried = False\<rparr>) else fmlookup (rqs_supportFrom (eff_req w)))"
    unfolding eff_req_def checkedIn using inProgress by (auto simp: fun_eq_iff)
  have known: "?ss = ss'" if "from_of (eff_req w) ?j = None"
    using that assms(3) inProgress checkedIn
    by (auto simp: upd_dom_def from_of_def eff_req_def fmlookup_add split: if_splits)
  show "case from_of (eff_req w) ?j of
      Some p \<Rightarrow> from_of (eff_req w') = (from_of (eff_req w))(?j \<mapsto> beat m p) \<and> (fst p < fst m \<longrightarrow> snd m = never)
    | None \<Rightarrow> from_of (eff_req w') = from_of (eff_req w)"
  proof (cases "from_of (eff_req w) ?j")
    case None
    then show ?thesis using known eff by (simp add: from_of_def fun_eq_iff)
  next
    case (Some p)
    then have p: "ss_pair ?ss = p"
      by (auto simp: from_of_def rsfu_getSupportFrom_eff)
    have "from_of (eff_req w') = (from_of (eff_req w))(?j \<mapsto> ss_pair ss')"
      using Some p eff by (auto simp: from_of_def fun_eq_iff)
    with Some p ss' show ?thesis by (auto simp: ss_pair_def m_def)
  qed
  show "req_wf (eff_req w')"
    using assms(2) ss'(2) eff meta unfolding req_wf_def
    by (auto simp: rsfu_getSupportFrom_eff le_max_iff_disj split: option.splits if_splits)
  show "upd_dom w"
    using assms(3) inProgress checkedIn by (auto simp: upd_dom_def split: if_splits)
  show "rqs_meta (eff_req w') = (rqs_meta (eff_req w))
      \<lparr>rm_MaxEpoch := max (rm_MaxEpoch (rqs_meta (eff_req w))) (slm_Epoch msg)\<rparr>"
    and "ru_checkedIn w' = ru_checkedIn w"
    by (fact meta checkedIn)+
qed

section \<open>Batches\<close>

abbreviation eff_view :: "supporterStateForUpdate \<Rightarrow> requesterStateForUpdate \<Rightarrow> sl_view" where
  "eff_view u w \<equiv> view_of (eff_sup u) (eff_req w)"

definition senders_ok :: "SlMessage set \<Rightarrow> bool" where
  "senders_ok N \<longleftrightarrow> (\<forall>m \<in> N. store_ok (slm_From m))"

text \<open>A batch in progress at store \<open>i\<close>, whose responses \<open>R\<close> will be sent.\<close>

definition batch_ok :: "StoreIdent \<Rightarrow> supporterStateForUpdate \<Rightarrow> requesterStateForUpdate \<Rightarrow> SlMessage set \<Rightarrow> bool" where
  "batch_ok i u w R \<longleftrightarrow> sup_ok (eff_sup u) \<and> req_wf (eff_req w) \<and> (\<forall>m \<in> R. slm_From m = i)"

lemma handle_one_dom:
  assumes "handle_one msg (w, u, R) = Some (w', u', R')" and "upd_dom w'"
  shows "upd_dom w"
  using assms
  by (auto simp: handle_one_def rsfu_handleHeartbeatResponse_def upd_dom_def Let_def go_cases
    split: SlMessageType.splits if_splits)

lemma handle_all_dom:
  assumes "foldM handle_one msgs (w, u, R) = Some (w', u', R')" and "upd_dom w'"
  shows "upd_dom w"
  using assms by (induction msgs arbitrary: w u R) (auto simp: go_simps dest: handle_one_dom)

lemma handle_one_steps:
  assumes "handle_one msg (w, u, R) = Some (w', u', R')" and "batch_ok i u w (set R)" and "upd_dom w'"
    and "msg \<in> N" and "slm_To msg = i" and "senders_ok N"
  shows "batch_ok i u' w' (set R')"
    and "i_steps i (eff_view u w, N \<union> set R) (eff_view u' w', N \<union> set R')"
    and "su_checkedIn u' = su_checkedIn u" and "ru_checkedIn w' = ru_checkedIn w"
proof -
  have ok: "store_ok (slm_From msg)" using assms(4,6) by (auto simp: senders_ok_def)
  have "batch_ok i u' w' (set R') \<and> i_steps i (eff_view u w, N \<union> set R) (eff_view u' w', N \<union> set R')
    \<and> su_checkedIn u' = su_checkedIn u \<and> ru_checkedIn w' = ru_checkedIn w"
  proof (cases "slm_Type msg")
    case SlMsgHeartbeat
    then obtain resp where h: "ssfu_handleHeartbeat msg u = Some (u', resp)" and out: "w' = w" "R' = R @ [resp]"
      using assms(1) by (auto simp: handle_one_def go_cases)
    note eff = ssfu_handleHeartbeat_eff [OF h]
    have "sl_heartbeat (slm_From msg) i (slm_Epoch msg, slm_Expiration msg) \<in> N \<union> set R"
      using slm_cases(1) [OF SlMsgHeartbeat] assms(4,5) by simp
    from vw_step.hear [OF this refl, of "eff_view u w"]
    have "vw_step i (N \<union> set R) (eff_view u w) (eff_view u' w) {resp}"
      using eff(1,2,4) assms(5) by (simp add: view_of_def)
    from i_step_sends [OF this]
    have "i_steps i (eff_view u w, N \<union> set R) (eff_view u' w', N \<union> set R')"
      unfolding out by (simp add: ac_simps)
    with eff(2-5) ok assms(2,5) out show ?thesis
      by (auto simp: batch_ok_def sup_ok_def sl_response_def)
  next
    case SlMsgHeartbeatResp
    then have h: "rsfu_handleHeartbeatResponse msg w = Some w'" and out: "u' = u" "R' = R"
      using assms(1) by (auto simp: handle_one_def go_cases)
    have wf: "req_wf (eff_req w)" using assms(2) by (simp add: batch_ok_def)
    note eff = rsfu_handleHeartbeatResponse_eff [OF h wf assms(3)]
    have m: "sl_response (slm_From msg) i (slm_Epoch msg, slm_Expiration msg) \<in> N \<union> set R"
      using slm_cases(2) [OF SlMsgHeartbeatResp] assms(4,5) by simp
    have "vw_step i (N \<union> set R) (eff_view u w) (eff_view u w') {}"
    proof (cases "from_of (eff_req w) (slm_From msg)")
      case None
      then have view: "eff_view u w' = (eff_view u w)\<lparr>vw_maxEpoch := max (vw_maxEpoch (eff_view u w)) (slm_Epoch msg)\<rparr>"
        using eff(1,2) by (simp add: view_of_def)
      show ?thesis unfolding view by (rule vw_step.raise)
    next
      case (Some p)
      then have view: "eff_view u w' = (eff_view u w)\<lparr>vw_from := (vw_from (eff_view u w))
          (slm_From msg \<mapsto> beat (slm_Epoch msg, slm_Expiration msg) p),
          vw_maxEpoch := max (vw_maxEpoch (eff_view u w)) (fst (slm_Epoch msg, slm_Expiration msg))\<rparr>"
        using eff(1,2) by (simp add: view_of_def)
      have "vw_from (eff_view u w) (slm_From msg) = Some p"
        using Some by (simp add: view_of_def)
      moreover have "fst p < fst (slm_Epoch msg, slm_Expiration msg) \<longrightarrow> snd (slm_Epoch msg, slm_Expiration msg) = never"
        using Some eff(1) by simp
      ultimately show ?thesis
        unfolding view by (rule vw_step.ack [OF m])
    qed
    with eff(3,4) assms(2) out show ?thesis
      by (auto simp: batch_ok_def intro: i_step_silent)
  next
    case (SlMsgUnknown k)
    with assms(1,2) show ?thesis by (auto simp: handle_one_def)
  qed
  then show "batch_ok i u' w' (set R')" and "i_steps i (eff_view u w, N \<union> set R) (eff_view u' w', N \<union> set R')"
    and "su_checkedIn u' = su_checkedIn u" and "ru_checkedIn w' = ru_checkedIn w"
    by blast+
qed

lemma handle_all_steps:
  assumes "foldM handle_one msgs (w, u, R) = Some (w', u', R')" and "batch_ok i u w (set R)" and "upd_dom w'"
    and "\<And>m. m \<in> set msgs \<Longrightarrow> m \<in> N \<and> slm_To m = i" and "senders_ok N"
  shows "batch_ok i u' w' (set R') \<and> i_steps i (eff_view u w, N \<union> set R) (eff_view u' w', N \<union> set R')
    \<and> su_checkedIn u' = su_checkedIn u \<and> ru_checkedIn w' = ru_checkedIn w"
  using assms(1,2,4)
proof (induction msgs arbitrary: w u R)
  case Nil
  then show ?case by simp
next
  case (Cons m ms)
  then obtain w1 u1 R1 where one: "handle_one m (w, u, R) = Some (w1, u1, R1)"
    and rest: "foldM handle_one ms (w1, u1, R1) = Some (w', u', R')"
    by (auto simp: go_simps)
  have "upd_dom w1" by (rule handle_all_dom [OF rest assms(3)])
  note first = handle_one_steps [OF one Cons.prems(2) this _ _ assms(5)]
  have "m \<in> N" and "slm_To m = i" using Cons.prems(3) by simp_all
  note first = first [OF this]
  show ?case
    using Cons.IH [OF rest first(1)] Cons.prems(3) first(2-4) by (auto intro: rtranclp_trans)
qed

section \<open>Withdrawal\<close>

definition int64 :: "int \<Rightarrow> bool" where
  "int64 e \<longleftrightarrow> - (2 ^ 63) \<le> e \<and> e \<le> MaxInt64"

text \<open>The epochs a store may increment have room for it.\<close>

definition epochs_room :: "supporterState \<Rightarrow> requesterState \<Rightarrow> bool" where
  "epochs_room st req \<longleftrightarrow> int64 (rm_MaxEpoch (rqs_meta req) + 1)
     \<and> (\<forall>j ss. fmlookup (sps_supportFor st) j = Some ss \<longrightarrow> int64 (ss_Epoch ss + 1))"

lemma for_of_fmupd:
  "for_of \<lparr>sps_meta = meta, sps_supportFor = fmupd j ss (sps_supportFor st)\<rparr> = (for_of st)(j := ss_pair ss)"
  by (auto simp: for_of_def)

lemma withdraw_one_eff:
  assumes "withdraw_one now (j, ss) u = Some u'" and "never \<le> spm_MaxWithdrawn (sps_meta (eff_sup u))"
    and "ss_Expiration ss \<noteq> never \<and> ss_Expiration ss \<le> now" and "int64 (ss_Epoch ss + 1)"
  shows "eff_sup u' = \<lparr>sps_meta = \<lparr>spm_MaxWithdrawn = max (spm_MaxWithdrawn (sps_meta (eff_sup u))) now\<rparr>,
      sps_supportFor = fmupd j (ss\<lparr>ss_Epoch := ss_Epoch ss + 1, ss_Expiration := never\<rparr>) (sps_supportFor (eff_sup u))\<rparr>"
    and "su_checkedIn u' = su_checkedIn u"
proof -
  let ?new = "ss\<lparr>ss_Epoch := ss_Epoch ss + 1, ss_Expiration := never\<rparr>"
  let ?u = "u\<lparr>su_inProgress := (su_inProgress u)\<lparr>sps_supportFor := fmupd j ?new (sps_supportFor (su_inProgress u))\<rparr>\<rparr>"
  have new: "maybeWithdrawSupport now ss = ?new"
    using assms(3,4) by (simp add: maybeWithdrawSupport_def int64_def Timestamp_IsEmpty_def less_eq_Timestamp_def)
  have "ss \<noteq> ?new"
    using assms(3) by (cases ss) simp
  then have "ssfu_getMeta ?u \<bind> (\<lambda>meta. Some (case Timestamp_Forward (spm_MaxWithdrawn meta) now of (w, changed) \<Rightarrow>
      if changed then ?u\<lparr>su_inProgress := (su_inProgress ?u)\<lparr>sps_meta := meta\<lparr>spm_MaxWithdrawn := w\<rparr>\<rparr>\<rparr> else ?u)) = Some u'"
    using assms(1) unfolding withdraw_one_def Let_def prod.case new by (simp add: case_prod_beta)
  then obtain meta where meta: "ssfu_getMeta ?u = Some meta"
    and u': "u' = (case Timestamp_Forward (spm_MaxWithdrawn meta) now of (w, changed) \<Rightarrow>
      if changed then ?u\<lparr>su_inProgress := (su_inProgress ?u)\<lparr>sps_meta := meta\<lparr>spm_MaxWithdrawn := w\<rparr>\<rparr>\<rparr> else ?u)"
    unfolding bind_Some_iff by blast
  have "meta = sps_meta (eff_sup u)"
    using getMeta_eff(1) [OF meta] by (simp add: eff_sup_def)
  moreover have "meta\<lparr>spm_MaxWithdrawn := now\<rparr> \<noteq> SupporterMeta_zero" if "spm_MaxWithdrawn meta < now"
    using that assms(2) \<open>meta = _\<close> by (auto simp: SupporterMeta_zero_def dest!: arg_cong [where f = spm_MaxWithdrawn])
  moreover have "sps_supportFor (eff_sup ?u) = fmupd j ?new (sps_supportFor (eff_sup u))"
    by (auto simp: eff_sup_def intro!: fmap_ext)
  ultimately show "eff_sup u' = \<lparr>sps_meta = \<lparr>spm_MaxWithdrawn = max (spm_MaxWithdrawn (sps_meta (eff_sup u))) now\<rparr>,
      sps_supportFor = fmupd j ?new (sps_supportFor (eff_sup u))\<rparr>"
    unfolding u' by (cases meta) (auto simp: Timestamp_Forward_def less_Timestamp_def [symmetric] eff_sup_def max_def)
  show "su_checkedIn u' = su_checkedIn u"
    unfolding u' by (auto simp: Timestamp_Forward_def)
qed

lemma withdraw_one_idle:
  assumes "\<not> (ss_Expiration ss \<noteq> never \<and> ss_Expiration ss \<le> now)"
  shows "withdraw_one now (j, ss) u = Some u"
  using assms by (auto simp: withdraw_one_def maybeWithdrawSupport_def Timestamp_IsEmpty_def less_eq_Timestamp_def)

lemma withdraw_one_steps:
  assumes "withdraw_one now (j, ss) u = Some u'" and "fmlookup (sps_supportFor (eff_sup u)) j = Some ss"
    and "sup_ok (eff_sup u)" and "int64 (ss_Epoch ss + 1)"
  shows "sup_ok (eff_sup u')" and "i_steps i (view_of (eff_sup u) req, N) (view_of (eff_sup u') req, N)"
    and "su_checkedIn u' = su_checkedIn u"
    and "k \<noteq> j \<Longrightarrow> fmlookup (sps_supportFor (eff_sup u')) k = fmlookup (sps_supportFor (eff_sup u)) k"
proof -
  have "sup_ok (eff_sup u') \<and> i_steps i (view_of (eff_sup u) req, N) (view_of (eff_sup u') req, N)
    \<and> su_checkedIn u' = su_checkedIn u
    \<and> (k \<noteq> j \<longrightarrow> fmlookup (sps_supportFor (eff_sup u')) k = fmlookup (sps_supportFor (eff_sup u)) k)"
  proof (cases "ss_Expiration ss \<noteq> never \<and> ss_Expiration ss \<le> now")
    case True
    have "never \<le> spm_MaxWithdrawn (sps_meta (eff_sup u))"
      using assms(3) by (simp add: sup_ok_def)
    note eff = withdraw_one_eff [OF assms(1) this True assms(4)]
    have "vw_for (view_of (eff_sup u) req) j = (ss_Epoch ss, ss_Expiration ss)"
      using assms(2) by (simp add: view_of_def for_of_def ss_pair_def)
    from vw_step.withdraw [OF this True [THEN conjunct1] True [THEN conjunct2], of i N]
    have "i_steps i (view_of (eff_sup u) req, N) (view_of (eff_sup u') req, N)"
      unfolding eff by (intro i_step_silent) (simp add: view_of_def for_of_fmupd ss_pair_def)
    with eff assms(2,3) show ?thesis
      by (auto simp: sup_ok_def sup_wf_def le_max_iff_disj)
  next
    case False
    with assms withdraw_one_idle [OF False] show ?thesis by simp
  qed
  then show "sup_ok (eff_sup u')" and "i_steps i (view_of (eff_sup u) req, N) (view_of (eff_sup u') req, N)"
    and "su_checkedIn u' = su_checkedIn u"
    and "k \<noteq> j \<Longrightarrow> fmlookup (sps_supportFor (eff_sup u')) k = fmlookup (sps_supportFor (eff_sup u)) k"
    by blast+
qed

lemma withdraw_all_steps:
  assumes "foldM (withdraw_one now) es u = Some u'" and "distinct (map fst es)"
    and "\<And>j ss. (j, ss) \<in> set es \<Longrightarrow> fmlookup (sps_supportFor (eff_sup u)) j = Some ss \<and> int64 (ss_Epoch ss + 1)"
    and "sup_ok (eff_sup u)"
  shows "sup_ok (eff_sup u') \<and> i_steps i (view_of (eff_sup u) req, N) (view_of (eff_sup u') req, N)
    \<and> su_checkedIn u' = su_checkedIn u"
  using assms
proof (induction es arbitrary: u)
  case Nil
  then show ?case by simp
next
  case (Cons e es)
  obtain j ss where e: "e = (j, ss)" by (cases e)
  with Cons.prems(1) obtain u1 where one: "withdraw_one now (j, ss) u = Some u1"
    and rest: "foldM (withdraw_one now) es u1 = Some u'"
    by (auto simp: go_simps)
  have j: "fmlookup (sps_supportFor (eff_sup u)) j = Some ss" "int64 (ss_Epoch ss + 1)"
    using Cons.prems(3) [of j ss] e by simp_all
  note first = withdraw_one_steps [OF one j(1) Cons.prems(4) j(2)]
  have "fmlookup (sps_supportFor (eff_sup u1)) k = Some s \<and> int64 (ss_Epoch s + 1)" if "(k, s) \<in> set es" for k s
  proof -
    have "k \<noteq> j" using that Cons.prems(2) e by force
    with first(4) Cons.prems(3) [of k s] that show ?thesis by simp
  qed
  moreover have "distinct (map fst es)" using Cons.prems(2) by simp
  ultimately show ?case
    using Cons.IH [OF rest _ _ first(1)] first(2,3) by (metis rtranclp_trans)
qed

end
