(* ===== verification/Support_Cluster.thy ===== *)
theory Support_Cluster
  imports Support_Run
begin

text \<open>
  Runs of managers: every action of a \<open>SupportManager\<close> keeps its disk in step with its
  memory and is a sequence of steps of the protocol, and so is a crash followed by a
  restart from the disk. The promise of the protocol then holds for the answers of
  \<open>SupportFor\<close> and \<open>SupportFrom\<close> in every run of a group of stores.
\<close>

section \<open>Checking in\<close>

lemma map_of_entries [simp]: "map_of (entries_of m) i = fmlookup m i"
proof (cases "fmlookup m i")
  case None
  then show ?thesis
    by (force simp: map_of_eq_None_iff)
next
  case (Some x)
  then show ?thesis
    by (simp add: map_of_eq_Some_iff [OF distinct_entries_of])
qed

lemma checkIn_one_iff:
  "checkIn_one (i, rs) st = Some st' \<longleftrightarrow> (\<exists>old. fmlookup (rqs_supportFrom st) i = Some old
     \<and> st' = st\<lparr>rqs_supportFrom := fmupd i (old\<lparr>rq_state := rq_state rs\<rparr>) (rqs_supportFrom st)\<rparr>)"
  by (auto simp: checkIn_one_def go_simps)

lemma checkIn_all:
  assumes "foldM checkIn_one es st = Some st'" and "distinct (map fst es)"
  shows "rqs_meta st' = rqs_meta st" and "fmdom (rqs_supportFrom st') = fmdom (rqs_supportFrom st)"
    and "fst ` set es \<subseteq> fset (fmdom (rqs_supportFrom st))"
    and "map_option rq_state (fmlookup (rqs_supportFrom st') j) =
      (case map_of es j of Some rs \<Rightarrow> Some (rq_state rs) | None \<Rightarrow> map_option rq_state (fmlookup (rqs_supportFrom st) j))"
proof -
  have "rqs_meta st' = rqs_meta st \<and> fmdom (rqs_supportFrom st') = fmdom (rqs_supportFrom st)
    \<and> fst ` set es \<subseteq> fset (fmdom (rqs_supportFrom st))
    \<and> (\<forall>j. map_option rq_state (fmlookup (rqs_supportFrom st') j) =
      (case map_of es j of Some rs \<Rightarrow> Some (rq_state rs) | None \<Rightarrow> map_option rq_state (fmlookup (rqs_supportFrom st) j)))"
    using assms
  proof (induction es arbitrary: st)
    case Nil
    then show ?case by simp
  next
    case (Cons e es)
    obtain i rs where e: "e = (i, rs)" by (cases e)
    obtain old where old: "fmlookup (rqs_supportFrom st) i = Some old"
      and rest: "foldM checkIn_one es (st\<lparr>rqs_supportFrom := fmupd i (old\<lparr>rq_state := rq_state rs\<rparr>) (rqs_supportFrom st)\<rparr>) = Some st'"
      using Cons.prems(1) e by (auto simp: checkIn_one_iff go_simps)
    have "i |\<in>| fmdom (rqs_supportFrom st)" using old by (rule fmdomI)
    moreover have "map_of es i = None"
      using Cons.prems(2) e by (simp add: map_of_eq_None_iff)
    ultimately show ?case
      using Cons.IH [OF rest] Cons.prems(2) e by (auto simp: finsert_absorb split: option.split)
  qed
  then show "rqs_meta st' = rqs_meta st" and "fmdom (rqs_supportFrom st') = fmdom (rqs_supportFrom st)"
    and "fst ` set es \<subseteq> fset (fmdom (rqs_supportFrom st))"
    and "map_option rq_state (fmlookup (rqs_supportFrom st') j) =
      (case map_of es j of Some rs \<Rightarrow> Some (rq_state rs) | None \<Rightarrow> map_option rq_state (fmlookup (rqs_supportFrom st) j))"
    by blast+
qed

definition states_of :: "requesterState \<Rightarrow> StoreIdent \<Rightarrow> SupportState option" where
  "states_of st j = map_option rq_state (fmlookup (rqs_supportFrom st) j)"

lemma from_of_states: "from_of st j = map_option ss_pair (states_of st j)"
  by (simp add: from_of_def states_of_def option.map_comp comp_def)

lemma req_wf_states:
  "req_wf st \<longleftrightarrow> (\<forall>j ss. states_of st j = Some ss \<longrightarrow> ss_Target ss = j)
     \<and> 0 \<le> rm_MaxEpoch (rqs_meta st) \<and> never \<le> rm_MaxRequested (rqs_meta st)"
  by (auto simp: req_wf_def states_of_def)

lemma rsh_checkInUpdate_eff:
  assumes "rsh_checkInUpdate w rsh = Some rsh'"
  shows "states_of (rsh_requesterState rsh') = states_of (eff_req w)"
    and "rqs_meta (rsh_requesterState rsh') = rqs_meta (eff_req w)"
    and "rsh_update rsh' = Some requesterState_zero" and "upd_dom w"
proof -
  let ?changed = "rqs_supportFrom (ru_inProgress w)"
  let ?st = "(ru_checkedIn w)\<lparr>rqs_meta := rqs_meta (eff_req w)\<rparr>"
  have entries: "entries_of fmempty = []"
    by (simp add: entries_of_def List.map_filter_def)
  have same: "(ru_checkedIn w)\<lparr>rqs_meta := rqs_meta (ru_checkedIn w)\<rparr> = ru_checkedIn w"
    by simp
  obtain st where st: "foldM checkIn_one (entries_of ?changed) ?st = Some st"
    and rsh': "rsh' = rsh\<lparr>rsh_requesterState := st, rsh_update := Some requesterState_zero\<rparr>"
    using assms unfolding rsh_checkInUpdate_def eff_req_def
    by (auto simp: Let_def go_simps entries same split: if_splits)
  note all = checkIn_all [OF st distinct_entries_of]
  show "states_of (rsh_requesterState rsh') = states_of (eff_req w)"
    unfolding rsh' using all(4)
    by (auto simp: states_of_def eff_req_def fun_eq_iff fmlookup_add fmdom_notD fmdomI split: option.splits)
  show "rqs_meta (rsh_requesterState rsh') = rqs_meta (eff_req w)" and "rsh_update rsh' = Some requesterState_zero"
    using all(1) rsh' by simp_all
  show "upd_dom w"
    using all(3) unfolding upd_dom_def
    by (metis (no_types, lifting) domI fmdom'I fmdomE fsubsetI image_subset_iff set_entries_of requesterState.select_convs(2)
      requesterState.surjective requesterState.update_convs(1) fst_conv)
qed

lemma eff_clean [simp]:
  "eff_sup \<lparr>su_checkedIn = st, su_inProgress = supporterState_zero\<rparr> = st"
  "eff_req \<lparr>ru_checkedIn = req, ru_inProgress = requesterState_zero\<rparr> = req"
  by (simp_all add: eff_sup_def eff_req_def supporterState_zero_def requesterState_zero_def)

section \<open>Managers\<close>

abbreviation mgr_sup :: "SupportManager \<Rightarrow> supporterState" where
  "mgr_sup sm \<equiv> ssh_supporterState (sm_supporter sm)"

abbreviation mgr_req :: "SupportManager \<Rightarrow> requesterState" where
  "mgr_req sm \<equiv> rsh_requesterState (sm_requester sm)"

definition mgr_view :: "SupportManager \<Rightarrow> sl_view" where
  "mgr_view sm = view_of (mgr_sup sm) (mgr_req sm)"

text \<open>
  A manager between two actions: an update that can be checked out is empty, the disk
  mirrors the memory, and what is in the receive queue has been sent to the store.
\<close>

definition mgr_ok :: "StoreIdent \<Rightarrow> SlMessage set \<Rightarrow> SupportManager \<Rightarrow> bool" where
  "mgr_ok i N sm \<longleftrightarrow> sm_storeID sm = i
     \<and> (\<forall>m \<in> set (sm_receiveQueue sm). m \<in> N \<and> slm_To m = i)
     \<and> ssh_update (sm_supporter sm) \<in> {None, Some supporterState_zero}
     \<and> rsh_update (sm_requester sm) \<in> {None, Some requesterState_zero}
     \<and> sup_ok (mgr_sup sm) \<and> req_wf (mgr_req sm)
     \<and> sup_disk (sm_disk sm) (mgr_sup sm) \<and> dk_RequesterMeta (sm_disk sm) = rqs_meta (mgr_req sm)"

text \<open>What an action does that sends \<open>out\<close>.\<close>

definition mgr_acts :: "StoreIdent \<Rightarrow> SlMessage set \<Rightarrow> SupportManager \<Rightarrow> SupportManager \<Rightarrow> SlMessage list \<Rightarrow> bool" where
  "mgr_acts i N sm sm' out \<longleftrightarrow> mgr_ok i (N \<union> set out) sm' \<and> (\<forall>m \<in> set out. slm_From m = i)
     \<and> i_steps i (mgr_view sm, N) (mgr_view sm', N \<union> set out)"

lemma mgr_ok_mono: "mgr_ok i N sm \<Longrightarrow> N \<subseteq> N' \<Longrightarrow> mgr_ok i N' sm"
  unfolding mgr_ok_def by blast

lemma mgr_acts_trans:
  "mgr_acts i N sm1 sm2 out \<Longrightarrow> mgr_acts i (N \<union> set out) sm2 sm3 out' \<Longrightarrow> mgr_acts i N sm1 sm3 (out @ out')"
  unfolding mgr_acts_def by (auto simp: Un_assoc intro: rtranclp_trans)

lemma mgr_acts_refl: "mgr_ok i N sm \<Longrightarrow> mgr_acts i N sm sm []"
  by (simp add: mgr_acts_def)

text \<open>
  A change that leaves the support and the metadata as they are, possibly with an update
  that stays checked out.
\<close>

lemma mgr_acts_idle:
  assumes "mgr_ok i N sm" and "sm_storeID sm' = sm_storeID sm" and "set (sm_receiveQueue sm') \<subseteq> set (sm_receiveQueue sm)"
    and "sm_disk sm' = sm_disk sm" and "mgr_sup sm' = mgr_sup sm"
    and "states_of (mgr_req sm') = states_of (mgr_req sm)" and "rqs_meta (mgr_req sm') = rqs_meta (mgr_req sm)"
    and "ssh_update (sm_supporter sm') \<in> {None, Some supporterState_zero}"
    and "rsh_update (sm_requester sm') \<in> {None, Some requesterState_zero}"
  shows "mgr_acts i N sm sm' []"
proof -
  have "mgr_view sm' = mgr_view sm"
    using assms(5-7) by (simp add: mgr_view_def view_of_def fun_eq_iff from_of_states)
  with assms show ?thesis
    unfolding mgr_acts_def mgr_ok_def req_wf_states by auto
qed

lemma view_of_states:
  "states_of req = states_of req' \<Longrightarrow> rqs_meta req = rqs_meta req' \<Longrightarrow> view_of st req = view_of st req'"
  by (simp add: view_of_def fun_eq_iff from_of_states)

lemma ssh_checkOutUpdate_clean:
  assumes "ssh_checkOutUpdate ssh = Some (ssh', u)" and "ssh_update ssh \<in> {None, Some supporterState_zero}"
  shows "u = \<lparr>su_checkedIn = ssh_supporterState ssh, su_inProgress = supporterState_zero\<rparr>"
    and "ssh' = ssh\<lparr>ssh_update := None\<rparr>"
  using assms by (auto simp: ssh_checkOutUpdate_def go_simps)

lemma rsh_checkOutUpdate_clean:
  assumes "rsh_checkOutUpdate rsh = Some (rsh', w)" and "rsh_update rsh \<in> {None, Some requesterState_zero}"
  shows "w = \<lparr>ru_checkedIn = rsh_requesterState rsh, ru_inProgress = requesterState_zero\<rparr>"
    and "rsh' = rsh\<lparr>rsh_update := None\<rparr>"
  using assms by (auto simp: rsh_checkOutUpdate_def go_simps)

lemma rsfu_write_reliable:
  assumes "rsfu_write reliable_engine w d = Some (d', err)" and "dk_RequesterMeta d = rqs_meta (ru_checkedIn w)"
  shows "\<not> err" and "d' = d\<lparr>dk_RequesterMeta := rqs_meta (eff_req w)\<rparr>"
  using assms
  by (auto simp: rsfu_write_def writeRequesterMeta_def put_def eff_req_def go_simps split: if_splits)

lemma sup_disk_requester [simp]: "sup_disk (d\<lparr>dk_RequesterMeta := rm\<rparr>) st = sup_disk d st"
  by (simp add: sup_disk_def)

subsection \<open>Handling messages\<close>

lemma handleMessages_acts:
  assumes "SupportManager_handleMessages reliable_engine commit msgs sm = Some (sm', out)"
    and "mgr_ok i N sm" and "\<And>m. m \<in> set msgs \<Longrightarrow> m \<in> N \<and> slm_To m = i" and "senders_ok N"
  shows "mgr_acts i N sm sm' out"
proof -
  have ok: "ssh_update (sm_supporter sm) \<in> {None, Some supporterState_zero}"
    "rsh_update (sm_requester sm) \<in> {None, Some requesterState_zero}"
    "sup_ok (mgr_sup sm)" "req_wf (mgr_req sm)" "sup_disk (sm_disk sm) (mgr_sup sm)"
    "dk_RequesterMeta (sm_disk sm) = rqs_meta (mgr_req sm)"
    using assms(2) by (simp_all add: mgr_ok_def)
  obtain rsh w ssh u w' u' resps b1 e1 b2 e2 where
    out: "rsh_checkOutUpdate (sm_requester sm) = Some (rsh, w)" "ssh_checkOutUpdate (sm_supporter sm) = Some (ssh, u)"
    and all: "foldM handle_one msgs (w, u, []) = Some (w', u', resps)"
    and b1: "rsfu_write reliable_engine w' (sm_disk sm) = Some (b1, e1)"
    and b2: "ssfu_write reliable_engine u' b1 = Some (b2, e2)"
    and fin: "\<not> commit \<and> sm' = sm\<lparr>sm_requester := rsh, sm_supporter := ssh\<rparr> \<and> out = [] \<or>
      (\<exists>rsh2 ssh2. commit \<and> rsh_checkInUpdate w' rsh = Some rsh2 \<and> ssh_checkInUpdate u' ssh = Some ssh2
        \<and> sm' = sm\<lparr>sm_requester := rsh2, sm_supporter := ssh2, sm_disk := b2\<rparr> \<and> out = resps)"
    using assms(1) unfolding SupportManager_handleMessages_def
    by (auto simp: bind_Some_iff split: if_splits)
  note w = rsh_checkOutUpdate_clean [OF out(1) ok(2)] and u = ssh_checkOutUpdate_clean [OF out(2) ok(1)]
  show ?thesis
  proof (cases commit)
    case False
    then have "sm' = sm\<lparr>sm_requester := rsh, sm_supporter := ssh\<rparr>" and "out = []"
      using fin by blast+
    then show ?thesis
      using w(2) u(2) by (simp, intro mgr_acts_idle [OF assms(2)]) simp_all
  next
    case True
    then obtain rsh2 ssh2 where rsh2: "rsh_checkInUpdate w' rsh = Some rsh2" and ssh2: "ssh_checkInUpdate u' ssh = Some ssh2"
      and sm': "sm' = sm\<lparr>sm_requester := rsh2, sm_supporter := ssh2, sm_disk := b2\<rparr>" and resps: "out = resps"
      using fin by blast
    note rsh2 = rsh_checkInUpdate_eff [OF rsh2] and ssh2 = ssh_checkInUpdate_eff [OF ssh2]
    have "batch_ok i u w (set [])"
      using ok w u by (simp add: batch_ok_def)
    from handle_all_steps [OF all this rsh2(4) assms(3,4)]
    have batch: "batch_ok i u' w' (set resps)"
      and steps: "i_steps i (eff_view u w, N) (eff_view u' w', N \<union> set resps)"
      and checked: "su_checkedIn u' = mgr_sup sm" "ru_checkedIn w' = mgr_req sm"
      using w u by simp_all
    have d1: "b1 = (sm_disk sm)\<lparr>dk_RequesterMeta := rqs_meta (eff_req w')\<rparr>"
      using rsfu_write_reliable [OF b1] ok(6) checked by simp
    have wf: "sup_wf (eff_sup u')" using batch by (simp add: batch_ok_def sup_ok_def)
    have d2: "sup_disk b2 (eff_sup u')" "dk_RequesterMeta b2 = dk_RequesterMeta b1"
      using ssfu_write_reliable [OF b2 wf] ok(5) checked d1 by simp_all
    have view: "mgr_view sm' = eff_view u' w'" "mgr_view sm = eff_view u w"
      using view_of_states [OF rsh2(1,2)] ssh2 sm' w u by (simp_all add: mgr_view_def)
    have "mgr_ok i (N \<union> set out) sm'"
      using assms(2) batch rsh2 ssh2 d1 d2 sm' unfolding mgr_ok_def batch_ok_def req_wf_states by auto
    with steps batch view resps show ?thesis
      by (simp add: mgr_acts_def batch_ok_def)
  qed
qed

subsection \<open>Withdrawing support\<close>

lemma withdrawSupport_acts:
  assumes "SupportManager_withdrawSupport reliable_engine p sm = Some sm'"
    and "mgr_ok i N sm" and "epochs_room (mgr_sup sm) (mgr_req sm)"
  shows "mgr_acts i N sm sm' []"
proof -
  have ok: "ssh_update (sm_supporter sm) \<in> {None, Some supporterState_zero}" "sup_ok (mgr_sup sm)"
    "sup_disk (sm_disk sm) (mgr_sup sm)"
    using assms(2) by (simp_all add: mgr_ok_def)
  obtain clock now where "Clock_NowAsClockTimestamp p (sm_clock sm) = Some (clock, now)"
    and cases: "sm' = sm\<lparr>sm_clock := clock\<rparr> \<or> (\<exists>ssh u u' d err ssh2. ssh_checkOutUpdate (sm_supporter sm) = Some (ssh, u)
      \<and> ssfu_withdrawSupport now u = Some u' \<and> ssfu_write reliable_engine u' (sm_disk sm) = Some (d, err)
      \<and> ssh_checkInUpdate u' ssh = Some ssh2 \<and> sm' = sm\<lparr>sm_clock := clock, sm_supporter := ssh2, sm_disk := d\<rparr>)"
    using assms(1) unfolding SupportManager_withdrawSupport_def
    by (auto simp: bind_Some_iff Let_def split: if_splits)
  from cases show ?thesis
  proof
    assume "sm' = sm\<lparr>sm_clock := clock\<rparr>"
    with assms(2) show ?thesis
      by (intro mgr_acts_idle) (auto simp: mgr_ok_def)
  next
    assume "\<exists>ssh u u' d err ssh2. ssh_checkOutUpdate (sm_supporter sm) = Some (ssh, u)
      \<and> ssfu_withdrawSupport now u = Some u' \<and> ssfu_write reliable_engine u' (sm_disk sm) = Some (d, err)
      \<and> ssh_checkInUpdate u' ssh = Some ssh2 \<and> sm' = sm\<lparr>sm_clock := clock, sm_supporter := ssh2, sm_disk := d\<rparr>"
    then obtain ssh u u' d err ssh2 where out: "ssh_checkOutUpdate (sm_supporter sm) = Some (ssh, u)"
      and withdrawn: "ssfu_withdrawSupport now u = Some u'" and d: "ssfu_write reliable_engine u' (sm_disk sm) = Some (d, err)"
      and checkIn: "ssh_checkInUpdate u' ssh = Some ssh2"
      and sm': "sm' = sm\<lparr>sm_clock := clock, sm_supporter := ssh2, sm_disk := d\<rparr>"
      by blast
    note u = ssh_checkOutUpdate_clean [OF out ok(1)] and ssh2 = ssh_checkInUpdate_eff [OF checkIn]
    have all: "foldM (withdraw_one now) (entries_of (sps_supportFor (mgr_sup sm))) u = Some u'"
      using withdrawn u by (auto simp: ssfu_withdrawSupport_def go_simps)
    have "fmlookup (sps_supportFor (eff_sup u)) j = Some ss \<and> int64 (ss_Epoch ss + 1)"
      if "(j, ss) \<in> set (entries_of (sps_supportFor (mgr_sup sm)))" for j ss
      using that assms(3) u by (auto simp: epochs_room_def)
    note steps = withdraw_all_steps [OF all distinct_entries_of this, of i "mgr_req sm" N]
    have u': "sup_ok (eff_sup u')" "su_checkedIn u' = mgr_sup sm"
      and view: "i_steps i (mgr_view sm, N) (mgr_view sm', N)"
      using steps ok(2) u ssh2 sm' by (simp_all add: mgr_view_def)
    have "sup_disk d (eff_sup u')" "dk_RequesterMeta d = dk_RequesterMeta (sm_disk sm)"
      using ssfu_write_reliable [OF d] u' ok(3) by (simp_all add: sup_ok_def)
    with u' view ssh2 sm' assms(2) show ?thesis
      by (auto simp: mgr_acts_def mgr_ok_def)
  qed
qed

subsection \<open>Sending heartbeats\<close>

lemma eff_req_meta:
  "rqs_meta (ru_inProgress w) \<noteq> RequesterMeta_zero \<Longrightarrow> rqs_meta (eff_req w) = rqs_meta (ru_inProgress w)"
  by (simp add: eff_req_def)

lemma getHeartbeatsToSend_eff:
  assumes "rsfu_getHeartbeatsToSend i now interval w = Some (w', hbs)" and "req_wf (eff_req w)"
    and "rqs_supportFrom (ru_inProgress w) = fmempty"
  obtains t where "rqs_meta (eff_req w') = (rqs_meta (eff_req w))\<lparr>rm_MaxRequested := max (rm_MaxRequested (rqs_meta (eff_req w))) t\<rparr>"
    and "ru_checkedIn w' = ru_checkedIn w" and "rqs_supportFrom (ru_inProgress w') = fmempty"
    and "hbs = map (\<lambda>(j, rs). sl_heartbeat i j (ss_Epoch (rq_state rs), rm_MaxRequested (rqs_meta (eff_req w'))))
      (entries_of (rqs_supportFrom (ru_checkedIn w)))"
proof -
  let ?t = "Timestamp_Add now interval 0"
  let ?meta = "rqs_meta (eff_req w)"
  obtain meta where upd: "rsfu_getMeta w = Some meta"
    and w': "w' = (case Timestamp_Forward (rm_MaxRequested meta) ?t of (r, changed) \<Rightarrow>
      if changed then w\<lparr>ru_inProgress := (ru_inProgress w)\<lparr>rqs_meta := meta\<lparr>rm_MaxRequested := r\<rparr>\<rparr>\<rparr> else w)"
    and gen: "rsfu_generateHeartbeats i w' = Some hbs"
    using assms(1) by (auto simp: rsfu_getHeartbeatsToSend_def rsfu_updateMaxRequested_def Let_def go_simps case_prod_beta)
  have meta: "meta = ?meta" by (rule getMeta_eff(2) [OF upd])
  have same: "ru_checkedIn w' = ru_checkedIn w" "rqs_supportFrom (ru_inProgress w') = fmempty"
    using w' assms(3) by (auto simp: Timestamp_Forward_def)
  have fwd: "rqs_meta (eff_req w') = ?meta\<lparr>rm_MaxRequested := max (rm_MaxRequested ?meta) ?t\<rparr>"
  proof (cases "rm_MaxRequested ?meta < ?t")
    case True
    then have "rqs_meta (ru_inProgress w') = ?meta\<lparr>rm_MaxRequested := ?t\<rparr>"
      using w' meta by (simp add: Timestamp_Forward_def less_Timestamp_def)
    moreover have "?meta\<lparr>rm_MaxRequested := ?t\<rparr> \<noteq> RequesterMeta_zero"
      using True assms(2) by (auto simp: req_wf_def RequesterMeta_zero_def dest!: arg_cong [where f = rm_MaxRequested])
    ultimately have "rqs_meta (eff_req w') = ?meta\<lparr>rm_MaxRequested := ?t\<rparr>"
      by (simp add: eff_req_meta)
    with True show ?thesis by (simp add: max_def)
  next
    case False
    then have "w' = w" using w' meta by (simp add: Timestamp_Forward_def less_Timestamp_def)
    with False show ?thesis by (simp add: max_def)
  qed
  obtain meta' where "rsfu_getMeta w' = Some meta'"
    and "hbs = map (\<lambda>(j, rs). sl_heartbeat i (ss_Target (rq_state rs)) (ss_Epoch (rq_state rs), rm_MaxRequested meta'))
       (entries_of (rqs_supportFrom (ru_checkedIn w')))"
    using gen unfolding rsfu_generateHeartbeats_def sl_heartbeat_def fst_conv snd_conv
    by (auto simp: go_simps)
  moreover have "ss_Target (rq_state rs) = j" if "(j, rs) \<in> set (entries_of (rqs_supportFrom (ru_checkedIn w)))" for j rs
    using that assms(2,3) by (auto simp: req_wf_def eff_req_def)
  ultimately have "hbs = map (\<lambda>(j, rs). sl_heartbeat i j (ss_Epoch (rq_state rs), rm_MaxRequested (rqs_meta (eff_req w'))))
      (entries_of (rqs_supportFrom (ru_checkedIn w)))"
    using same(1) getMeta_eff(2) [of w'] by auto
  with that fwd same show thesis by blast
qed

lemma send_all_steps:
  assumes "\<And>j e. (j, e) \<in> set es \<Longrightarrow> \<exists>x. vw_from v j = Some (e, x)"
  shows "i_steps i (v, N) (v, N \<union> set (map (\<lambda>(j, e). sl_heartbeat i j (e, vw_maxRequested v)) es))"
  using assms
proof (induction es arbitrary: N)
  case Nil
  then show ?case by simp
next
  case (Cons p es)
  obtain j e where p: "p = (j, e)" by (cases p)
  then obtain x where "vw_from v j = Some (e, x)" using Cons.prems [of j e] by auto
  from i_step_sends [OF vw_step.send [OF this]]
  have "i_steps i (v, N) (v, N \<union> {sl_heartbeat i j (e, vw_maxRequested v)})" .
  also have "i_steps i (v, N \<union> {sl_heartbeat i j (e, vw_maxRequested v)}) (v, N \<union> {sl_heartbeat i j (e, vw_maxRequested v)}
      \<union> set (map (\<lambda>(j, e). sl_heartbeat i j (e, vw_maxRequested v)) es))"
    by (rule Cons.IH) (use Cons.prems in auto)
  finally show ?case using p by (simp add: ac_simps)
qed

lemma sendHeartbeats_acts:
  assumes "SupportManager_sendHeartbeats reliable_engine p sm = Some (sm', out)" and "mgr_ok i N sm"
  shows "mgr_acts i N sm sm' out"
proof -
  have ok: "rsh_update (sm_requester sm) \<in> {None, Some requesterState_zero}" "req_wf (mgr_req sm)"
    "dk_RequesterMeta (sm_disk sm) = rqs_meta (mgr_req sm)" "sm_storeID sm = i"
    using assms(2) by (simp_all add: mgr_ok_def)
  obtain rsh w clock now w' hbs d err where checkOut: "rsh_checkOutUpdate (sm_requester sm) = Some (rsh, w)"
    and hbs: "rsfu_getHeartbeatsToSend i now (op_LivenessInterval (sm_options sm)) w = Some (w', hbs)"
    and d: "rsfu_write reliable_engine w' (sm_disk sm) = Some (d, err)"
    and fin: "(if err then Some (sm\<lparr>sm_clock := clock, sm_requester := rsh, sm_disk := d\<rparr>, [])
      else rsh_checkInUpdate w' (sm_requester (sm\<lparr>sm_clock := clock, sm_requester := rsh, sm_disk := d\<rparr>))
        \<bind> (\<lambda>rsh'. Some (sm\<lparr>sm_clock := clock, sm_requester := rsh, sm_disk := d, sm_requester := rsh'\<rparr>, hbs)))
      = Some (sm', out)"
    using assms(1) ok(4)
    unfolding SupportManager_sendHeartbeats_def Let_def bind_Some_iff split_paired_Ex prod.case by blast
  note w = rsh_checkOutUpdate_clean [OF checkOut ok(1)]
  have "req_wf (eff_req w)"
    using w ok by simp
  moreover have "rqs_supportFrom (ru_inProgress w) = fmempty"
    using w by (simp add: requesterState_zero_def)
  ultimately obtain t where meta: "rqs_meta (eff_req w') = (rqs_meta (mgr_req sm))
      \<lparr>rm_MaxRequested := max (rm_MaxRequested (rqs_meta (mgr_req sm))) t\<rparr>"
    and same: "ru_checkedIn w' = mgr_req sm" "rqs_supportFrom (ru_inProgress w') = fmempty"
    and out': "hbs = map (\<lambda>(j, rs). sl_heartbeat i j (ss_Epoch (rq_state rs), rm_MaxRequested (rqs_meta (eff_req w'))))
      (entries_of (rqs_supportFrom (mgr_req sm)))"
    using w by (elim getHeartbeatsToSend_eff [OF hbs]) auto
  have "\<not> err" and d': "d = (sm_disk sm)\<lparr>dk_RequesterMeta := rqs_meta (eff_req w')\<rparr>"
    using rsfu_write_reliable [OF d] ok(3) same(1) by simp_all
  with fin obtain rsh2 where checkIn: "rsh_checkInUpdate w' rsh = Some rsh2"
    and sm': "sm' = sm\<lparr>sm_clock := clock, sm_disk := d, sm_requester := rsh2\<rparr>" and out: "out = hbs"
    by (auto simp: bind_Some_iff)
  note rsh2 = rsh_checkInUpdate_eff [OF checkIn]
  have states: "states_of (mgr_req sm') = states_of (mgr_req sm)"
    using rsh2(1) same sm' by (simp add: states_of_def fun_eq_iff eff_req_def)
  have view: "mgr_view sm' = (mgr_view sm)\<lparr>vw_maxRequested := max (vw_maxRequested (mgr_view sm)) t\<rparr>"
    using states rsh2(2) meta sm' by (simp add: mgr_view_def view_of_def fun_eq_iff from_of_states)
  let ?es = "map (\<lambda>(j, rs). (j, ss_Epoch (rq_state rs))) (entries_of (rqs_supportFrom (mgr_req sm)))"
  have known: "\<exists>x. vw_from (mgr_view sm') j = Some (e, x)" if "(j, e) \<in> set ?es" for j e
    using that view by (auto simp: mgr_view_def view_of_def from_of_def ss_pair_def)
  have sent: "out = map (\<lambda>(j, e). sl_heartbeat i j (e, vw_maxRequested (mgr_view sm'))) ?es"
    using out out' rsh2(2) sm' by (auto simp: mgr_view_def view_of_def)
  have "i_steps i (mgr_view sm', N) (mgr_view sm', N \<union> set out)"
    unfolding sent by (rule send_all_steps) (rule known)
  with i_step_silent [OF vw_step.request] have "i_steps i (mgr_view sm, N) (mgr_view sm', N \<union> set out)"
    unfolding view by (rule rtranclp_trans)
  moreover have "\<forall>m \<in> set out. slm_From m = i"
    using out out' by (auto simp: sl_heartbeat_def)
  moreover have "mgr_ok i (N \<union> set out) sm'"
    using assms(2) rsh2 states meta d' sm' unfolding mgr_ok_def req_wf_states by (auto simp: le_max_iff_disj)
  ultimately show ?thesis by (simp add: mgr_acts_def)
qed

subsection \<open>Adding and removing stores\<close>

lemma addStore_acts:
  assumes "requesterStateHandler_addStore j (sm_requester sm) = Some rsh'" and "mgr_ok i N sm"
  shows "mgr_acts i N sm (sm\<lparr>sm_requester := rsh'\<rparr>) []"
proof -
  have ok: "rsh_update (sm_requester sm) \<in> {None, Some requesterState_zero}" "req_wf (mgr_req sm)"
    using assms(2) by (simp_all add: mgr_ok_def)
  let ?new = "\<lparr>rq_state = SupportState_zero\<lparr>ss_Target := j, ss_Epoch := rm_MaxEpoch (rqs_meta (mgr_req sm))\<rparr>,
    rq_recentlyQueried = True\<rparr>"
  let ?st = "case fmlookup (rqs_supportFrom (mgr_req sm)) j of Some _ \<Rightarrow> mgr_req sm
    | None \<Rightarrow> (mgr_req sm)\<lparr>rqs_supportFrom := fmupd j ?new (rqs_supportFrom (mgr_req sm))\<rparr>"
  obtain rsh w where checkOut: "rsh_checkOutUpdate (sm_requester sm) = Some (rsh, w)"
    and checkIn: "rsh_checkInUpdate (w\<lparr>ru_checkedIn := let st = rsh_requesterState rsh in
        case fmlookup (rqs_supportFrom st) j of Some _ \<Rightarrow> st
        | None \<Rightarrow> st\<lparr>rqs_supportFrom := fmupd j
           \<lparr>rq_state = SupportState_zero\<lparr>ss_Target := j, ss_Epoch := rm_MaxEpoch (rqs_meta st)\<rparr>,
            rq_recentlyQueried = True\<rparr> (rqs_supportFrom st)\<rparr>\<rparr>)
        (rsh\<lparr>rsh_requesterState := let st = rsh_requesterState rsh in
        case fmlookup (rqs_supportFrom st) j of Some _ \<Rightarrow> st
        | None \<Rightarrow> st\<lparr>rqs_supportFrom := fmupd j
           \<lparr>rq_state = SupportState_zero\<lparr>ss_Target := j, ss_Epoch := rm_MaxEpoch (rqs_meta st)\<rparr>,
            rq_recentlyQueried = True\<rparr> (rqs_supportFrom st)\<rparr>\<rparr>) = Some rsh'"
    using assms(1) unfolding requesterStateHandler_addStore_def Let_def bind_Some_iff split_paired_Ex prod.case
    by blast
  note w = rsh_checkOutUpdate_clean [OF checkOut ok(1)]
  have st: "states_of (rsh_requesterState rsh') = states_of ?st" "rqs_meta (rsh_requesterState rsh') = rqs_meta ?st"
    "rsh_update rsh' = Some requesterState_zero"
    using rsh_checkInUpdate_eff(1-3) [OF checkIn] w by (simp_all add: Let_def)
  show ?thesis
  proof (cases "fmlookup (rqs_supportFrom (mgr_req sm)) j")
    case (Some rs)
    with st assms(2) show ?thesis
      by (intro mgr_acts_idle) (auto simp: mgr_ok_def)
  next
    case None
    have states: "states_of (rsh_requesterState rsh') = (states_of (mgr_req sm))(j \<mapsto> rq_state ?new)"
      using st(1) None by (auto simp: states_of_def fun_eq_iff)
    then have view: "mgr_view (sm\<lparr>sm_requester := rsh'\<rparr>)
        = (mgr_view sm)\<lparr>vw_from := (vw_from (mgr_view sm))(j \<mapsto> (vw_maxEpoch (mgr_view sm), never))\<rparr>"
      using st(2) None
      by (auto simp: mgr_view_def view_of_def fun_eq_iff from_of_states ss_pair_def SupportState_zero_def)
    have "vw_from (mgr_view sm) j = None"
      using None by (simp add: mgr_view_def view_of_def from_of_def)
    from i_step_silent [OF vw_step.add [OF this]]
    have "i_steps i (mgr_view sm, N) (mgr_view (sm\<lparr>sm_requester := rsh'\<rparr>), N)"
      unfolding view .
    with assms(2) st(2,3) None states show ?thesis
      unfolding mgr_acts_def mgr_ok_def req_wf_states by (auto split: if_splits)
  qed
qed

lemma maybeAddStores_acts:
  assumes "SupportManager_maybeAddStores sm = Some sm'" and "mgr_ok i N sm"
  shows "mgr_acts i N sm sm' []"
proof -
  have all: "mgr_acts i N sm (sm\<lparr>sm_requester := rsh'\<rparr>) []"
    if "foldM requesterStateHandler_addStore js (sm_requester sm) = Some rsh'" and "mgr_ok i N sm" for js rsh' sm
    using that
  proof (induction js arbitrary: sm)
    case Nil
    then show ?case by (auto simp: mgr_acts_refl)
  next
    case (Cons j js)
    then obtain rsh where one: "requesterStateHandler_addStore j (sm_requester sm) = Some rsh"
      and rest: "foldM requesterStateHandler_addStore js rsh = Some rsh'"
      by (auto simp: go_simps)
    note first = addStore_acts [OF one Cons.prems(2)]
    then have "mgr_acts i N (sm\<lparr>sm_requester := rsh\<rparr>) (sm\<lparr>sm_requester := rsh'\<rparr>) []"
      using Cons.IH [of "sm\<lparr>sm_requester := rsh\<rparr>"] rest by (simp add: mgr_acts_def)
    with first show ?case
      using mgr_acts_trans [of i N _ _ "[]" _ "[]"] by simp
  qed
  obtain rsh where rsh: "foldM requesterStateHandler_addStore (sorted_list_of_fset (sm_storesToAdd sm)) (sm_requester sm) = Some rsh"
    and sm': "sm' = sm\<lparr>sm_storesToAdd := {||}, sm_requester := rsh\<rparr>"
    using assms(1) by (auto simp: SupportManager_maybeAddStores_def drainStoresToAdd_def go_simps)
  note acts = all [OF rsh assms(2)]
  then have "mgr_acts i N (sm\<lparr>sm_requester := rsh\<rparr>) sm' []"
    unfolding sm' by (intro mgr_acts_idle) (auto simp: mgr_acts_def mgr_ok_def)
  with acts show ?thesis
    using mgr_acts_trans [of i N _ _ "[]" _ "[]"] by simp
qed

lemma removeIdleStores_acts:
  assumes "SupportManager_removeIdleStores sm = Some sm'" and "mgr_ok i N sm"
  shows "mgr_acts i N sm sm' []"
proof -
  have ok: "rsh_update (sm_requester sm) \<in> {None, Some requesterState_zero}"
    using assms(2) by (simp add: mgr_ok_def)
  let ?keep = "\<lambda>j. case fmlookup (rqs_supportFrom (mgr_req sm)) j of Some rs \<Rightarrow> rq_recentlyQueried rs | None \<Rightarrow> False"
  obtain rsh w rsh' where checkOut: "rsh_checkOutUpdate (sm_requester sm) = Some (rsh, w)"
    and checkIn: "rsh_checkInUpdate (w\<lparr>ru_checkedIn := (rsh_requesterState rsh)\<lparr>rqs_supportFrom :=
        fmmap (\<lambda>rs. rs\<lparr>rq_recentlyQueried := False\<rparr>)
          (fmfilter (\<lambda>i. case fmlookup (rqs_supportFrom (rsh_requesterState rsh)) i of Some rs \<Rightarrow> rq_recentlyQueried rs | None \<Rightarrow> False)
            (rqs_supportFrom (rsh_requesterState rsh)))\<rparr>\<rparr>)
        (rsh\<lparr>rsh_requesterState := (rsh_requesterState rsh)\<lparr>rqs_supportFrom :=
        fmmap (\<lambda>rs. rs\<lparr>rq_recentlyQueried := False\<rparr>)
          (fmfilter (\<lambda>i. case fmlookup (rqs_supportFrom (rsh_requesterState rsh)) i of Some rs \<Rightarrow> rq_recentlyQueried rs | None \<Rightarrow> False)
            (rqs_supportFrom (rsh_requesterState rsh)))\<rparr>\<rparr>) = Some rsh'"
    and sm': "sm' = sm\<lparr>sm_requester := rsh'\<rparr>"
    using assms(1)
    unfolding SupportManager_removeIdleStores_def requesterStateHandler_removeIdleStores_def Let_def bind_Some_iff
      split_paired_Ex prod.case by blast
  note w = rsh_checkOutUpdate_clean [OF checkOut ok]
  have st: "states_of (rsh_requesterState rsh') = states_of (mgr_req sm) |` {j. ?keep j}"
    "rqs_meta (rsh_requesterState rsh') = rqs_meta (mgr_req sm)" "rsh_update rsh' = Some requesterState_zero"
    using rsh_checkInUpdate_eff(1-3) [OF checkIn] w
    by (simp_all add: states_of_def fun_eq_iff restrict_map_def option.map_comp comp_def)
  then have view: "mgr_view sm' = (mgr_view sm)\<lparr>vw_from := vw_from (mgr_view sm) |` {j. ?keep j}\<rparr>"
    unfolding sm' by (simp add: mgr_view_def view_of_def fun_eq_iff from_of_states restrict_map_def)
  have "i_steps i (mgr_view sm, N) (mgr_view sm', N)"
    unfolding view by (rule i_step_silent [OF vw_step.forget])
  with assms(2) st sm' show ?thesis
    unfolding mgr_acts_def mgr_ok_def req_wf_states by (auto simp: restrict_map_def split: if_splits)
qed

subsection \<open>Restarts\<close>

lemma newEpoch_done:
  assumes "SupportManager_newEpoch reliable_engine p sm = Some (sm', RestartDone)"
    and "rsh_update (sm_requester sm) = Some requesterState_zero" and "req_wf (mgr_req sm)"
    and "dk_RequesterMeta (sm_disk sm) = rqs_meta (mgr_req sm)" and "int64 (rm_MaxEpoch (rqs_meta (mgr_req sm)) + 1)"
  shows "states_of (mgr_req sm') = states_of (mgr_req sm)"
    and "rqs_meta (mgr_req sm') = (rqs_meta (mgr_req sm))\<lparr>rm_MaxEpoch := rm_MaxEpoch (rqs_meta (mgr_req sm)) + 1\<rparr>"
    and "rsh_update (sm_requester sm') = Some requesterState_zero" and "sm_supporter sm' = sm_supporter sm"
    and "sm_disk sm' = (sm_disk sm)\<lparr>dk_RequesterMeta := rqs_meta (mgr_req sm')\<rparr>"
    and "sm_storeID sm' = sm_storeID sm" and "sm_receiveQueue sm' = sm_receiveQueue sm"
proof -
  let ?meta = "rqs_meta (mgr_req sm)"
  obtain clock now rsh w w' d err sm1 where
    sm1: "sm1 = sm\<lparr>sm_clock := clock, sm_minWithdrawalTS := Timestamp_Add now
      (op_SupportWithdrawalGracePeriod (sm_options sm)) 0\<rparr>"
    and "rsh_checkOutUpdate (sm_requester sm1) = Some (rsh, w)"
    and incr: "rsfu_incrementMaxEpoch w = Some w'" and "rsfu_write reliable_engine w' (sm_disk sm1) = Some (d, err)"
    and fin: "(if err then Some (sm1\<lparr>sm_disk := d, sm_requester := rsh\<rparr>, RestartError)
      else rsh_checkInUpdate w' rsh \<bind> (\<lambda>rsh. Some (sm1\<lparr>sm_disk := d, sm_requester := rsh\<rparr>, RestartDone)))
      = Some (sm', RestartDone)"
    using assms(1) unfolding SupportManager_newEpoch_def Let_def bind_Some_iff split_paired_Ex prod.case by blast
  then have checkOut: "rsh_checkOutUpdate (sm_requester sm) = Some (rsh, w)"
    and wr: "rsfu_write reliable_engine w' (sm_disk sm) = Some (d, err)"
    by simp_all
  have w: "w = \<lparr>ru_checkedIn = mgr_req sm, ru_inProgress = requesterState_zero\<rparr>"
    using rsh_checkOutUpdate_clean(1) [OF checkOut] assms(2) by simp
  then have w': "w' = \<lparr>ru_checkedIn = mgr_req sm,
      ru_inProgress = requesterState_zero\<lparr>rqs_meta := ?meta\<lparr>rm_MaxEpoch := rm_MaxEpoch ?meta + 1\<rparr>\<rparr>\<rparr>"
    using incr assms(5) by (auto simp: rsfu_incrementMaxEpoch_def rsfu_getMeta_def requesterState_zero_def int64_def
      go_simps split: if_splits)
  have "rqs_meta (ru_inProgress w') \<noteq> RequesterMeta_zero"
    using w' assms(3) by (auto simp: req_wf_def RequesterMeta_zero_def dest!: arg_cong [where f = rm_MaxEpoch])
  from eff_req_meta [OF this] have meta: "rqs_meta (eff_req w') = ?meta\<lparr>rm_MaxEpoch := rm_MaxEpoch ?meta + 1\<rparr>"
    using w' by simp
  have d: "\<not> err" "d = (sm_disk sm)\<lparr>dk_RequesterMeta := rqs_meta (eff_req w')\<rparr>"
    using rsfu_write_reliable [OF wr] assms(4) w' by simp_all
  with fin obtain rsh2 where checkIn: "rsh_checkInUpdate w' rsh = Some rsh2"
    and sm': "sm' = sm\<lparr>sm_clock := clock, sm_minWithdrawalTS := Timestamp_Add now
        (op_SupportWithdrawalGracePeriod (sm_options sm)) 0, sm_disk := d, sm_requester := rsh2\<rparr>"
    unfolding sm1 by (auto simp: bind_Some_iff)
  note rsh2 = rsh_checkInUpdate_eff [OF checkIn]
  show "states_of (mgr_req sm') = states_of (mgr_req sm)"
    using rsh2(1) sm' w' by (simp add: states_of_def fun_eq_iff eff_req_def requesterState_zero_def)
  show "rqs_meta (mgr_req sm') = ?meta\<lparr>rm_MaxEpoch := rm_MaxEpoch ?meta + 1\<rparr>"
    and "rsh_update (sm_requester sm') = Some requesterState_zero" and "sm_supporter sm' = sm_supporter sm"
    and "sm_disk sm' = (sm_disk sm)\<lparr>dk_RequesterMeta := rqs_meta (mgr_req sm')\<rparr>"
    and "sm_storeID sm' = sm_storeID sm" and "sm_receiveQueue sm' = sm_receiveQueue sm"
    using rsh2 sm' meta d by simp_all
qed

lemma onRestart_done:
  assumes "SupportManager_onRestart eng rst sm = Some (sm', RestartDone)"
  obtains ssh rsh clock where "supporterStateHandler_read (rst_readFails rst) (sm_disk sm) (sm_supporter sm) = Inr ssh"
    and "requesterStateHandler_read (rst_readFails rst) (sm_disk sm) (sm_requester sm) = Inr rsh"
    and "SupportManager_newEpoch eng (rst_physicalNow rst) (sm\<lparr>sm_supporter := ssh, sm_requester := rsh, sm_clock := clock\<rparr>)
      = Some (sm', RestartDone)"
  using assms unfolding SupportManager_onRestart_def Let_def
  by (auto simp: bind_Some_iff split: sum.splits if_splits sleep_outcome.splits) (metis sleep_outcome.exhaust)

lemma restart_acts:
  assumes "SupportManager_onRestart reliable_engine rst (NewSupportManager i (sm_disk sm) opts clk) = Some (sm', RestartDone)"
    and "mgr_ok i N sm" and "epochs_room (mgr_sup sm) (mgr_req sm)"
  shows "mgr_acts i N sm sm' []"
proof -
  have ok: "sup_ok (mgr_sup sm)" "req_wf (mgr_req sm)" "sup_disk (sm_disk sm) (mgr_sup sm)"
    "dk_RequesterMeta (sm_disk sm) = rqs_meta (mgr_req sm)"
    using assms(2) by (simp_all add: mgr_ok_def)
  let ?new = "NewSupportManager i (sm_disk sm) opts clk"
  obtain ssh rsh clock where reads: "supporterStateHandler_read (rst_readFails rst) (sm_disk ?new) (sm_supporter ?new) = Inr ssh"
      "requesterStateHandler_read (rst_readFails rst) (sm_disk ?new) (sm_requester ?new) = Inr rsh"
    and epoch: "SupportManager_newEpoch reliable_engine (rst_physicalNow rst)
      (?new\<lparr>sm_supporter := ssh, sm_requester := rsh, sm_clock := clock\<rparr>) = Some (sm', RestartDone)"
    using assms(1) by (rule onRestart_done)
  have ssh: "ssh = \<lparr>ssh_supporterState = mgr_sup sm, ssh_update = Some supporterState_zero\<rparr>"
    using supporterStateHandler_read_disk [OF reads(1), of "mgr_sup sm"] ok(1,3)
    by (simp add: NewSupportManager_def newSupporterStateHandler_def sup_ok_def)
  have rsh: "rsh = \<lparr>rsh_requesterState = \<lparr>rqs_meta = rqs_meta (mgr_req sm), rqs_supportFrom = fmempty\<rparr>,
      rsh_update = Some requesterState_zero\<rparr>"
    using reads(2) ok(4) by (auto simp: requesterStateHandler_read_def readRequesterMeta_def NewSupportManager_def
      newRequesterStateHandler_def requesterState_zero_def split: if_splits)
  have wf: "req_wf (rsh_requesterState rsh)"
    using ok(2) rsh by (simp add: req_wf_def)
  note new = newEpoch_done [OF epoch]
  have new: "states_of (mgr_req sm') = Map.empty"
    "rqs_meta (mgr_req sm') = (rqs_meta (mgr_req sm))\<lparr>rm_MaxEpoch := rm_MaxEpoch (rqs_meta (mgr_req sm)) + 1\<rparr>"
    "rsh_update (sm_requester sm') = Some requesterState_zero" "sm_supporter sm' = ssh"
    "sm_disk sm' = (sm_disk sm)\<lparr>dk_RequesterMeta := rqs_meta (mgr_req sm')\<rparr>"
    "sm_storeID sm' = i" "sm_receiveQueue sm' = []"
    using new wf assms(3) rsh ok(4)
    by (simp_all add: NewSupportManager_def epochs_room_def states_of_def fun_eq_iff)
  have view: "mgr_view sm' = (mgr_view sm)\<lparr>vw_from := Map.empty, vw_maxEpoch := vw_maxEpoch (mgr_view sm) + 1\<rparr>"
    using new ssh by (simp add: mgr_view_def view_of_def fun_eq_iff from_of_states)
  have "i_steps i (mgr_view sm, N) (mgr_view sm', N)"
    unfolding view by (rule i_step_silent [OF vw_step.restart])
  with new ssh ok show ?thesis
    unfolding mgr_acts_def mgr_ok_def req_wf_states by auto
qed

subsection \<open>Queries, deliveries and the loop\<close>

lemma SupportFrom_acts:
  assumes "SupportManager_SupportFrom j sm = (sm', res)" and "mgr_ok i N sm"
  shows "mgr_acts i N sm sm' []"
proof (rule mgr_acts_idle [OF assms(2)])
  show "states_of (mgr_req sm') = states_of (mgr_req sm)"
    using assms(1)
    by (auto simp: SupportManager_SupportFrom_def requesterStateHandler_getSupportFrom_def Let_def states_of_def
      fun_eq_iff split: option.splits if_splits)
qed (use assms in \<open>auto simp: SupportManager_SupportFrom_def requesterStateHandler_getSupportFrom_def Let_def mgr_ok_def
  split: option.splits if_splits\<close>)

lemma HandleMessage_acts:
  assumes "m \<in> N" and "slm_To m = i" and "mgr_ok i N sm"
  shows "mgr_acts i N sm (SupportManager_HandleMessage m sm) []"
  using assms
  by (auto simp: SupportManager_HandleMessage_def receiveQueue_Append_def mgr_acts_def mgr_ok_def mgr_view_def)

lemma startLoop_acts:
  assumes "SupportManager_startLoop reliable_engine ev sm = Some (sm', out)"
    and "mgr_ok i N sm" and "epochs_room (mgr_sup sm) (mgr_req sm)" and "senders_ok N"
  shows "mgr_acts i N sm sm' out"
proof (cases ev)
  case (SlHeartbeatTick setting gate p)
  with assms(1) obtain sm1 where add: "SupportManager_maybeAddStores sm = Some sm1"
    and send: "(if SupportManager_SupportFromEnabled setting gate then SupportManager_sendHeartbeats reliable_engine p sm1
      else Some (sm1, [])) = Some (sm', out)"
    by (auto simp: SupportManager_heartbeatTick_def bind_Some_iff)
  note first = maybeAddStores_acts [OF add assms(2)]
  then have "mgr_ok i N sm1" by (simp add: mgr_acts_def)
  then have "mgr_acts i N sm1 sm' out"
    using send sendHeartbeats_acts mgr_acts_refl by (auto split: if_splits)
  with first show ?thesis
    using mgr_acts_trans [of i N sm sm1 "[]" sm' out] by simp
next
  case (SlSupportExpiryTick p)
  with assms show ?thesis by (auto simp: bind_Some_iff intro: withdrawSupport_acts)
next
  case SlIdleSupportFromTick
  with assms show ?thesis by (auto simp: bind_Some_iff intro: removeIdleStores_acts)
next
  case (SlReceiveQueueSig commit)
  let ?sm = "sm\<lparr>sm_receiveQueue := []\<rparr>"
  have drained: "mgr_acts i N sm ?sm []"
    using assms(2) by (intro mgr_acts_idle) (auto simp: mgr_ok_def)
  have "SupportManager_handleMessages reliable_engine commit (sm_receiveQueue sm) ?sm = Some (sm', out)"
    using assms(1) SlReceiveQueueSig by (simp add: receiveQueue_Drain_def)
  then have "mgr_acts i N ?sm sm' out"
    using drained assms(2,4) by (intro handleMessages_acts) (auto simp: mgr_acts_def mgr_ok_def)
  with drained show ?thesis
    using mgr_acts_trans [of i N sm ?sm "[]" sm' out] by simp
qed

section \<open>Groups of stores\<close>

text \<open>
  The stores, those of them that are running, and every message ever sent. A store that is
  not running keeps its last state, of which only the disk counts.
\<close>

record sl_cluster =
  sc_stores :: "StoreIdent \<Rightarrow> SupportManager"
  sc_up :: "StoreIdent set"
  sc_net :: "SlMessage set"

definition sl_start :: "sl_cluster \<Rightarrow> bool" where
  "sl_start C \<longleftrightarrow> sc_up C = {} \<and> sc_net C = {}
     \<and> (\<forall>i. \<exists>opts clk. sc_stores C i = NewSupportManager i SlDisk_empty opts clk)"

text \<open>
  A store starts from its disk, also while it is running: then it crashed. The network
  delivers any message that was ever sent to a store, in any order and any number of times.
  Writes succeed, but a commit may fail. The epochs are below the largest \<open>int64\<close>.
\<close>

abbreviation room :: "sl_cluster \<Rightarrow> StoreIdent \<Rightarrow> bool" where
  "room C i \<equiv> epochs_room (mgr_sup (sc_stores C i)) (mgr_req (sc_stores C i))"

inductive sl_step :: "sl_cluster \<Rightarrow> sl_cluster \<Rightarrow> bool" where
  start: "store_ok i \<Longrightarrow> room C i \<Longrightarrow>
    SupportManager_onRestart reliable_engine rst (NewSupportManager i (sm_disk (sc_stores C i)) opts clk)
      = Some (sm, RestartDone) \<Longrightarrow>
    sl_step C (C\<lparr>sc_stores := (sc_stores C)(i := sm), sc_up := insert i (sc_up C)\<rparr>)"
| crash: "sl_step C (C\<lparr>sc_up := sc_up C - {i}\<rparr>)"
| loop: "store_ok i \<Longrightarrow> room C i \<Longrightarrow> i \<in> sc_up C \<Longrightarrow>
    SupportManager_startLoop reliable_engine ev (sc_stores C i) = Some (sm, out) \<Longrightarrow>
    sl_step C (C\<lparr>sc_stores := (sc_stores C)(i := sm), sc_net := sc_net C \<union> set out\<rparr>)"
| deliver: "m \<in> sc_net C \<Longrightarrow> slm_To m = i \<Longrightarrow> i \<in> sc_up C \<Longrightarrow>
    sl_step C (C\<lparr>sc_stores := (sc_stores C)(i := SupportManager_HandleMessage m (sc_stores C i))\<rparr>)"
| query: "i \<in> sc_up C \<Longrightarrow> SupportManager_SupportFrom j (sc_stores C i) = (sm, res) \<Longrightarrow>
    sl_step C (C\<lparr>sc_stores := (sc_stores C)(i := sm)\<rparr>)"

definition sl_inv :: "sl_cluster \<Rightarrow> bool" where
  "sl_inv C \<longleftrightarrow> (\<forall>i. mgr_ok i (sc_net C) (sc_stores C i)) \<and> senders_ok (sc_net C)
     \<and> sys_inv (mgr_view \<circ> sc_stores C, sc_net C)"

lemma sl_inv_acts:
  assumes "sl_inv C" and "mgr_acts i (sc_net C) (sc_stores C i) sm out" and "store_ok i \<or> out = []"
    and "sc_stores C' = (sc_stores C)(i := sm)" and "sc_net C' = sc_net C \<union> set out"
  shows "sl_inv C'"
proof -
  have views: "mgr_view \<circ> sc_stores C' = (mgr_view \<circ> sc_stores C)(i := mgr_view sm)"
    using assms(4) by auto
  have "i_steps i (mgr_view (sc_stores C i), sc_net C) (mgr_view sm, sc_net C')"
    using assms(2,5) by (simp add: mgr_acts_def)
  from i_steps_sys [OF this, of "mgr_view \<circ> sc_stores C"]
  have "sys_step\<^sup>*\<^sup>* (mgr_view \<circ> sc_stores C, sc_net C) (mgr_view \<circ> sc_stores C', sc_net C')"
    unfolding views by simp
  with assms(1) have "sys_inv (mgr_view \<circ> sc_stores C', sc_net C')"
    unfolding sl_inv_def by (blast intro: sys_steps_inv)
  moreover have "mgr_ok j (sc_net C') (sc_stores C' j)" for j
    using assms(1,2,4,5) mgr_ok_mono [of j "sc_net C" "sc_stores C j" "sc_net C'"]
    by (cases "j = i") (auto simp: sl_inv_def mgr_acts_def)
  moreover have "senders_ok (sc_net C')"
    using assms(1,2,3,5) by (auto simp: sl_inv_def senders_ok_def mgr_acts_def)
  ultimately show ?thesis by (simp add: sl_inv_def)
qed

lemma sl_step_inv:
  assumes "sl_step C C'" and "sl_inv C"
  shows "sl_inv C'"
proof -
  have ok: "mgr_ok i (sc_net C) (sc_stores C i)" and senders: "senders_ok (sc_net C)" for i
    using assms(2) unfolding sl_inv_def by blast+
  note keep = sl_inv_acts [OF assms(2)]
  from assms(1) show ?thesis
  proof cases
    case (start i rst opts clk sm)
    show ?thesis
      by (rule keep [OF restart_acts [OF start(4) ok start(3)]]) (use start(1) in simp_all)
  next
    case (crash i)
    then show ?thesis using assms(2) by (simp add: sl_inv_def)
  next
    case (loop i ev sm out)
    show ?thesis
      by (rule keep [OF startLoop_acts [OF loop(5) ok loop(3) senders]]) (use loop(1,2) in simp_all)
  next
    case (deliver m i)
    show ?thesis
      by (rule keep [OF HandleMessage_acts [OF deliver(2,3) ok]]) (use deliver(1) in simp_all)
  next
    case (query i j sm res)
    show ?thesis
      by (rule keep [OF SupportFrom_acts [OF query(3) ok]]) (use query(1) in simp_all)
  qed
qed

lemma sl_start_inv: "sl_start C \<Longrightarrow> sl_inv C"
proof -
  assume start: "sl_start C"
  have new: "mgr_ok i {} (sc_stores C i) \<and> mgr_view (sc_stores C i)
      = \<lparr>vw_for = (\<lambda>_. (0, never)), vw_withdrawn = never, vw_from = Map.empty, vw_maxEpoch = 0, vw_maxRequested = never\<rparr>" for i
  proof -
    obtain opts clk where "sc_stores C i = NewSupportManager i SlDisk_empty opts clk"
      using start unfolding sl_start_def by blast
    then show ?thesis
      by (simp add: mgr_ok_def mgr_view_def view_of_def NewSupportManager_def newSupporterStateHandler_def
        newRequesterStateHandler_def supporterState_zero_def requesterState_zero_def sup_ok_def sup_wf_def req_wf_def
        sup_disk_def SlDisk_empty_def SupporterMeta_zero_def RequesterMeta_zero_def fun_eq_iff for_of_def from_of_def)
  qed
  with start show ?thesis
    by (simp add: sl_inv_def sl_start_def senders_ok_def sys_inv_def times_ok_def view_times_def net_times_def
      epochs_ok_def promises_ok_def)
qed

lemma sl_run_inv: "sl_step\<^sup>*\<^sup>* C C' \<Longrightarrow> sl_start C \<Longrightarrow> sl_inv C'"
  by (induction rule: rtranclp_induct) (blast intro: sl_step_inv sl_start_inv)+

subsection \<open>An example run\<close>

text \<open>Store 1 asks store 2 for support and gets it.\<close>

abbreviation ex_A :: StoreIdent where "ex_A \<equiv> StoreIdent 1 1"
abbreviation ex_B :: StoreIdent where "ex_B \<equiv> StoreIdent 2 2"

definition ex_fresh :: "StoreIdent \<Rightarrow> SupportManager" where
  "ex_fresh i = NewSupportManager i SlDisk_empty (NewOptions 100 300 50) (NewClock 0 0)"

definition ex_rst :: sl_restart where
  "ex_rst = \<lparr>rst_readFails = (\<lambda>_. False), rst_physicalUpdate = 10, rst_rounds = [(False, 10, False)], rst_physicalNow = 11\<rparr>"

text \<open>A later restart, after the largest expiration that was requested.\<close>

definition ex_rst2 :: sl_restart where
  "ex_rst2 = \<lparr>rst_readFails = (\<lambda>_. False), rst_physicalUpdate = 400, rst_rounds = [(False, 400, False)], rst_physicalNow = 401\<rparr>"

definition ex_A1 :: SupportManager where
  "ex_A1 = fst (the (SupportManager_onRestart reliable_engine ex_rst (ex_fresh ex_A)))"

definition ex_B1 :: SupportManager where
  "ex_B1 = fst (the (SupportManager_onRestart reliable_engine ex_rst (ex_fresh ex_B)))"

definition ex_A2 :: SupportManager where
  "ex_A2 = fst (SupportManager_SupportFrom ex_B ex_A1)"

definition ex_A3 :: SupportManager where
  "ex_A3 = fst (the (SupportManager_startLoop reliable_engine (SlHeartbeatTick True True 20) ex_A2))"

abbreviation ex_beat :: SlMessage where
  "ex_beat \<equiv> sl_heartbeat ex_A ex_B (1, Timestamp 320 0)"

definition ex_B2 :: SupportManager where
  "ex_B2 = SupportManager_HandleMessage ex_beat ex_B1"

definition ex_B3 :: SupportManager where
  "ex_B3 = fst (the (SupportManager_startLoop reliable_engine (SlReceiveQueueSig True) ex_B2))"

abbreviation ex_resp :: SlMessage where
  "ex_resp \<equiv> sl_response ex_B ex_A (1, Timestamp 320 0)"

definition ex_A4 :: SupportManager where
  "ex_A4 = SupportManager_HandleMessage ex_resp ex_A3"

definition ex_A5 :: SupportManager where
  "ex_A5 = fst (the (SupportManager_startLoop reliable_engine (SlReceiveQueueSig True) ex_A4))"

lemma ex_restarts:
  "SupportManager_onRestart reliable_engine ex_rst (ex_fresh ex_A) = Some (ex_A1, RestartDone)"
  "SupportManager_onRestart reliable_engine ex_rst (ex_fresh ex_B) = Some (ex_B1, RestartDone)"
proof -
  have "map_option snd (SupportManager_onRestart reliable_engine ex_rst (ex_fresh ex_A)) = Some RestartDone"
    and "map_option snd (SupportManager_onRestart reliable_engine ex_rst (ex_fresh ex_B)) = Some RestartDone"
    by code_simp+
  then show "SupportManager_onRestart reliable_engine ex_rst (ex_fresh ex_A) = Some (ex_A1, RestartDone)"
    and "SupportManager_onRestart reliable_engine ex_rst (ex_fresh ex_B) = Some (ex_B1, RestartDone)"
    by (auto simp: ex_A1_def ex_B1_def)
qed

lemma ex_loops:
  "SupportManager_startLoop reliable_engine (SlHeartbeatTick True True 20) ex_A2 = Some (ex_A3, [ex_beat])"
  "SupportManager_startLoop reliable_engine (SlReceiveQueueSig True) ex_B2 = Some (ex_B3, [ex_resp])"
  "SupportManager_startLoop reliable_engine (SlReceiveQueueSig True) ex_A4 = Some (ex_A5, [])"
proof -
  have "map_option snd (SupportManager_startLoop reliable_engine (SlHeartbeatTick True True 20) ex_A2) = Some [ex_beat]"
    and "map_option snd (SupportManager_startLoop reliable_engine (SlReceiveQueueSig True) ex_B2) = Some [ex_resp]"
    and "map_option snd (SupportManager_startLoop reliable_engine (SlReceiveQueueSig True) ex_A4) = Some []"
    by code_simp+
  then show "SupportManager_startLoop reliable_engine (SlHeartbeatTick True True 20) ex_A2 = Some (ex_A3, [ex_beat])"
    and "SupportManager_startLoop reliable_engine (SlReceiveQueueSig True) ex_B2 = Some (ex_B3, [ex_resp])"
    and "SupportManager_startLoop reliable_engine (SlReceiveQueueSig True) ex_A4 = Some (ex_A5, [])"
    by (auto simp: ex_A3_def ex_B3_def ex_A5_def)
qed

lemma ex_queries:
  "SupportManager_SupportFrom ex_B ex_A1 = (ex_A2, 0, never, False)"
  "SupportManager_SupportFrom ex_B ex_A5 = (fst (SupportManager_SupportFrom ex_B ex_A5), 1, Timestamp 320 0, True)"
proof -
  have "snd (SupportManager_SupportFrom ex_B ex_A1) = (0, never, False)"
    and "snd (SupportManager_SupportFrom ex_B ex_A5) = (1, Timestamp 320 0, True)"
    by code_simp+
  then show "SupportManager_SupportFrom ex_B ex_A1 = (ex_A2, 0, never, False)"
    and "SupportManager_SupportFrom ex_B ex_A5 = (fst (SupportManager_SupportFrom ex_B ex_A5), 1, Timestamp 320 0, True)"
    by (auto simp: ex_A2_def prod_eq_iff)
qed

lemma epochs_room_code [code]:
  "epochs_room st req \<longleftrightarrow> int64 (rm_MaxEpoch (rqs_meta req) + 1)
     \<and> list_all (\<lambda>(j, ss). int64 (ss_Epoch ss + 1)) (entries_of (sps_supportFor st))"
  by (auto simp: epochs_room_def list_all_iff)

lemma ex_room:
  "epochs_room (mgr_sup (ex_fresh ex_A)) (mgr_req (ex_fresh ex_A))"
  "epochs_room (mgr_sup (ex_fresh ex_B)) (mgr_req (ex_fresh ex_B))"
  "epochs_room (mgr_sup ex_A2) (mgr_req ex_A2)"
  "epochs_room (mgr_sup ex_B2) (mgr_req ex_B2)"
  "epochs_room (mgr_sup ex_A4) (mgr_req ex_A4)"
  by code_simp+

definition ex_sl0 :: sl_cluster where
  "ex_sl0 = \<lparr>sc_stores = ex_fresh, sc_up = {}, sc_net = {}\<rparr>"

definition ex_sl1 :: sl_cluster where
  "ex_sl1 = \<lparr>sc_stores = ex_fresh(ex_A := ex_A2, ex_B := ex_B1), sc_up = {ex_A, ex_B}, sc_net = {}\<rparr>"

definition ex_sl2 :: sl_cluster where
  "ex_sl2 = \<lparr>sc_stores = ex_fresh(ex_A := ex_A3, ex_B := ex_B3), sc_up = {ex_A, ex_B}, sc_net = {ex_beat, ex_resp}\<rparr>"

definition ex_sl3 :: sl_cluster where
  "ex_sl3 = \<lparr>sc_stores = ex_fresh(ex_A := ex_A5, ex_B := ex_B3), sc_up = {ex_A, ex_B}, sc_net = {ex_beat, ex_resp}\<rparr>"

lemma ex_sl_start: "sl_start ex_sl0"
  unfolding sl_start_def ex_sl0_def ex_fresh_def by auto

lemma ex_store_ok: "store_ok ex_A" "store_ok ex_B"
  by (simp_all add: store_ok_def)

lemma ex_sl_run1: "sl_step\<^sup>*\<^sup>* ex_sl0 ex_sl1"
proof -
  have disk: "sm_disk (ex_fresh i) = SlDisk_empty" for i
    by (simp add: ex_fresh_def NewSupportManager_def)
  have 1: "sl_step ex_sl0 (ex_sl0\<lparr>sc_stores := ex_fresh(ex_A := ex_A1), sc_up := {ex_A}\<rparr>)" (is "sl_step _ ?C1")
    using sl_step.start [of ex_A ex_sl0 ex_rst "NewOptions 100 300 50" "NewClock 0 0" ex_A1] ex_room(1) ex_restarts(1)
    by (simp add: ex_sl0_def ex_store_ok disk ex_fresh_def [symmetric])
  have 2: "sl_step ?C1 (ex_sl0\<lparr>sc_stores := ex_fresh(ex_A := ex_A1, ex_B := ex_B1), sc_up := {ex_A, ex_B}\<rparr>)" (is "sl_step _ ?C2")
    using sl_step.start [of ex_B ?C1 ex_rst "NewOptions 100 300 50" "NewClock 0 0" ex_B1] ex_room(2) ex_restarts(2)
    by (simp add: ex_sl0_def ex_store_ok disk ex_fresh_def [symmetric] insert_commute)
  have 3: "sl_step ?C2 ex_sl1"
    using sl_step.query [of ex_A ?C2 ex_B ex_A2 "(0, never, False)"] ex_queries(1)
    by (simp add: ex_sl0_def ex_sl1_def fun_upd_twist)
  show ?thesis
    by (rule converse_rtranclp_into_rtranclp [OF 1 converse_rtranclp_into_rtranclp [OF 2 r_into_rtranclp [of sl_step, OF 3]]])
qed

lemma ex_sl_run2: "sl_step\<^sup>*\<^sup>* ex_sl1 ex_sl2"
proof -
  have 1: "sl_step ex_sl1 (ex_sl1\<lparr>sc_stores := ex_fresh(ex_A := ex_A3, ex_B := ex_B1), sc_net := {ex_beat}\<rparr>)" (is "sl_step _ ?C1")
    using sl_step.loop [of ex_A ex_sl1 "SlHeartbeatTick True True 20" ex_A3 "[ex_beat]"] ex_loops(1) ex_room(3)
    by (simp add: ex_sl1_def ex_store_ok fun_upd_twist)
  have 2: "sl_step ?C1 (?C1\<lparr>sc_stores := ex_fresh(ex_A := ex_A3, ex_B := ex_B2)\<rparr>)" (is "sl_step _ ?C2")
    using sl_step.deliver [of ex_beat ?C1 ex_B] by (simp add: ex_sl1_def ex_B2_def sl_heartbeat_def)
  have 3: "sl_step ?C2 ex_sl2"
    using sl_step.loop [of ex_B ?C2 "SlReceiveQueueSig True" ex_B3 "[ex_resp]"] ex_loops(2) ex_room(4)
    by (simp add: ex_sl1_def ex_sl2_def ex_store_ok insert_commute)
  show ?thesis
    by (rule converse_rtranclp_into_rtranclp [OF 1 converse_rtranclp_into_rtranclp [OF 2 r_into_rtranclp [of sl_step, OF 3]]])
qed

lemma ex_sl_run3: "sl_step\<^sup>*\<^sup>* ex_sl2 ex_sl3"
proof -
  have 1: "sl_step ex_sl2 (ex_sl2\<lparr>sc_stores := ex_fresh(ex_A := ex_A4, ex_B := ex_B3)\<rparr>)" (is "sl_step _ ?C1")
    using sl_step.deliver [of ex_resp ex_sl2 ex_A] by (simp add: ex_sl2_def ex_A4_def sl_response_def fun_upd_twist)
  have 2: "sl_step ?C1 ex_sl3"
    using sl_step.loop [of ex_A ?C1 "SlReceiveQueueSig True" ex_A5 "[]"] ex_loops(3) ex_room(5)
    by (simp add: ex_sl2_def ex_sl3_def ex_store_ok fun_upd_twist)
  show ?thesis
    by (rule converse_rtranclp_into_rtranclp [OF 1 r_into_rtranclp [of sl_step, OF 2]])
qed

definition ex_A6 :: SupportManager where
  "ex_A6 = fst (the (SupportManager_onRestart reliable_engine ex_rst2
     (NewSupportManager ex_A (sm_disk ex_A3) (NewOptions 100 300 50) (NewClock 0 0))))"

definition ex_sl4 :: sl_cluster where
  "ex_sl4 = \<lparr>sc_stores = ex_fresh(ex_A := SupportManager_HandleMessage ex_resp ex_A6, ex_B := ex_B3),
     sc_up = {ex_A, ex_B}, sc_net = {ex_beat, ex_resp}\<rparr>"

lemma ex_sl_run4: "sl_step\<^sup>*\<^sup>* ex_sl2 ex_sl4"
proof -
  have "map_option snd (SupportManager_onRestart reliable_engine ex_rst2
      (NewSupportManager ex_A (sm_disk ex_A3) (NewOptions 100 300 50) (NewClock 0 0))) = Some RestartDone"
    by code_simp
  then have again: "SupportManager_onRestart reliable_engine ex_rst2
      (NewSupportManager ex_A (sm_disk ex_A3) (NewOptions 100 300 50) (NewClock 0 0)) = Some (ex_A6, RestartDone)"
    by (auto simp: ex_A6_def)
  have "epochs_room (mgr_sup ex_A3) (mgr_req ex_A3)" by code_simp
  then have 1: "sl_step ex_sl2 (ex_sl2\<lparr>sc_stores := ex_fresh(ex_A := ex_A6, ex_B := ex_B3)\<rparr>)" (is "sl_step _ ?C1")
    using sl_step.start [of ex_A ex_sl2 ex_rst2 "NewOptions 100 300 50" "NewClock 0 0" ex_A6] again
    by (simp add: ex_sl2_def ex_store_ok fun_upd_twist insert_absorb)
  have 2: "sl_step ?C1 ex_sl4"
    using sl_step.deliver [of ex_resp ?C1 ex_A]
    by (simp add: ex_sl2_def ex_sl4_def sl_response_def fun_upd_twist)
  show ?thesis
    by (rule converse_rtranclp_into_rtranclp [OF 1 r_into_rtranclp [of sl_step, OF 2]])
qed

section \<open>Properties\<close>

text \<open>
  Property C2: the promise of the store liveness fabric. In every run of a group of stores
  that request and provide support, withdraw it, forget stores, crash and restart from
  their disks, over a network that loses, duplicates and reorders messages: when \<open>SupportFrom\<close>
  tells store \<open>a\<close> that store \<open>b\<close> supports it in an epoch until an expiration, then either
  \<open>SupportFor\<close> tells \<open>b\<close> that it supports \<open>a\<close> in this very epoch, with an expiration that is
  not earlier; or \<open>b\<close> has withdrawn support when its clock had reached the expiration, and
  this is on its disk. So no store counts on support that its supporter is unaware of.
\<close>

theorem SupportFrom_is_backed_by_SupportFor:
  assumes "sl_start C" and "sl_step\<^sup>*\<^sup>* C C'"
    and "SupportManager_SupportFrom b (sc_stores C' a) = (sm, epoch, expiration, True)"
  shows "SupportManager_SupportFor a (sc_stores C' b) = (epoch, True)
      \<and> expiration \<le> ss_Expiration (supporterStateHandler_getSupportFor a (sm_supporter (sc_stores C' b)))
    \<or> expiration \<le> spm_MaxWithdrawn (dk_SupporterMeta (sm_disk (sc_stores C' b)))"
proof -
  have inv: "sl_inv C'"
    by (rule sl_run_inv [OF assms(2,1)])
  have "vw_from (mgr_view (sc_stores C' a)) b = Some (epoch, expiration)" and "expiration \<noteq> never"
    using assms(3)
    by (auto simp: SupportManager_SupportFrom_def requesterStateHandler_getSupportFrom_def Let_def Timestamp_IsEmpty_def
      mgr_view_def view_of_def from_of_def ss_pair_def split: option.splits if_splits)
  from sys_inv_support [of "mgr_view \<circ> sc_stores C'" "sc_net C'" a b epoch expiration]
  have "(\<exists>y. vw_for (mgr_view (sc_stores C' b)) a = (epoch, y) \<and> y \<noteq> never \<and> expiration \<le> y)
      \<or> expiration \<le> vw_withdrawn (mgr_view (sc_stores C' b))"
    using inv \<open>vw_from _ _ = _\<close> \<open>expiration \<noteq> never\<close> by (simp add: sl_inv_def)
  moreover have "sps_meta (mgr_sup (sc_stores C' b)) = dk_SupporterMeta (sm_disk (sc_stores C' b))"
    using inv by (simp add: sl_inv_def mgr_ok_def sup_disk_def)
  ultimately show ?thesis
    by (auto simp: mgr_view_def view_of_def for_of_def ss_pair_def SupportManager_SupportFor_def Timestamp_IsEmpty_def
      supporterStateHandler_getSupportFor_def Let_def split: option.splits)
qed

theorem SupportFrom_is_backed_by_SupportFor_witness:
  "sl_start ex_sl0 \<and> sl_step\<^sup>*\<^sup>* ex_sl0 ex_sl3
   \<and> SupportManager_SupportFrom ex_B ex_A5 = (fst (SupportManager_SupportFrom ex_B ex_A5), 1, Timestamp 320 0, True)
   \<and> SupportManager_SupportFor ex_A ex_B3 = (1, True)"
proof -
  have run: "sl_step\<^sup>*\<^sup>* ex_sl0 ex_sl3"
    using ex_sl_run1 ex_sl_run2 ex_sl_run3 by simp
  have query: "SupportManager_SupportFrom ex_B (sc_stores ex_sl3 ex_A)
      = (fst (SupportManager_SupportFrom ex_B ex_A5), 1, Timestamp 320 0, True)"
    using ex_queries(2) by (simp add: ex_sl3_def)
  have "\<not> Timestamp 320 0 \<le> spm_MaxWithdrawn (dk_SupporterMeta (sm_disk ex_B3))"
    by code_simp
  then have "SupportManager_SupportFor ex_A ex_B3 = (1, True)"
    using SupportFrom_is_backed_by_SupportFor [OF ex_sl_start run query] by (simp add: ex_sl3_def)
  with run ex_sl_start ex_queries(2) show ?thesis by blast
qed

text \<open>
  Property C38: a heartbeat response from a store that is not in \<open>supportFrom\<close>, because it was
  removed as idle or because the requester restarted, makes the requester panic, whenever
  the response has a positive epoch: \<open>handleHeartbeatResponse\<close> takes the missing state for
  epoch 0 and fails its assertions, or \<open>checkInUpdate\<close> follows a nil pointer. The witness
  reaches such a state: the requester crashes and restarts while a response is in flight.
\<close>

theorem response_from_unknown_store_panics:
  assumes "fmlookup (rqs_supportFrom (mgr_req sm)) (slm_From m) = None" and "slm_Type m = SlMsgHeartbeatResp"
    and "0 < slm_Epoch m" and "slm_Epoch m \<le> MaxInt64"
    and "rsh_update (sm_requester sm) \<in> {None, Some requesterState_zero}"
  shows "SupportManager_handleMessages eng True [m] sm = None"
proof (rule ccontr)
  assume "SupportManager_handleMessages eng True [m] sm \<noteq> None"
  then obtain rsh w ssh u w' rsh2 where checkOut: "rsh_checkOutUpdate (sm_requester sm) = Some (rsh, w)"
    and resp: "rsfu_handleHeartbeatResponse m w = Some w'" and checkIn: "rsh_checkInUpdate w' rsh = Some rsh2"
    using assms(2) by (auto simp: SupportManager_handleMessages_def handle_one_def bind_Some_iff)
  have w: "w = \<lparr>ru_checkedIn = mgr_req sm, ru_inProgress = requesterState_zero\<rparr>"
    by (rule rsh_checkOutUpdate_clean(1) [OF checkOut assms(5)])
  then have "rsfu_getSupportFrom (slm_From m) w = None"
    using assms(1) by (simp add: rsfu_getSupportFrom_def requesterState_zero_def)
  then obtain rm ss where h: "handleHeartbeatResponse m (rqs_meta (mgr_req sm)) (SupportState_zero\<lparr>ss_Target := slm_From m\<rparr>) = Some (rm, ss)"
    and w': "ss \<noteq> SupportState_zero\<lparr>ss_Target := slm_From m\<rparr> \<Longrightarrow>
      fmlookup (rqs_supportFrom (ru_inProgress w')) (slm_From m) \<noteq> None \<and> ru_checkedIn w' = ru_checkedIn w"
    using resp w getMeta_eff(2) [of w] unfolding rsfu_handleHeartbeatResponse_def
    by (auto simp: Let_def bind_Some_iff split: if_splits)
  have "ss_Epoch ss = slm_Epoch m"
    using h assms(3) by (auto simp: handleHeartbeatResponse_def SupportState_zero_def Let_def go_simps split: if_splits)
  then have "ss \<noteq> SupportState_zero\<lparr>ss_Target := slm_From m\<rparr>"
    using assms(3) by (auto simp: SupportState_zero_def)
  from w' [OF this] have "slm_From m |\<in>| fmdom (rqs_supportFrom (ru_inProgress w'))" and "ru_checkedIn w' = mgr_req sm"
    using w by (auto simp: fmdomI)
  moreover have "slm_From m |\<notin>| fmdom (rqs_supportFrom (mgr_req sm))"
    using assms(1) by (rule fmdom_notI)
  ultimately show False
    using rsh_checkInUpdate_eff(4) [OF checkIn] unfolding upd_dom_def by auto
qed

theorem response_from_unknown_store_panics_witness:
  "sl_start ex_sl0 \<and> sl_step\<^sup>*\<^sup>* ex_sl0 ex_sl4 \<and> ex_A \<in> sc_up ex_sl4
   \<and> SupportManager_startLoop reliable_engine (SlReceiveQueueSig True) (sc_stores ex_sl4 ex_A) = None"
proof -
  have run: "sl_step\<^sup>*\<^sup>* ex_sl0 ex_sl4"
    using ex_sl_run1 ex_sl_run2 ex_sl_run4 by simp
  have "fmlookup (rqs_supportFrom (mgr_req ex_A6)) ex_B = None" and queue: "sm_receiveQueue ex_A6 = []"
    and "rsh_update (sm_requester ex_A6) = Some requesterState_zero"
    by code_simp+
  then have "SupportManager_handleMessages reliable_engine True [ex_resp] ex_A6 = None"
    by (intro response_from_unknown_store_panics) (simp_all add: sl_response_def)
  moreover have same: "ex_A6\<lparr>sm_receiveQueue := []\<rparr> = ex_A6"
    using queue by simp
  have "SupportManager_startLoop reliable_engine (SlReceiveQueueSig True) (SupportManager_HandleMessage ex_resp ex_A6)
      = SupportManager_handleMessages reliable_engine True [ex_resp] (ex_A6\<lparr>sm_receiveQueue := []\<rparr>)"
    using queue by (simp add: SupportManager_HandleMessage_def receiveQueue_Append_def receiveQueue_Drain_def)
  ultimately have "SupportManager_startLoop reliable_engine (SlReceiveQueueSig True) (SupportManager_HandleMessage ex_resp ex_A6) = None"
    unfolding same by simp
  with run ex_sl_start show ?thesis by (simp add: ex_sl4_def)
qed

end
