(* ===== verification/Replica_Set.thy ===== *)
theory Replica_Set
  imports Confchange Hlc_Timestamp
begin

text \<open>
  The replicas of a range: descriptors and their types, sets of replicas and the raft
  configuration they describe (\<open>roachpb/metadata.go\<close>, \<open>roachpb/metadata_replicas.go\<close> and
  their protos). Availability as computed from the descriptors is that of the raft
  configuration.
\<close>

section \<open>Data\<close>

datatype ReplicaType = VOTER_FULL | LEARNER | VOTER_INCOMING | VOTER_OUTGOING | VOTER_DEMOTING_LEARNER
  | NON_VOTER | VOTER_DEMOTING_NON_VOTER | ReplicaType_unknown int

record ReplicaDescriptor =
  rd_NodeID :: int
  rd_StoreID :: int
  rd_ReplicaID :: int
  rd_Type :: ReplicaType

definition ReplicaDescriptor_zero :: ReplicaDescriptor where
  "ReplicaDescriptor_zero = \<lparr>rd_NodeID = 0, rd_StoreID = 0, rd_ReplicaID = 0, rd_Type = VOTER_FULL\<rparr>"

record ReplicationTarget =
  rt_NodeID :: int
  rt_StoreID :: int

record RangeDescriptor =
  rg_RangeID :: int
  rg_StartKey :: string
  rg_EndKey :: string
  rg_InternalReplicas :: "ReplicaDescriptor list"
  rg_NextReplicaID :: int
  rg_Generation :: int
  rg_StickyBit :: Timestamp

record ReplicaSet =
  rs_wrapped :: "ReplicaDescriptor list"

definition MakeReplicaSet :: "ReplicaDescriptor list \<Rightarrow> ReplicaSet" where
  "MakeReplicaSet replicas = \<lparr>rs_wrapped = replicas\<rparr>"

definition ReplicaSet_Descriptors :: "ReplicaSet \<Rightarrow> ReplicaDescriptor list" where
  "ReplicaSet_Descriptors d = rs_wrapped d"

section \<open>Replicas by their type\<close>

definition predVoterFull :: "ReplicaDescriptor \<Rightarrow> bool" where
  "predVoterFull rDesc = (case rd_Type rDesc of VOTER_FULL \<Rightarrow> True | _ \<Rightarrow> False)"

definition predVoterFullOrIncoming :: "ReplicaDescriptor \<Rightarrow> bool" where
  "predVoterFullOrIncoming rDesc = (case rd_Type rDesc of VOTER_FULL \<Rightarrow> True | VOTER_INCOMING \<Rightarrow> True | _ \<Rightarrow> False)"

definition predVoterIncoming :: "ReplicaDescriptor \<Rightarrow> bool" where
  "predVoterIncoming rDesc = (case rd_Type rDesc of VOTER_INCOMING \<Rightarrow> True | _ \<Rightarrow> False)"

definition predLearner :: "ReplicaDescriptor \<Rightarrow> bool" where
  "predLearner rDesc \<longleftrightarrow> rd_Type rDesc = LEARNER"

definition predNonVoter :: "ReplicaDescriptor \<Rightarrow> bool" where
  "predNonVoter rDesc \<longleftrightarrow> rd_Type rDesc = NON_VOTER"

definition predVoterOrNonVoter :: "ReplicaDescriptor \<Rightarrow> bool" where
  "predVoterOrNonVoter rDesc \<longleftrightarrow> predVoterFullOrIncoming rDesc \<or> predNonVoter rDesc"

definition predVoterFullOrNonVoter :: "ReplicaDescriptor \<Rightarrow> bool" where
  "predVoterFullOrNonVoter rDesc \<longleftrightarrow> predVoterFull rDesc \<or> predNonVoter rDesc"

definition ReplicaDescriptor_IsVoterOldConfig :: "ReplicaDescriptor \<Rightarrow> bool" where
  "ReplicaDescriptor_IsVoterOldConfig r =
     (case rd_Type r of
        VOTER_FULL \<Rightarrow> True | VOTER_OUTGOING \<Rightarrow> True | VOTER_DEMOTING_NON_VOTER \<Rightarrow> True | VOTER_DEMOTING_LEARNER \<Rightarrow> True
      | _ \<Rightarrow> False)"

definition ReplicaDescriptor_IsVoterNewConfig :: "ReplicaDescriptor \<Rightarrow> bool" where
  "ReplicaDescriptor_IsVoterNewConfig r = (case rd_Type r of VOTER_FULL \<Rightarrow> True | VOTER_INCOMING \<Rightarrow> True | _ \<Rightarrow> False)"

definition ReplicaDescriptor_IsAnyVoter :: "ReplicaDescriptor \<Rightarrow> bool" where
  "ReplicaDescriptor_IsAnyVoter r =
     (case rd_Type r of
        VOTER_FULL \<Rightarrow> True | VOTER_INCOMING \<Rightarrow> True | VOTER_OUTGOING \<Rightarrow> True | VOTER_DEMOTING_NON_VOTER \<Rightarrow> True
      | VOTER_DEMOTING_LEARNER \<Rightarrow> True
      | _ \<Rightarrow> False)"

definition ReplicaDescriptor_IsNonVoter :: "ReplicaDescriptor \<Rightarrow> bool" where
  "ReplicaDescriptor_IsNonVoter r = (case rd_Type r of NON_VOTER \<Rightarrow> True | _ \<Rightarrow> False)"

definition ReplicaDescriptor_IsSame :: "ReplicaDescriptor \<Rightarrow> ReplicaDescriptor \<Rightarrow> bool" where
  "ReplicaDescriptor_IsSame r o' \<longleftrightarrow>
     rd_NodeID r = rd_NodeID o' \<and> rd_StoreID r = rd_StoreID o' \<and> rd_ReplicaID r = rd_ReplicaID o'"

text \<open>
  The loop of \<open>FilterToDescriptors\<close> over the positions: as long as all replicas match, the
  result is the whole slice; the first one that does not match copies the prefix.
\<close>

fun filter_loop :: "(ReplicaDescriptor \<Rightarrow> bool) \<Rightarrow> ReplicaDescriptor list \<Rightarrow> nat \<Rightarrow> ReplicaDescriptor list \<Rightarrow>
    bool \<Rightarrow> ReplicaDescriptor list \<Rightarrow> ReplicaDescriptor list" where
  "filter_loop pred wrapped i [] fastpath out = out"
| "filter_loop pred wrapped i (d # ds) fastpath out =
     (if pred d then filter_loop pred wrapped (Suc i) ds fastpath (if \<not> fastpath then out @ [d] else out)
      else if fastpath then filter_loop pred wrapped (Suc i) ds False (take i wrapped)
      else filter_loop pred wrapped (Suc i) ds fastpath out)"

definition ReplicaSet_FilterToDescriptors :: "(ReplicaDescriptor \<Rightarrow> bool) \<Rightarrow> ReplicaSet \<Rightarrow> ReplicaDescriptor list" where
  "ReplicaSet_FilterToDescriptors pred d = filter_loop pred (rs_wrapped d) 0 (rs_wrapped d) True (rs_wrapped d)"

definition ReplicaSet_Filter :: "(ReplicaDescriptor \<Rightarrow> bool) \<Rightarrow> ReplicaSet \<Rightarrow> ReplicaSet" where
  "ReplicaSet_Filter pred d = MakeReplicaSet (ReplicaSet_FilterToDescriptors pred d)"

definition ReplicaSet_Voters :: "ReplicaSet \<Rightarrow> ReplicaSet" where
  "ReplicaSet_Voters d = ReplicaSet_Filter predVoterFullOrIncoming d"

definition ReplicaSet_VoterDescriptors :: "ReplicaSet \<Rightarrow> ReplicaDescriptor list" where
  "ReplicaSet_VoterDescriptors d = ReplicaSet_FilterToDescriptors predVoterFullOrIncoming d"

definition ReplicaSet_containsVoterIncoming :: "ReplicaSet \<Rightarrow> bool" where
  "ReplicaSet_containsVoterIncoming d \<longleftrightarrow> length (ReplicaSet_FilterToDescriptors predVoterIncoming d) > 0"

definition ReplicaSet_LearnerDescriptors :: "ReplicaSet \<Rightarrow> ReplicaDescriptor list" where
  "ReplicaSet_LearnerDescriptors d = ReplicaSet_FilterToDescriptors predLearner d"

definition ReplicaSet_NonVoters :: "ReplicaSet \<Rightarrow> ReplicaSet" where
  "ReplicaSet_NonVoters d = ReplicaSet_Filter predNonVoter d"

definition ReplicaSet_NonVoterDescriptors :: "ReplicaSet \<Rightarrow> ReplicaDescriptor list" where
  "ReplicaSet_NonVoterDescriptors d = ReplicaSet_FilterToDescriptors predNonVoter d"

definition ReplicaSet_VoterFullAndNonVoterDescriptors :: "ReplicaSet \<Rightarrow> ReplicaDescriptor list" where
  "ReplicaSet_VoterFullAndNonVoterDescriptors d = ReplicaSet_FilterToDescriptors predVoterFullOrNonVoter d"

definition ReplicaSet_VoterAndNonVoterDescriptors :: "ReplicaSet \<Rightarrow> ReplicaDescriptor list" where
  "ReplicaSet_VoterAndNonVoterDescriptors d = ReplicaSet_FilterToDescriptors predVoterOrNonVoter d"

section \<open>Changing and searching a set\<close>

definition ReplicaSet_DeepCopy :: "ReplicaSet \<Rightarrow> ReplicaSet" where
  "ReplicaSet_DeepCopy d = \<lparr>rs_wrapped = [] @ rs_wrapped d\<rparr>"

definition ReplicaSet_AddReplica :: "ReplicaDescriptor \<Rightarrow> ReplicaSet \<Rightarrow> ReplicaSet" where
  "ReplicaSet_AddReplica r d = d\<lparr>rs_wrapped := rs_wrapped d @ [r]\<rparr>"

text \<open>The position of the first replica on a node and store.\<close>

fun find_target :: "int \<Rightarrow> int \<Rightarrow> ReplicaDescriptor list \<Rightarrow> nat option" where
  "find_target nodeID storeID [] = None"
| "find_target nodeID storeID (d # ds) =
     (if rd_NodeID d = nodeID \<and> rd_StoreID d = storeID then Some 0
      else map_option Suc (find_target nodeID storeID ds))"

definition ReplicaSet_RemoveReplica :: "int \<Rightarrow> int \<Rightarrow> ReplicaSet \<Rightarrow> ReplicaSet \<times> ReplicaDescriptor \<times> bool" where
  "ReplicaSet_RemoveReplica nodeID storeID d =
     (case find_target nodeID storeID (rs_wrapped d) of
        None \<Rightarrow> (d, ReplicaDescriptor_zero, False)
      | Some idx \<Rightarrow>
          let w = rs_wrapped d;
              w = w[idx := w ! (length w - 1), length w - 1 := w ! idx];
              removed = w ! (length w - 1)
          in (d\<lparr>rs_wrapped := take (length w - 1) w\<rparr>, removed, True))"

fun find_id :: "int \<Rightarrow> ReplicaDescriptor list \<Rightarrow> ReplicaDescriptor option" where
  "find_id i [] = None"
| "find_id i (d # ds) = (if rd_ReplicaID d = i then Some d else find_id i ds)"

definition ReplicaSet_GetReplicaDescriptorByID :: "int \<Rightarrow> ReplicaSet \<Rightarrow> ReplicaDescriptor option" where
  "ReplicaSet_GetReplicaDescriptorByID i d = find_id i (rs_wrapped d)"

fun HasReplicaOnNode_loop :: "int \<Rightarrow> ReplicaDescriptor list \<Rightarrow> bool" where
  "HasReplicaOnNode_loop nodeID [] = False"
| "HasReplicaOnNode_loop nodeID (d # ds) = (if rd_NodeID d = nodeID then True else HasReplicaOnNode_loop nodeID ds)"

definition ReplicaSet_HasReplicaOnNode :: "int \<Rightarrow> ReplicaSet \<Rightarrow> bool" where
  "ReplicaSet_HasReplicaOnNode nodeID d = HasReplicaOnNode_loop nodeID (rs_wrapped d)"

definition ReplicaSet_ReplicationTargets :: "ReplicaSet \<Rightarrow> ReplicationTarget list" where
  "ReplicaSet_ReplicationTargets d =
     map (\<lambda>repl. \<lparr>rt_NodeID = rd_NodeID repl, rt_StoreID = rd_StoreID repl\<rparr>) (ReplicaSet_Descriptors d)"

definition ReplicaSet_Subtract :: "ReplicaSet \<Rightarrow> ReplicaSet \<Rightarrow> ReplicaDescriptor list" where
  "ReplicaSet_Subtract d o' =
     filter (\<lambda>repl. ReplicaSet_GetReplicaDescriptorByID (rd_ReplicaID repl) o' = None) (ReplicaSet_Descriptors d)"

definition ReplicaSet_Difference :: "ReplicaSet \<Rightarrow> ReplicaSet \<Rightarrow> ReplicaDescriptor list \<times> ReplicaDescriptor list" where
  "ReplicaSet_Difference d o' = (ReplicaSet_Subtract o' d, ReplicaSet_Subtract d o')"

section \<open>The raft configuration of a set\<close>

text \<open>A replica of an unknown type panics.\<close>

fun InAtomicReplicationChange_loop :: "ReplicaDescriptor list \<Rightarrow> bool go" where
  "InAtomicReplicationChange_loop [] = Some False"
| "InAtomicReplicationChange_loop (d # ds) =
     (case rd_Type d of
        VOTER_INCOMING \<Rightarrow> Some True | VOTER_OUTGOING \<Rightarrow> Some True | VOTER_DEMOTING_LEARNER \<Rightarrow> Some True
      | VOTER_DEMOTING_NON_VOTER \<Rightarrow> Some True
      | VOTER_FULL \<Rightarrow> InAtomicReplicationChange_loop ds | LEARNER \<Rightarrow> InAtomicReplicationChange_loop ds
      | NON_VOTER \<Rightarrow> InAtomicReplicationChange_loop ds
      | ReplicaType_unknown _ \<Rightarrow> None)"

definition ReplicaSet_InAtomicReplicationChange :: "ReplicaSet \<Rightarrow> bool go" where
  "ReplicaSet_InAtomicReplicationChange d = InAtomicReplicationChange_loop (rs_wrapped d)"

definition peer_of :: "int \<Rightarrow> PeerID" where
  "peer_of replicaID = word_of_int replicaID"

definition ConfState_add :: "bool \<Rightarrow> ReplicaDescriptor \<Rightarrow> ConfState \<Rightarrow> ConfState go" where
  "ConfState_add isJoint rep cs =
     (let i = peer_of (rd_ReplicaID rep) in
      case rd_Type rep of
        VOTER_FULL \<Rightarrow>
          (let cs = cs\<lparr>cs_Voters := cs_Voters cs @ [i]\<rparr>
           in Some (if isJoint then cs\<lparr>cs_VotersOutgoing := cs_VotersOutgoing cs @ [i]\<rparr> else cs))
      | VOTER_INCOMING \<Rightarrow> Some (cs\<lparr>cs_Voters := cs_Voters cs @ [i]\<rparr>)
      | VOTER_OUTGOING \<Rightarrow> Some (cs\<lparr>cs_VotersOutgoing := cs_VotersOutgoing cs @ [i]\<rparr>)
      | VOTER_DEMOTING_LEARNER \<Rightarrow>
          Some (cs\<lparr>cs_VotersOutgoing := cs_VotersOutgoing cs @ [i], cs_LearnersNext := cs_LearnersNext cs @ [i]\<rparr>)
      | VOTER_DEMOTING_NON_VOTER \<Rightarrow>
          Some (cs\<lparr>cs_VotersOutgoing := cs_VotersOutgoing cs @ [i], cs_LearnersNext := cs_LearnersNext cs @ [i]\<rparr>)
      | LEARNER \<Rightarrow> Some (cs\<lparr>cs_Learners := cs_Learners cs @ [i]\<rparr>)
      | NON_VOTER \<Rightarrow> Some (cs\<lparr>cs_Learners := cs_Learners cs @ [i]\<rparr>)
      | ReplicaType_unknown _ \<Rightarrow> None)"

definition ReplicaSet_ConfState :: "ReplicaSet \<Rightarrow> ConfState go" where
  "ReplicaSet_ConfState d = do {
     isJoint \<leftarrow> ReplicaSet_InAtomicReplicationChange d;
     foldM (ConfState_add isJoint) (rs_wrapped d) ConfState_zero
   }"

section \<open>The status of a range\<close>

record RangeStatusReport =
  rsr_Available :: bool
  rsr_UnderReplicated :: bool
  rsr_OverReplicated :: bool
  rsr_UnderReplicatedNonVoters :: bool
  rsr_OverReplicatedNonVoters :: bool

definition ReplicaSet_ReplicationStatus ::
    "(ReplicaDescriptor \<Rightarrow> bool) \<Rightarrow> int \<Rightarrow> int \<Rightarrow> ReplicaSet \<Rightarrow> RangeStatusReport" where
  "ReplicaSet_ReplicationStatus liveFunc neededVoters neededNonVoters d =
     (let isBoth = (\<lambda>pred1 pred2 rDesc. pred1 rDesc \<and> pred2 rDesc);
          votersOldGroup = ReplicaSet_FilterToDescriptors ReplicaDescriptor_IsVoterOldConfig d;
          liveVotersOldGroup = ReplicaSet_FilterToDescriptors (isBoth ReplicaDescriptor_IsVoterOldConfig liveFunc) d;
          n = length votersOldGroup;
          availableOutgoingGroup = (n = 0 \<or> n div 2 + 1 \<le> length liveVotersOldGroup);
          votersNewGroup = ReplicaSet_FilterToDescriptors ReplicaDescriptor_IsVoterNewConfig d;
          liveVotersNewGroup = ReplicaSet_FilterToDescriptors (isBoth ReplicaDescriptor_IsVoterNewConfig liveFunc) d;
          n = length votersNewGroup;
          availableIncomingGroup = (n div 2 + 1 \<le> length liveVotersNewGroup);
          res = \<lparr>rsr_Available = availableIncomingGroup \<and> availableOutgoingGroup,
            rsr_UnderReplicated = (int (length liveVotersOldGroup) < neededVoters \<or> int (length liveVotersNewGroup) < neededVoters),
            rsr_OverReplicated = (neededVoters < int (length votersOldGroup) \<or> neededVoters < int (length votersNewGroup)),
            rsr_UnderReplicatedNonVoters = False, rsr_OverReplicatedNonVoters = False\<rparr>
      in if neededNonVoters = -1 then res
         else
           let nonVoters = ReplicaSet_FilterToDescriptors ReplicaDescriptor_IsNonVoter d;
               liveNonVoters = ReplicaSet_FilterToDescriptors (isBoth ReplicaDescriptor_IsNonVoter liveFunc) d
           in res\<lparr>rsr_UnderReplicatedNonVoters := int (length liveNonVoters) < neededNonVoters,
                  rsr_OverReplicatedNonVoters := neededNonVoters < int (length nonVoters)\<rparr>)"

definition ReplicaSet_CanMakeProgress :: "(ReplicaDescriptor \<Rightarrow> bool) \<Rightarrow> ReplicaSet \<Rightarrow> bool" where
  "ReplicaSet_CanMakeProgress liveFunc d = rsr_Available (ReplicaSet_ReplicationStatus liveFunc 0 (-1) d)"

section \<open>Who may hold a lease\<close>

datatype lease_error = ErrReplicaNotFound | ErrReplicaCannotHoldLease | ErrStoreMismatch | ErrNodeMismatch

definition CheckCanReceiveLease :: "ReplicaDescriptor \<Rightarrow> ReplicaSet \<Rightarrow> bool \<Rightarrow> lease_error option" where
  "CheckCanReceiveLease wouldbeLeaseholder replDescs wasLastLeaseholder =
     (case ReplicaSet_GetReplicaDescriptorByID (rd_ReplicaID wouldbeLeaseholder) replDescs of
        None \<Rightarrow> Some ErrReplicaNotFound
      | Some repDesc \<Rightarrow>
          if rd_StoreID repDesc \<noteq> rd_StoreID wouldbeLeaseholder then Some ErrStoreMismatch
          else if rd_NodeID repDesc \<noteq> rd_NodeID wouldbeLeaseholder then Some ErrNodeMismatch
          else if \<not> (ReplicaDescriptor_IsVoterNewConfig repDesc \<or>
                     (ReplicaDescriptor_IsVoterOldConfig repDesc \<and> ReplicaSet_containsVoterIncoming replDescs \<and>
                      wasLastLeaseholder))
          then Some ErrReplicaCannotHoldLease
          else None)"

section \<open>Range descriptors\<close>

datatype desc_error = ErrNextReplicaIDZero | ErrNodeIDZero | ErrStoreIDZero | ErrReplicaIDZero | ErrReplicaIDTooLarge
  | ErrReplicaIDReused | ErrStoreIDReused

definition ReplicaDescriptor_Validate :: "ReplicaDescriptor \<Rightarrow> desc_error option" where
  "ReplicaDescriptor_Validate r =
     (if rd_NodeID r = 0 then Some ErrNodeIDZero
      else if rd_StoreID r = 0 then Some ErrStoreIDZero
      else if rd_ReplicaID r = 0 then Some ErrReplicaIDZero
      else None)"

definition RangeDescriptor_Replicas :: "RangeDescriptor \<Rightarrow> ReplicaSet" where
  "RangeDescriptor_Replicas r = MakeReplicaSet (rg_InternalReplicas r)"

definition RangeDescriptor_SetReplicas :: "ReplicaSet \<Rightarrow> RangeDescriptor \<Rightarrow> RangeDescriptor" where
  "RangeDescriptor_SetReplicas replicas r = r\<lparr>rg_InternalReplicas := ReplicaSet_Descriptors replicas\<rparr>"

definition RangeDescriptor_SetReplicaType ::
    "int \<Rightarrow> int \<Rightarrow> ReplicaType \<Rightarrow> RangeDescriptor \<Rightarrow> RangeDescriptor \<times> ReplicaDescriptor \<times> ReplicaType \<times> bool" where
  "RangeDescriptor_SetReplicaType nodeID storeID typ r =
     (case find_target nodeID storeID (rg_InternalReplicas r) of
        None \<Rightarrow> (r, ReplicaDescriptor_zero, VOTER_FULL, False)
      | Some i \<Rightarrow>
          let desc = rg_InternalReplicas r ! i;
              prevTyp = rd_Type desc;
              desc = desc\<lparr>rd_Type := typ\<rparr>
          in (r\<lparr>rg_InternalReplicas := (rg_InternalReplicas r)[i := desc]\<rparr>, desc, prevTyp, True))"

definition RangeDescriptor_AddReplica ::
    "int \<Rightarrow> int \<Rightarrow> ReplicaType \<Rightarrow> RangeDescriptor \<Rightarrow> RangeDescriptor \<times> ReplicaDescriptor" where
  "RangeDescriptor_AddReplica nodeID storeID typ r =
     (let toAdd = \<lparr>rd_NodeID = nodeID, rd_StoreID = storeID, rd_ReplicaID = rg_NextReplicaID r, rd_Type = typ\<rparr>;
          rs = ReplicaSet_AddReplica toAdd (RangeDescriptor_Replicas r);
          r = RangeDescriptor_SetReplicas rs r
      in (r\<lparr>rg_NextReplicaID := wrap_int32 (rg_NextReplicaID r + 1)\<rparr>, toAdd))"

definition RangeDescriptor_RemoveReplica ::
    "int \<Rightarrow> int \<Rightarrow> RangeDescriptor \<Rightarrow> RangeDescriptor \<times> ReplicaDescriptor \<times> bool" where
  "RangeDescriptor_RemoveReplica nodeID storeID r =
     (let (rs, removedRepl, ok) = ReplicaSet_RemoveReplica nodeID storeID (RangeDescriptor_Replicas r)
      in (if ok then RangeDescriptor_SetReplicas rs r else r, removedRepl, ok))"

fun find_store :: "int \<Rightarrow> ReplicaDescriptor list \<Rightarrow> ReplicaDescriptor option" where
  "find_store storeID [] = None"
| "find_store storeID (d # ds) = (if rd_StoreID d = storeID then Some d else find_store storeID ds)"

definition RangeDescriptor_GetReplicaDescriptor :: "int \<Rightarrow> RangeDescriptor \<Rightarrow> ReplicaDescriptor option" where
  "RangeDescriptor_GetReplicaDescriptor storeID r = find_store storeID (ReplicaSet_Descriptors (RangeDescriptor_Replicas r))"

definition RangeDescriptor_GetReplicaDescriptorByID :: "int \<Rightarrow> RangeDescriptor \<Rightarrow> ReplicaDescriptor option" where
  "RangeDescriptor_GetReplicaDescriptorByID replicaID r =
     ReplicaSet_GetReplicaDescriptorByID replicaID (RangeDescriptor_Replicas r)"

definition RangeDescriptor_IsInitialized :: "RangeDescriptor \<Rightarrow> bool" where
  "RangeDescriptor_IsInitialized r \<longleftrightarrow> length (rg_EndKey r) \<noteq> 0"

definition RangeDescriptor_IncrementGeneration :: "RangeDescriptor \<Rightarrow> RangeDescriptor" where
  "RangeDescriptor_IncrementGeneration r = r\<lparr>rg_Generation := wrap_int64 (rg_Generation r + 1)\<rparr>"

text \<open>The loop of \<open>Validate\<close> with the ids and stores seen so far.\<close>

fun Validate_loop :: "int \<Rightarrow> ReplicaDescriptor list \<Rightarrow> int set \<Rightarrow> int set \<Rightarrow> desc_error option" where
  "Validate_loop next [] seen stores = None"
| "Validate_loop next (rep # reps) seen stores =
     (case ReplicaDescriptor_Validate rep of
        Some err \<Rightarrow> Some err
      | None \<Rightarrow>
          if next \<le> rd_ReplicaID rep then Some ErrReplicaIDTooLarge
          else if rd_ReplicaID rep \<in> seen then Some ErrReplicaIDReused
          else if rd_StoreID rep \<in> stores then Some ErrStoreIDReused
          else Validate_loop next reps (insert (rd_ReplicaID rep) seen) (insert (rd_StoreID rep) stores))"

definition RangeDescriptor_Validate :: "RangeDescriptor \<Rightarrow> desc_error option" where
  "RangeDescriptor_Validate r =
     (if rg_NextReplicaID r = 0 then Some ErrNextReplicaIDZero
      else Validate_loop (rg_NextReplicaID r) (ReplicaSet_Descriptors (RangeDescriptor_Replicas r)) {} {})"

definition NewRangeDescriptor :: "int \<Rightarrow> string \<Rightarrow> string \<Rightarrow> ReplicaSet \<Rightarrow> RangeDescriptor" where
  "NewRangeDescriptor rangeID start end' replicas =
     (let repls = [] @ ReplicaSet_Descriptors replicas;
          repls = map (\<lambda>(i, d). d\<lparr>rd_ReplicaID := wrap_int32 (int i + 1)\<rparr>) (enumerate 0 repls);
          desc = \<lparr>rg_RangeID = rangeID, rg_StartKey = start, rg_EndKey = end', rg_InternalReplicas = [],
            rg_NextReplicaID = wrap_int32 (int (length repls) + 1), rg_Generation = 0, rg_StickyBit = Timestamp 0 0\<rparr>
      in RangeDescriptor_SetReplicas (MakeReplicaSet repls) desc)"

section \<open>Facts on the operations\<close>

abbreviation pid :: "ReplicaDescriptor \<Rightarrow> PeerID" where
  "pid d \<equiv> peer_of (rd_ReplicaID d)"

abbreviation IsVoterOld :: "ReplicaDescriptor \<Rightarrow> bool" where
  "IsVoterOld \<equiv> ReplicaDescriptor_IsVoterOldConfig"

abbreviation IsVoterNew :: "ReplicaDescriptor \<Rightarrow> bool" where
  "IsVoterNew \<equiv> ReplicaDescriptor_IsVoterNewConfig"

text \<open>The types by what raft makes of them.\<close>

definition raft_learner :: "ReplicaType \<Rightarrow> bool" where
  "raft_learner t \<longleftrightarrow> t = LEARNER \<or> t = NON_VOTER"

definition demoting :: "ReplicaType \<Rightarrow> bool" where
  "demoting t \<longleftrightarrow> t = VOTER_DEMOTING_LEARNER \<or> t = VOTER_DEMOTING_NON_VOTER"

definition changing :: "ReplicaType \<Rightarrow> bool" where
  "changing t \<longleftrightarrow> t = VOTER_INCOMING \<or> t = VOTER_OUTGOING \<or> demoting t"

definition known_type :: "ReplicaType \<Rightarrow> bool" where
  "known_type t = (case t of ReplicaType_unknown _ \<Rightarrow> False | _ \<Rightarrow> True)"

lemmas type_defs = raft_learner_def demoting_def changing_def known_type_def ReplicaDescriptor_IsVoterOldConfig_def
  ReplicaDescriptor_IsVoterNewConfig_def

lemma filter_loop_slow: "filter_loop pred w i ds False out = out @ filter pred ds"
  by (induction ds arbitrary: i out) auto

lemma filter_loop_fast:
  "list_all pred pre \<Longrightarrow> filter_loop pred (pre @ ds) (length pre) ds True (pre @ ds) = pre @ filter pred ds"
proof (induction ds arbitrary: pre)
  case (Cons d ds)
  then show ?case
    using Cons.IH [of "pre @ [d]"] by (auto simp: filter_loop_slow)
qed simp

lemma FilterToDescriptors_filter [simp]: "ReplicaSet_FilterToDescriptors pred d = filter pred (rs_wrapped d)"
  using filter_loop_fast [of pred "[]"] by (simp add: ReplicaSet_FilterToDescriptors_def)

lemma InAtomic_loop_known:
  "list_all (known_type \<circ> rd_Type) rs \<Longrightarrow> InAtomicReplicationChange_loop rs = Some (list_ex (changing \<circ> rd_Type) rs)"
  by (induction rs) (auto simp: type_defs split: ReplicaType.splits)

lemma InAtomic_loop_False: "InAtomicReplicationChange_loop rs = Some False \<Longrightarrow> list_all (known_type \<circ> rd_Type) rs"
  by (induction rs) (auto simp: type_defs split: ReplicaType.splits)

lemma ConfState_add_known:
  assumes "known_type (rd_Type d)" and "j \<or> \<not> changing (rd_Type d)"
  shows "ConfState_add j d cs = Some (cs\<lparr>
    cs_Voters := cs_Voters cs @ (if IsVoterNew d then [pid d] else []),
    cs_VotersOutgoing := cs_VotersOutgoing cs @ (if j \<and> IsVoterOld d then [pid d] else []),
    cs_Learners := cs_Learners cs @ (if raft_learner (rd_Type d) then [pid d] else []),
    cs_LearnersNext := cs_LearnersNext cs @ (if demoting (rd_Type d) then [pid d] else [])\<rparr>)"
  using assms by (cases "rd_Type d") (auto simp: ConfState_add_def type_defs Let_def)

lemma ConfState_fold:
  assumes "list_all (known_type \<circ> rd_Type) rs" and "j \<or> \<not> list_ex (changing \<circ> rd_Type) rs"
  shows "foldM (ConfState_add j) rs cs = Some (cs\<lparr>
    cs_Voters := cs_Voters cs @ map pid (filter IsVoterNew rs),
    cs_VotersOutgoing := cs_VotersOutgoing cs @ (if j then map pid (filter IsVoterOld rs) else []),
    cs_Learners := cs_Learners cs @ map pid (filter (raft_learner \<circ> rd_Type) rs),
    cs_LearnersNext := cs_LearnersNext cs @ map pid (filter (demoting \<circ> rd_Type) rs)\<rparr>)"
  using assms by (induction rs arbitrary: cs) (auto simp: ConfState_add_known)

lemma ConfState_known:
  assumes "list_all (known_type \<circ> rd_Type) (rs_wrapped d)"
  shows "ReplicaSet_ConfState d = Some \<lparr>
    cs_Voters = map pid (filter IsVoterNew (rs_wrapped d)),
    cs_Learners = map pid (filter (raft_learner \<circ> rd_Type) (rs_wrapped d)),
    cs_VotersOutgoing = (if list_ex (changing \<circ> rd_Type) (rs_wrapped d) then map pid (filter IsVoterOld (rs_wrapped d)) else []),
    cs_LearnersNext = map pid (filter (demoting \<circ> rd_Type) (rs_wrapped d)), cs_AutoLeave = False\<rparr>"
  using InAtomic_loop_known [OF assms] ConfState_fold [OF assms, of "list_ex (changing \<circ> rd_Type) (rs_wrapped d)"]
  by (auto simp: ReplicaSet_ConfState_def ReplicaSet_InAtomicReplicationChange_def ConfState_zero_def)

lemma ConfState_Some_known: "ReplicaSet_ConfState d = Some cs \<Longrightarrow> list_all (known_type \<circ> rd_Type) (rs_wrapped d)"
proof -
  have "foldM (ConfState_add j) rs cs0 = Some cs \<Longrightarrow> list_all (known_type \<circ> rd_Type) rs" for j rs cs0
  proof (induction rs arbitrary: cs0)
    case (Cons x xs)
    then show ?case by (cases "rd_Type x") (auto simp: bind_Some_iff ConfState_add_def known_type_def Let_def)
  qed simp
  then show "ReplicaSet_ConfState d = Some cs \<Longrightarrow> ?thesis"
    by (auto simp: ReplicaSet_ConfState_def bind_Some_iff)
qed

text \<open>Replica ids are 32 bit integers: peers are distinct when the ids are.\<close>

definition int32 :: "int \<Rightarrow> bool" where
  "int32 i \<longleftrightarrow> - (2 ^ 31) \<le> i \<and> i \<le> MaxInt32"

lemma peer_of_eq_iff: "int32 i \<Longrightarrow> int32 k \<Longrightarrow> peer_of i = peer_of k \<longleftrightarrow> i = k"
proof -
  have "sint (peer_of i) = i" if "int32 i" for i
    using that by (simp add: peer_of_def int32_def signed_take_bit_int_eq_self signed_of_int)
  then show "int32 i \<Longrightarrow> int32 k \<Longrightarrow> ?thesis" by metis
qed

lemma peer_of_zero: "int32 i \<Longrightarrow> peer_of i = 0 \<longleftrightarrow> i = 0"
  using peer_of_eq_iff [of i 0] by (simp add: int32_def peer_of_def)

text \<open>What \<open>Validate\<close> establishes.\<close>

lemma Validate_loop_None:
  "Validate_loop nxt reps seen stores = None \<longleftrightarrow>
     (\<forall>r \<in> set reps. rd_NodeID r \<noteq> 0 \<and> rd_StoreID r \<noteq> 0 \<and> rd_ReplicaID r \<noteq> 0 \<and> rd_ReplicaID r < nxt) \<and>
     distinct (map rd_ReplicaID reps) \<and> rd_ReplicaID ` set reps \<inter> seen = {} \<and>
     distinct (map rd_StoreID reps) \<and> rd_StoreID ` set reps \<inter> stores = {}"
  by (induction reps arbitrary: seen stores) (auto simp: ReplicaDescriptor_Validate_def)

definition desc_ok :: "RangeDescriptor \<Rightarrow> bool" where
  "desc_ok r \<longleftrightarrow> RangeDescriptor_Validate r = None \<and> list_all (int32 \<circ> rd_ReplicaID) (rg_InternalReplicas r)"

lemma desc_okD:
  assumes "desc_ok r"
  shows "d \<in> set (rg_InternalReplicas r) \<Longrightarrow> rd_ReplicaID d \<noteq> 0 \<and> rd_ReplicaID d < rg_NextReplicaID r \<and> int32 (rd_ReplicaID d)"
    and "distinct (map rd_ReplicaID (rg_InternalReplicas r))" and "distinct (map rd_StoreID (rg_InternalReplicas r))"
  using assms
  by (auto simp: desc_ok_def RangeDescriptor_Validate_def Validate_loop_None RangeDescriptor_Replicas_def MakeReplicaSet_def
    ReplicaSet_Descriptors_def list_all_iff split: if_splits)

lemma desc_ok_inj: "desc_ok r \<Longrightarrow> inj_on pid (set (rg_InternalReplicas r))"
  by (rule inj_onI) (metis desc_okD(1,2) distinct_map inj_onD peer_of_eq_iff)

lemma desc_ok_distinct: "desc_ok r \<Longrightarrow> distinct (map pid (filter P (rg_InternalReplicas r)))"
  using desc_ok_inj [of r] desc_okD(2) [of r] by (auto simp: distinct_map intro: inj_on_subset)

section \<open>Availability\<close>

text \<open>The ballots of the live replicas.\<close>

definition live_ballots :: "(ReplicaDescriptor \<Rightarrow> bool) \<Rightarrow> ReplicaDescriptor list \<Rightarrow> (PeerID, bool) fmap" where
  "live_ballots live rs = fmap_of_list (map (\<lambda>d. (pid d, live d)) rs)"

lemma live_ballots_True:
  assumes "desc_ok r"
  shows "{p. fmlookup (live_ballots live (rg_InternalReplicas r)) p = Some True} = pid ` {d \<in> set (rg_InternalReplicas r). live d}"
proof -
  have "distinct (map fst (map (\<lambda>d. (pid d, live d)) (rg_InternalReplicas r)))"
    using desc_ok_distinct [OF assms, of "\<lambda>_. True"] by (simp add: comp_def)
  then show ?thesis
    by (auto simp: live_ballots_def fmlookup_of_list map_of_eq_Some_iff image_iff)
qed

lemma live_majority:
  assumes "desc_ok r" and "keys h = fset_of_list (map pid (filter P (rg_InternalReplicas r)))"
  shows "majority h {p. fmlookup (live_ballots live (rg_InternalReplicas r)) p = Some True} \<longleftrightarrow>
    length (filter P (rg_InternalReplicas r)) div 2 + 1 \<le> length (filter (\<lambda>d. P d \<and> live d) (rg_InternalReplicas r))"
proof -
  let ?rs = "rg_InternalReplicas r"
  have card: "card (set (map pid (filter Q ?rs))) = length (filter Q ?rs)" for Q
    using distinct_card [OF desc_ok_distinct [OF assms(1)], of Q] by simp
  have keys: "fset (keys h) = set (map pid (filter P ?rs))"
    unfolding assms(2) fset_of_list.rep_eq ..
  have both: "set (map pid (filter P ?rs)) \<inter> pid ` {d \<in> set ?rs. live d} = set (map pid (filter (\<lambda>d. P d \<and> live d) ?rs))"
    using desc_ok_inj [OF assms(1)] by (auto dest: inj_onD)
  show ?thesis
    unfolding majority_def live_ballots_True [OF assms(1)] keys both card by presburger
qed

lemma desc_ok_ConfState:
  assumes "desc_ok r" and "ReplicaSet_ConfState (RangeDescriptor_Replicas r) = Some cs"
    and "list_ex IsVoterNew (rg_InternalReplicas r)"
  shows "valid_ConfState cs"
proof -
  let ?rs = "rg_InternalReplicas r"
  have known: "list_all (known_type \<circ> rd_Type) (rs_wrapped (RangeDescriptor_Replicas r))"
    by (rule ConfState_Some_known [OF assms(2)])
  have rs: "rs_wrapped (RangeDescriptor_Replicas r) = ?rs"
    by (simp add: RangeDescriptor_Replicas_def MakeReplicaSet_def)
  have zero: "pid d \<noteq> 0" if "d \<in> set ?rs" for d
    using desc_okD(1) [OF assms(1) that] peer_of_zero by blast
  have same: "pid d = pid e \<Longrightarrow> d \<in> set ?rs \<Longrightarrow> e \<in> set ?rs \<Longrightarrow> d = e" for d e
    using desc_ok_inj [OF assms(1)] by (auto dest: inj_onD)
  have learner: "\<not> IsVoterNew d \<and> \<not> IsVoterOld d" if "raft_learner (rd_Type d)" for d
    using that by (auto simp: type_defs)
  have dem: "IsVoterOld d \<and> \<not> IsVoterNew d \<and> changing (rd_Type d)" if "demoting (rd_Type d)" for d
    using that by (auto simp: type_defs)
  have disj: "pid ` {d \<in> set ?rs. P d} \<inter> pid ` {d \<in> set ?rs. Q d} = {}" if "\<And>d. P d \<Longrightarrow> \<not> Q d" for P Q
    using same that by blast
  note cs = ConfState_known [OF known, unfolded assms(2) rs option.inject]
  have "cs_Voters cs \<noteq> []"
    using assms(3) by (auto simp: cs list_ex_iff filter_empty_conv)
  moreover have "0 \<notin> set (cs_Voters cs) \<union> set (cs_Learners cs) \<union> set (cs_VotersOutgoing cs)"
    using zero by (auto simp: cs)
  moreover have "distinct (cs_Voters cs)" "distinct (cs_Learners cs)" "distinct (cs_VotersOutgoing cs)" "distinct (cs_LearnersNext cs)"
    using desc_ok_distinct [OF assms(1)] by (simp_all add: cs)
  moreover have "set (cs_Learners cs) \<inter> (set (cs_Voters cs) \<union> set (cs_VotersOutgoing cs)) = {}"
    using disj [of "raft_learner \<circ> rd_Type" IsVoterNew] disj [of "raft_learner \<circ> rd_Type" IsVoterOld] learner
    by (cases "list_ex (changing \<circ> rd_Type) ?rs") (simp_all add: cs Int_Un_distrib)
  moreover have "set (cs_LearnersNext cs) \<inter> set (cs_Voters cs) = {}"
    using disj [of "demoting \<circ> rd_Type" IsVoterNew] dem by (simp add: cs)
  moreover have "set (cs_LearnersNext cs) \<subseteq> set (cs_VotersOutgoing cs)"
    using dem by (auto simp: cs list_ex_iff)
  ultimately show ?thesis
    by (auto simp: valid_ConfState_def cs)
qed

lemma ConfState_Equivalent_keys:
  assumes "ConfState_Equivalent (Config_ConfState cfg) cs"
  shows "keys (fst (c_Voters cfg)) = fset_of_list (cs_Voters cs)"
    and "keys (snd (c_Voters cfg)) = fset_of_list (cs_VotersOutgoing cs)"
proof -
  have "keys m = fset_of_list xs" if "mset (ranged m) = mset xs" for m and xs :: "PeerID list"
    using mset_eq_setD [OF that] by (intro fset_eqI) (simp add: fset_of_list.rep_eq)
  then show "keys (fst (c_Voters cfg)) = fset_of_list (cs_Voters cs)"
    and "keys (snd (c_Voters cfg)) = fset_of_list (cs_VotersOutgoing cs)"
    using assms by (simp_all add: ConfState_Equivalent_iff Config_ConfState_def MajorityConfig_Slice_def)
qed

section \<open>Properties\<close>

text \<open>
  Property C34: the availability that is computed from the descriptors is that of raft. For a
  valid range descriptor with a voter in the new configuration, the raft configuration
  restored from its \<open>ConfState\<close> is valid, and \<open>CanMakeProgress\<close> with some replicas live holds
  exactly when the ballots of the live replicas win a vote in this configuration, which
  is joint while the range is in an atomic replication change.
\<close>

theorem CanMakeProgress_is_raft_quorum:
  assumes "desc_ok r" and "ReplicaSet_ConfState (RangeDescriptor_Replicas r) = Some cs"
    and "list_ex ReplicaDescriptor_IsVoterNewConfig (rg_InternalReplicas r)"
    and "chg_Config chg = MakeEmptyConfig" and "chg_ProgressMap chg = fmempty"
  shows "\<exists>cfg trk. Restore chg cs = Some (Inr (cfg, trk)) \<and> checkInvariants cfg trk = None \<and>
    (ReplicaSet_CanMakeProgress live (RangeDescriptor_Replicas r) \<longleftrightarrow>
     JointConfig_VoteResult (c_Voters cfg) (live_ballots live (rg_InternalReplicas r)) = VoteWon)"
proof -
  let ?rs = "rg_InternalReplicas r"
  have rs: "rs_wrapped (RangeDescriptor_Replicas r) = ?rs"
    by (simp add: RangeDescriptor_Replicas_def MakeReplicaSet_def)
  note cs = ConfState_known [OF ConfState_Some_known [OF assms(2)], unfolded assms(2) rs option.inject]
  have valid: "valid_ConfState cs"
    by (rule desc_ok_ConfState [OF assms(1-3)])
  obtain cfg trk where r: "Restore chg cs = Some (Inr (cfg, trk))" "valid_config (cfg, trk)"
      "ConfState_Equivalent (Config_ConfState cfg) cs"
    using Restore_plain [OF valid _ assms(4,5)] Restore_joint [OF valid _ assms(4,5)] by blast
  have voters: "keys (fst (c_Voters cfg)) = fset_of_list (map pid (filter IsVoterNew ?rs))"
    and outgoing: "keys (snd (c_Voters cfg)) =
      fset_of_list (if list_ex (changing \<circ> rd_Type) ?rs then map pid (filter IsVoterOld ?rs) else [])"
    unfolding ConfState_Equivalent_keys [OF r(3)] cs by simp_all
  have progress: "ReplicaSet_CanMakeProgress live (RangeDescriptor_Replicas r) \<longleftrightarrow>
      length (filter IsVoterNew ?rs) div 2 + 1 \<le> length (filter (\<lambda>d. IsVoterNew d \<and> live d) ?rs) \<and>
      (filter IsVoterOld ?rs = [] \<or>
       length (filter IsVoterOld ?rs) div 2 + 1 \<le> length (filter (\<lambda>d. IsVoterOld d \<and> live d) ?rs))"
    by (simp add: ReplicaSet_CanMakeProgress_def ReplicaSet_ReplicationStatus_def Let_def rs)
  have some: "keys (fst (c_Voters cfg)) \<noteq> {||}"
    unfolding voters fset_of_list_eq_empty map_is_Nil_conv filter_empty_conv using assms(3) by (auto simp: list_ex_iff)
  have "ReplicaSet_CanMakeProgress live (RangeDescriptor_Replicas r) \<longleftrightarrow>
      joint_quorum (c_Voters cfg) {p. fmlookup (live_ballots live ?rs) p = Some True}"
  proof (cases "list_ex (changing \<circ> rd_Type) ?rs")
    case True
    then have old: "keys (snd (c_Voters cfg)) = fset_of_list (map pid (filter IsVoterOld ?rs))"
      using outgoing by simp
    then have "keys (snd (c_Voters cfg)) = {||} \<longleftrightarrow> filter IsVoterOld ?rs = []"
      by (simp only: fset_of_list_eq_empty map_is_Nil_conv)
    then show ?thesis
      using some live_majority [OF assms(1) voters] live_majority [OF assms(1) old]
      unfolding progress joint_quorum_def by simp
  next
    case False
    then have "IsVoterOld d = IsVoterNew d" if "d \<in> set ?rs" for d
      using that by (auto simp: list_ex_iff type_defs split: ReplicaType.splits)
    then have "filter IsVoterOld ?rs = filter IsVoterNew ?rs"
      and "filter (\<lambda>d. IsVoterOld d \<and> live d) ?rs = filter (\<lambda>d. IsVoterNew d \<and> live d) ?rs"
      by (auto intro: filter_cong)
    moreover have "keys (snd (c_Voters cfg)) = {||}"
      using outgoing False by simp
    ultimately show ?thesis
      using some live_majority [OF assms(1) voters] unfolding progress joint_quorum_def by auto
  qed
  with r valid_configD(2) [OF r(2)] show ?thesis
    by (auto simp: VoteWon_joint_quorum)
qed

definition ex_range :: RangeDescriptor where
  "ex_range = \<lparr>rg_RangeID = 7, rg_StartKey = ''a'', rg_EndKey = ''b'', rg_InternalReplicas =
     [\<lparr>rd_NodeID = 1, rd_StoreID = 1, rd_ReplicaID = 1, rd_Type = VOTER_FULL\<rparr>,
      \<lparr>rd_NodeID = 2, rd_StoreID = 2, rd_ReplicaID = 2, rd_Type = VOTER_FULL\<rparr>,
      \<lparr>rd_NodeID = 3, rd_StoreID = 3, rd_ReplicaID = 3, rd_Type = VOTER_OUTGOING\<rparr>,
      \<lparr>rd_NodeID = 4, rd_StoreID = 4, rd_ReplicaID = 4, rd_Type = VOTER_INCOMING\<rparr>],
     rg_NextReplicaID = 5, rg_Generation = 3, rg_StickyBit = Timestamp 0 0\<rparr>"

theorem CanMakeProgress_is_raft_quorum_witness:
  "\<exists>cfg trk. Restore \<lparr>chg_Config = MakeEmptyConfig, chg_ProgressMap = fmempty, chg_MaxInflight = 4,
      chg_MaxInflightBytes = 0, chg_LastIndex = 3\<rparr> (the (ReplicaSet_ConfState (RangeDescriptor_Replicas ex_range)))
      = Some (Inr (cfg, trk)) \<and>
    JointConfig_VoteResult (c_Voters cfg) (live_ballots (\<lambda>d. rd_NodeID d \<noteq> 1) (rg_InternalReplicas ex_range)) = VoteWon \<and>
    ReplicaSet_CanMakeProgress (\<lambda>d. rd_NodeID d \<noteq> 1) (RangeDescriptor_Replicas ex_range)"
proof -
  let ?chg = "\<lparr>chg_Config = MakeEmptyConfig, chg_ProgressMap = fmempty, chg_MaxInflight = 4,
      chg_MaxInflightBytes = 0, chg_LastIndex = 3\<rparr>"
  have "ReplicaSet_ConfState (RangeDescriptor_Replicas ex_range) \<noteq> None"
    and live: "ReplicaSet_CanMakeProgress (\<lambda>d. rd_NodeID d \<noteq> 1) (RangeDescriptor_Replicas ex_range)"
    by code_simp+
  then have cs: "ReplicaSet_ConfState (RangeDescriptor_Replicas ex_range)
      = Some (the (ReplicaSet_ConfState (RangeDescriptor_Replicas ex_range)))"
    by auto
  have "desc_ok ex_range"
    by (simp add: desc_ok_def ex_range_def RangeDescriptor_Validate_def ReplicaDescriptor_Validate_def int32_def
      RangeDescriptor_Replicas_def MakeReplicaSet_def ReplicaSet_Descriptors_def)
  moreover have "list_ex ReplicaDescriptor_IsVoterNewConfig (rg_InternalReplicas ex_range)"
    by (simp add: ex_range_def ReplicaDescriptor_IsVoterNewConfig_def)
  ultimately show ?thesis
    using CanMakeProgress_is_raft_quorum [OF _ cs, of ?chg "\<lambda>d. rd_NodeID d \<noteq> 1"] live by auto
qed

end
