(* ===== verification/Replica_Liveness.thy ===== *)
theory Replica_Liveness
  imports Support_Cluster Raft_Election Replica_Set
begin

text \<open>
  How raft uses the store liveness fabric: the adapter of a replica
  (\<open>kv/kvserver/replica_store_liveness.go\<close>), which maps peers to stores by the range
  descriptor (\<open>roachpb/metadata.go\<close>) and asks the support manager of its store. The
  fortification of a leader rests on these answers.
\<close>

section \<open>The adapter\<close>

text \<open>
  What the adapter reads of its replica: the descriptor of the range, the support manager
  of the store if it has one, the clock of the store with the next reading of the wall
  clock, and the settings. Whether the leader fortification is rolled out to the range is a
  setting here.
\<close>

record replicaRLockedStoreLiveness =
  rl_Desc :: RangeDescriptor
  rl_storeLiveness :: "SupportManager option"
  rl_Clock :: Clock
  rl_physicalClock :: int
  rl_clusterSetting :: bool
  rl_versionGate :: bool
  rl_fortifyEnabled :: bool

definition replica_getStoreIdent :: "replicaRLockedStoreLiveness \<Rightarrow> PeerID \<Rightarrow> StoreIdent option" where
  "replica_getStoreIdent rl replicaID =
     (case RangeDescriptor_GetReplicaDescriptorByID (wrap_int32 (uint replicaID)) (rl_Desc rl) of
        None \<Rightarrow> None
      | Some desc \<Rightarrow> Some (StoreIdent (rd_NodeID desc) (rd_StoreID desc)))"

definition replica_SupportFor :: "replicaRLockedStoreLiveness \<Rightarrow> PeerID \<Rightarrow> Epoch \<times> bool" where
  "replica_SupportFor rl replicaID =
     (case replica_getStoreIdent rl replicaID of
        None \<Rightarrow> (0, False)
      | Some storeID \<Rightarrow>
          (case rl_storeLiveness rl of
             None \<Rightarrow> (0, False)
           | Some sm \<Rightarrow>
               (case SupportManager_SupportFor storeID sm of (epoch, ok) \<Rightarrow> if \<not> ok then (0, False) else (epoch, True))))"

text \<open>The query also marks the store as queried, which the support manager does.\<close>

definition replica_SupportFrom :: "replicaRLockedStoreLiveness \<Rightarrow> PeerID \<Rightarrow> (Epoch \<times> Timestamp \<times> bool) go" where
  "replica_SupportFrom rl replicaID =
     (case replica_getStoreIdent rl replicaID of
        None \<Rightarrow> Some (0, Timestamp 0 0, False)
      | Some storeID \<Rightarrow> do {
          sm \<leftarrow> rl_storeLiveness rl;
          let (_, epoch, exp, ok) = SupportManager_SupportFrom storeID sm;
          Some (if \<not> ok then (0, Timestamp 0 0, False) else (epoch, exp, True))
        })"

definition replica_SupportFromEnabled :: "replicaRLockedStoreLiveness \<Rightarrow> bool go" where
  "replica_SupportFromEnabled rl = do {
     _ \<leftarrow> rl_storeLiveness rl;
     if \<not> SupportManager_SupportFromEnabled (rl_clusterSetting rl) (rl_versionGate rl) then Some False
     else Some (rl_fortifyEnabled rl)
   }"

definition replica_SupportExpired :: "replicaRLockedStoreLiveness \<Rightarrow> Timestamp \<Rightarrow> bool go" where
  "replica_SupportExpired rl ts = do {
     (_, now) \<leftarrow> Clock_Now (rl_physicalClock rl) (rl_Clock rl);
     Some (Timestamp_Less ts now)
   }"

text \<open>The fabric that raft sees.\<close>

definition replica_StoreLiveness :: "replicaRLockedStoreLiveness \<Rightarrow> StoreLiveness" where
  "replica_StoreLiveness rl =
     \<lparr>sl_SupportFor = (\<lambda>i. Some (replica_SupportFor rl i)), sl_SupportFrom = replica_SupportFrom rl,
      sl_SupportFromEnabled = replica_SupportFromEnabled rl,
      sl_SupportExpired = replica_SupportExpired rl\<rparr>"

section \<open>Fortified followers\<close>

lemma supportingFortifiedLeader_adapter:
  assumes "r_storeLiveness r = replica_StoreLiveness rl" and "rl_storeLiveness rl = Some sm"
    and "replica_getStoreIdent rl (r_lead r) = Some store" and "r_leadEpoch r \<noteq> 0" and "r_lead r \<noteq> PeerNone"
  shows "raft_supportingFortifiedLeader r =
    (case SupportManager_SupportFor store sm of (epoch, ok) \<Rightarrow>
       let epoch = (if ok then epoch else 0) in
       if r_leadEpoch r \<le> epoch then Some (ok \<and> epoch = r_leadEpoch r) else None)"
  using assms
  by (auto simp: raft_supportingFortifiedLeader_def replica_StoreLiveness_def replica_SupportFor_def assertTrue_def
    split: prod.splits)

lemma SupportFor_cases:
  "SupportManager_SupportFor j sm = (0, False) \<or> (\<exists>e. SupportManager_SupportFor j sm = (e, True))"
  by (auto simp: SupportManager_SupportFor_def Let_def)

section \<open>An example\<close>

text \<open>
  Store 2 of the example run supports store 1 in epoch 1. A follower on store 2 is fortified
  by the leader on store 1; later the store withdraws its support.
\<close>

definition ex_B4 :: SupportManager where
  "ex_B4 = fst (the (SupportManager_startLoop reliable_engine (SlSupportExpiryTick 500) ex_B3))"

definition ex_replica :: "SupportManager \<Rightarrow> replicaRLockedStoreLiveness" where
  "ex_replica sm = \<lparr>rl_Desc = ex_range,
     rl_storeLiveness = Some sm, rl_Clock = sm_clock sm, rl_physicalClock = 20,
     rl_clusterSetting = True, rl_versionGate = True, rl_fortifyEnabled = True\<rparr>"

definition ex_pair_disk :: Storage where
  "ex_pair_disk = MemoryStorage_Storage (fixed_codec 10) (NewMemoryStorage\<lparr>ms_snapshot := Snapshot_zero
     \<lparr>s_Metadata := \<lparr>sm_ConfState = ConfState_zero\<lparr>cs_Voters := [1, 2]\<rparr>, sm_Index = 0, sm_Term = 0\<rparr>\<rparr>\<rparr>)"

definition ex_follower :: raft where
  "ex_follower = fst (the (raft_Step (fixed_codec 10) (Message_zero\<lparr>m_Type := MsgFortifyLeader, m_From := 1, m_To := 2, m_Term := 1\<rparr>)
     (the (newRaft (fixed_codec 10) (ex_config\<lparr>rc_ID := 2, rc_Storage := Some ex_pair_disk,
       rc_StoreLiveness := replica_StoreLiveness (ex_replica ex_B3)\<rparr>)))))"

definition ex_fortified :: "SupportManager \<Rightarrow> raft" where
  "ex_fortified sm = ex_follower\<lparr>r_storeLiveness := replica_StoreLiveness (ex_replica sm)\<rparr>"

lemma ex_fortified_facts:
  "r_leadEpoch ex_follower = 1" "r_lead ex_follower = 1" "r_id ex_follower = 2" "r_state ex_follower = StateFollower"
  "r_Term ex_follower = 1" "raftLog_lastEntryID (r_raftLog ex_follower) \<noteq> None"
  by code_simp+

lemma ex_replica_store: "replica_getStoreIdent (ex_replica sm) 1 = Some ex_A"
  by (simp add: replica_getStoreIdent_def ex_replica_def ex_range_def RangeDescriptor_GetReplicaDescriptorByID_def
    RangeDescriptor_Replicas_def MakeReplicaSet_def ReplicaSet_GetReplicaDescriptorByID_def)

lemma ex_support_facts:
  "SupportManager_SupportFor ex_A ex_B3 = (1, True)"
  "ss_Expiration (supporterStateHandler_getSupportFor ex_A (sm_supporter ex_B4)) = Timestamp 0 0"
  by code_simp+

section \<open>Properties\<close>

text \<open>
  Property C35: a follower that is fortified in an epoch and whose store still supports the
  store of its leader in this epoch does not disturb the leader: its election tick only
  resets the timer, it does not campaign, and it ignores the (pre-)vote requests at higher
  terms. Two kinds of request are exempt in the code and not covered: those of a
  transfer of the leadership, which carry the context \<open>campaignTransfer\<close>, and those of
  the leader itself. The last entry of the log is taken to be readable, since the message
  logged for an ignored request reads it.
\<close>

theorem fortified_follower_refuses_elections:
  assumes "r_storeLiveness r = replica_StoreLiveness rl" and "rl_storeLiveness rl = Some sm"
    and "replica_getStoreIdent rl (r_lead r) = Some store" and "r_leadEpoch r \<noteq> 0" and "r_lead r \<noteq> PeerNone"
    and "SupportManager_SupportFor store sm = (r_leadEpoch r, True)"
    and "r_state r \<noteq> StateLeader" and "r_lead r \<noteq> r_id r"
    and "m_Type m = MsgVote \<or> m_Type m = MsgPreVote" and "r_Term r < m_Term m"
    and "m_Context m \<noteq> campaignTransfer" and "m_From m \<noteq> r_lead r" and "raftLog_lastEntryID (r_raftLog r) \<noteq> None"
  shows "raft_tickElection cd r = Some (r\<lparr>r_electionElapsed := 0\<rparr>) \<and> raft_hup cd t r = Some r
    \<and> raft_Step cd m r = Some (r, None)"
proof -
  have sup: "raft_supportingFortifiedLeader r = Some True"
    using supportingFortifiedLeader_adapter [OF assms(1-5)] assms(6) by simp
  have "raft_Step_term m r = Some (r, False)"
    using sup assms(9-13) by (auto simp: raft_Step_term_def raft_Step_higherTerm_def raft_Step_checkLease_def Let_def)
  then have "raft_Step cd m r = Some (r, None)"
    by (simp add: raft_Step.simps)
  moreover have "raft_tickElection cd r = Some (r\<lparr>r_electionElapsed := 0\<rparr>)"
    using sup assms(4,7) by (simp add: raft_tickElection_def raft_tickSupport_def)
  moreover have "raft_hup cd t r = Some r"
    using sup assms(8) by (simp add: raft_hup_def)
  ultimately show ?thesis by blast
qed

theorem fortified_follower_refuses_elections_witness:
  "raft_Step (fixed_codec 10) (Message_zero\<lparr>m_Type := MsgVote, m_From := 3, m_To := 2, m_Term := 9\<rparr>) (ex_fortified ex_B3)
   = Some (ex_fortified ex_B3, None)"
proof -
  have "raft_tickElection (fixed_codec 10) (ex_fortified ex_B3) = Some ((ex_fortified ex_B3)\<lparr>r_electionElapsed := 0\<rparr>)
    \<and> raft_hup (fixed_codec 10) campaignElection (ex_fortified ex_B3) = Some (ex_fortified ex_B3)
    \<and> raft_Step (fixed_codec 10) (Message_zero\<lparr>m_Type := MsgVote, m_From := 3, m_To := 2, m_Term := 9\<rparr>) (ex_fortified ex_B3)
      = Some (ex_fortified ex_B3, None)"
    by (rule fortified_follower_refuses_elections [of _ "ex_replica ex_B3" ex_B3 ex_A])
      (use ex_fortified_facts ex_replica_store ex_support_facts in
        \<open>simp_all add: ex_fortified_def ex_replica_def campaignTransfer_def Message_zero_def\<close>)
  then show ?thesis by blast
qed

text \<open>
  Property C36: when the store of a fortified follower has withdrawn its support for the store
  of the leader, the follower panics at its next election tick instead of de-fortifying:
  \<open>SupportFor\<close> then returns epoch 0, as the interface documents, and
  \<open>supportingFortifiedLeader\<close> asserts that the epoch did not go back. It panics as well
  when it is to campaign or receives a vote request of a higher term.
\<close>

theorem withdrawn_support_panics_fortified_follower:
  assumes "r_storeLiveness r = replica_StoreLiveness rl" and "rl_storeLiveness rl = Some sm"
    and "replica_getStoreIdent rl (r_lead r) = Some store" and "0 < r_leadEpoch r" and "r_lead r \<noteq> PeerNone"
    and "ss_Expiration (supporterStateHandler_getSupportFor store (sm_supporter sm)) = Timestamp 0 0"
  shows "raft_tickElection cd r = None
    \<and> (r_state r \<noteq> StateLeader \<and> raft_promotable r \<longrightarrow> raft_hup cd t r = None)
    \<and> (m_Type m = MsgVote \<and> r_Term r < m_Term m \<longrightarrow> raft_Step cd m r = None)"
proof -
  have "SupportManager_SupportFor store sm = (0, False)"
    using assms(6) by (simp add: SupportManager_SupportFor_def Timestamp_IsEmpty_def Let_def)
  then have sup: "raft_supportingFortifiedLeader r = None"
    using supportingFortifiedLeader_adapter [OF assms(1-3) _ assms(5)] assms(4) by simp
  then show ?thesis
    using assms(4)
    by (auto simp: raft_tickElection_def raft_tickSupport_def raft_hup_def raft_Step.simps raft_Step_term_def
      raft_Step_higherTerm_def raft_Step_checkLease_def Let_def assertTrue_def word_less_def)
qed

theorem withdrawn_support_panics_fortified_follower_witness:
  "raft_tickElection (fixed_codec 10) (ex_fortified ex_B4) = None"
proof -
  have "raft_tickElection (fixed_codec 10) (ex_fortified ex_B4) = None
    \<and> (r_state (ex_fortified ex_B4) \<noteq> StateLeader \<and> raft_promotable (ex_fortified ex_B4)
        \<longrightarrow> raft_hup (fixed_codec 10) campaignElection (ex_fortified ex_B4) = None)
    \<and> (m_Type Message_zero = MsgVote \<and> r_Term (ex_fortified ex_B4) < m_Term Message_zero
        \<longrightarrow> raft_Step (fixed_codec 10) Message_zero (ex_fortified ex_B4) = None)"
    by (rule withdrawn_support_panics_fortified_follower [of _ "ex_replica ex_B4" ex_B4 ex_A])
      (use ex_fortified_facts ex_replica_store ex_support_facts in
        \<open>simp_all add: ex_fortified_def ex_replica_def\<close>)
  then show ?thesis by blast
qed

end
