(* ===== verification/Spec2Isabelle.thy ===== *)
theory Spec2Isabelle
  imports Raft_Status Replica_Liveness
begin

text \<open>
  A verification library for the replication layer of the key-value store: the consensus
  module \<open>src/pkg/raft\<close>, the clock \<open>src/pkg/util/hlc\<close>, the store liveness fabric
  \<open>src/pkg/kv/kvserver/storeliveness\<close> with its adapter to raft, the storage messages as the
  log store reads them, and the replicas of a range in \<open>src/pkg/roachpb\<close>.

  \<^bold>\<open>How the parts interact.\<close> A \<open>RawNode\<close> passes messages and ticks to a \<open>raft\<close> state machine.
  It appends to a \<open>raftLog\<close>, which is a \<open>Storage\<close> followed by unstable entries; tracks its
  followers by \<open>Progress\<close> and \<open>Inflights\<close>; decides votes and commitment by the quorums of a
  joint configuration, which \<open>confchange\<close> changes; and hands out a \<open>Ready\<close> whose messages
  the replica splits for the storage threads. Stores promise each other support until a
  timestamp of the hybrid logical clock. A replica maps the peers of raft to stores by
  the range descriptor and asks its store for this support, on which fortified leaders
  rely. The range descriptor also describes the raft configuration.

  \<^bold>\<open>Conventions.\<close> A computation that may panic or end the process (\<open>log.Fatalf\<close>) has type
  \<open>'a go\<close>, an option, with \<^term>\<open>None\<close> as the panic; a result with an error is a sum. A struct
  is a record, with a prefix on the fields that tells the type; a method \<open>M\<close> of type \<open>T\<close> is
  \<open>T_M\<close>, or has the name of the package where that is clear, and returns the changed
  receiver. Indices, terms and peers are 64 bit words and wrap; signed integers are \<open>int\<close> with
  \<open>wrap_int32\<close> and \<open>wrap_int64\<close> where the code may overflow. Maps are finite maps, and sets of
  peers are finite sets that may be nil.

  \<^bold>\<open>The theories.\<close>

  \<^item> \<open>Raft_Prelude\<close>: panics, slices, sets of peers, and the facts on lists, words and
    majorities that the components share.
  \<^item> \<open>Hlc_Timestamp\<close>, \<open>Hlc_Clock\<close> (\<open>util/hlc\<close>): the order and arithmetic of timestamps; the clock
    with reading, updating, the persisted bound and \<open>SleepUntil\<close>. A reading is later than
    everything the clock has seen.
  \<^item> \<open>Raftpb\<close> (\<open>raftpb\<close>): messages, configuration changes, \<open>ConfState.Equivalent\<close>.
  \<^item> \<open>Quorum\<close> (\<open>quorum\<close>): vote results, committed indices and lead support of majority and joint
    configurations. The locale \<open>quorum_system\<close> is the contract that elections and commitment
    rely on; both kinds of configuration interpret it.
  \<^item> \<open>Inflights\<close>, \<open>Tracker_Progress\<close>, \<open>Progress_Tracker\<close> (\<open>tracker\<close>): the ring buffer as a
    refinement of a bounded queue, the states of a follower as seen by the leader with their
    invariant relative to the leader's log, and the tallies of votes and activity. The relation
    \<open>progress_step\<close> lists the changes of a \<open>Progress\<close> and names the two facts it relies on, about
    snapshots and acknowledgements; \<open>Raft_Core\<close> shows that \<open>maybeSendAppend\<close> and \<open>appendEntry\<close>
    perform its steps.
  \<^item> \<open>Confchange\<close> (\<open>confchange\<close>): simple and joint changes as a refinement of sets, \<open>Restore\<close> with
    its round trip, and the overlap of quorums along every chain of changes.
  \<^item> \<open>Log_Types\<close>, \<open>Storage\<close>, \<open>Unstable\<close>, \<open>Raft_Log\<close> (\<open>types.go\<close>, \<open>storage.go\<close>, \<open>log_unstable.go\<close>,
    \<open>log.go\<close>): log slices, the storage contract \<open>storage_contract\<close> with the in-memory storage as
    its interpretation, and the log as the sequence of entries it represents: reads,
    appends, conflicts, positions, and that committed entries are final.
  \<^item> \<open>Raft_Core\<close>, \<open>Raft_Roles\<close>, \<open>Raft_Step\<close> (\<open>raft.go\<close>): the state of a node, sending, the roles and
    one definition per message handler, up to \<open>raft_Step\<close>.
  \<^item> \<open>Raw_Node\<close>, \<open>Log_Store\<close>, \<open>Raft_Status\<close> (\<open>rawnode.go\<close>, \<open>status.go\<close>, \<open>bootstrap.go\<close>, types of
    \<open>node.go\<close>; \<open>logstore.go\<close>, \<open>replica_raft.go\<close>): the interface to the application and what the
    storage threads make of it.
  \<^item> \<open>Raft_Votes\<close>, \<open>Raft_Election\<close>: every handler refines an abstract election machine; in every
    run of a cluster no term has two leaders.
  \<^item> \<open>Store_Support\<close>, \<open>Support_Manager\<close> (\<open>supporter_state.go\<close>, \<open>requester_state.go\<close>, \<open>persist.go\<close>,
    \<open>support_manager.go\<close>, \<open>config.go\<close>): the states and the disk of a store, and its manager.
  \<^item> \<open>Support_Protocol\<close>, \<open>Support_Run\<close>, \<open>Support_Cluster\<close>: the abstract protocol with its
    invariant, the simulation of each action of a manager by its steps, and runs of stores
    in which support that is believed is support that is provided.
  \<^item> \<open>Replica_Set\<close> (\<open>roachpb/metadata.go\<close>, \<open>roachpb/metadata_replicas.go\<close>): range descriptors, the
    raft configuration they describe, and availability.
  \<^item> \<open>Replica_Liveness\<close> (\<open>replica_store_liveness.go\<close>): the adapter, and what it means for fortified
    followers.

  \<^bold>\<open>Runs.\<close> In a run of a cluster (\<open>cluster_step\<close>) the nodes have asynchronous storage writes, the
  network may lose, repeat and reorder messages, a crash loses what is not written, and
  storage and store liveness may be anything; voters are fixed and terms stay below the
  largest 64 bit number. In a run of stores (\<open>sl_step\<close>) writes to disk succeed, commits of a
  batch may fail, clocks read any wall time, and the epochs have not reached the largest
  64 bit integer.

  \<^bold>\<open>Parameters.\<close> Code outside the repository or generated is an argument: the encoding of
  protocol buffers (the record \<open>codec\<close>), the storage engine (\<open>sl_engine\<close>), the wall clock, the
  random numbers of the election timeout, and the \<open>Storage\<close> of a log, whose contract is the
  locale \<open>storage_contract\<close>.

  \<^bold>\<open>Termination.\<close> Loops are structural recursion or have a measure, except three that depend on
  storage or on the window of a follower and are partial functions, where not returning is
  \<^term>\<open>None\<close>: \<open>raftLog_scan\<close>, which is proved to end, \<open>raftLog_allEntries\<close> and \<open>raft_sendAppends\<close>.
  There is no fuel.

  \<^bold>\<open>Not modelled.\<close> The goroutine and channels of \<open>node.go\<close>, which run a \<open>RawNode\<close> and add no step
  of the protocol; the transport of store liveness, which is network I/O; locks, since each
  object is changed by one goroutine at a time; loggers, formatting and tests (the reads of the
  log that a message needs and that can panic are kept); the monitoring
  goroutine of the clock; the fraction of ranges with fortification, which compares a
  floating point setting with a hash and is a boolean here; and the rest of the database
  (SQL, the storage engine, gossip, leases, transactions), which these parts do not depend on.
\<close>

end
